(* ===== verification/Prelude.thy ===== *)
theory Prelude
  imports Main "HOL-Library.Word" "HOL-Library.Monad_Syntax"
begin

text \<open>
  Shared vocabulary of the development: machine-integer names, little-endian codecs,
  bounds-checked buffer access, and generic facts on lists, maps and words.

  A Rust slice operation that would panic is an \<open>option\<close>: \<open>None\<close> is the panic.
  File descriptors (\<^verbatim>\<open>RawFd\<close>) are \<open>int\<close>, since the code only compares them and tests
  their sign.  Codecs are the interface \<open>byte_codec\<close>, interpreted below for the
  widths the code serialises.
\<close>

unbundle bit_operations_syntax

named_theorems codec_simps \<open>reading back what was written to a byte buffer\<close>
named_theorems model_defs \<open>definitions unfolded together when a component is evaluated\<close>

type_synonym u8 = "8 word"
type_synonym u16 = "16 word"
type_synonym u32 = "32 word"
type_synonym u64 = "64 word"
type_synonym bytes = "8 word list"
type_synonym fd = int

subsection \<open>Little-endian encodings\<close>

definition u16_to_le :: "u16 \<Rightarrow> bytes" where
  "u16_to_le w = [ucast w, ucast (drop_bit 8 w)]"

definition u16_from_le :: "bytes \<Rightarrow> u16" where
  "u16_from_le bs = ucast (bs ! 0) OR push_bit 8 (ucast (bs ! 1))"

definition u32_to_le :: "u32 \<Rightarrow> bytes" where
  "u32_to_le w = [ucast w, ucast (drop_bit 8 w), ucast (drop_bit 16 w), ucast (drop_bit 24 w)]"

definition u32_from_le :: "bytes \<Rightarrow> u32" where
  "u32_from_le bs = ucast (bs ! 0) OR push_bit 8 (ucast (bs ! 1))
     OR push_bit 16 (ucast (bs ! 2)) OR push_bit 24 (ucast (bs ! 3))"

definition u64_to_le :: "u64 \<Rightarrow> bytes" where
  "u64_to_le w = u32_to_le (ucast w) @ u32_to_le (ucast (drop_bit 32 w))"

definition u64_from_le :: "bytes \<Rightarrow> u64" where
  "u64_from_le bs = ucast (u32_from_le (take 4 bs)) OR push_bit 32 (ucast (u32_from_le (drop 4 bs)))"

subsection \<open>Bounds-checked buffers\<close>

definition slice :: "nat \<Rightarrow> nat \<Rightarrow> 'a list \<Rightarrow> 'a list option" where
  "slice a b xs = (if a \<le> b \<and> b \<le> length xs then Some (take (b - a) (drop a xs)) else None)"

definition put :: "nat \<Rightarrow> 'a list \<Rightarrow> 'a list \<Rightarrow> 'a list option" where
  "put off bs buf =
     (if off + length bs \<le> length buf
      then Some (take off buf @ bs @ drop (off + length bs) buf) else None)"

definition resize :: "nat \<Rightarrow> 'a \<Rightarrow> 'a list \<Rightarrow> 'a list" where
  "resize n z xs = take n xs @ replicate (n - length xs) z"

text \<open>The four-byte and two-byte reads \<^verbatim>\<open>uN::from_le_bytes([b[o], ...])\<close>: out of range panics.\<close>

definition rd_u16 :: "nat \<Rightarrow> bytes \<Rightarrow> u16 option" where
  "rd_u16 off buf = map_option u16_from_le (slice off (off + 2) buf)"

definition rd_u32 :: "nat \<Rightarrow> bytes \<Rightarrow> u32 option" where
  "rd_u32 off buf = map_option u32_from_le (slice off (off + 4) buf)"

definition rd_u64 :: "nat \<Rightarrow> bytes \<Rightarrow> u64 option" where
  "rd_u64 off buf = map_option u64_from_le (slice off (off + 8) buf)"

definition rd_u8 :: "nat \<Rightarrow> bytes \<Rightarrow> u8 option" where
  "rd_u8 off buf = (if off < length buf then Some (buf ! off) else None)"

text \<open>\<^verbatim>\<open>for i in a..a+n { body }\<close> over a state, where the body may panic.\<close>

fun for_range :: "nat \<Rightarrow> nat \<Rightarrow> (nat \<Rightarrow> 's \<Rightarrow> 's option) \<Rightarrow> 's \<Rightarrow> 's option" where
  "for_range a 0 f s = Some s"
| "for_range a (Suc n) f s = do { s' \<leftarrow> f a s; for_range (Suc a) n f s' }"

subsection \<open>Codec facts\<close>

lemma u16_le_len [simp]: "length (u16_to_le w) = 2"
  by (simp add: u16_to_le_def)

lemma u32_le_len [simp]: "length (u32_to_le w) = 4"
  by (simp add: u32_to_le_def)

lemma u64_le_len [simp]: "length (u64_to_le w) = 8"
  by (simp add: u64_to_le_def)

lemma u16_le_roundtrip [simp]: "u16_from_le (u16_to_le w) = w"
  unfolding u16_from_le_def u16_to_le_def
  by (intro bit_word_eqI) (auto simp: bit_simps)

lemma u32_le_roundtrip [simp]: "u32_from_le (u32_to_le w) = w"
proof (rule bit_word_eqI)
  fix n assume "n < LENGTH(32)"
  then show "bit (u32_from_le (u32_to_le w)) n = bit w n"
    by (cases "n < 8"; cases "n < 16"; cases "n < 24")
      (auto simp: u32_from_le_def u32_to_le_def bit_simps)
qed

lemma u32_le_inverse: "length bs = 4 \<Longrightarrow> u32_to_le (u32_from_le bs) = bs"
proof -
  assume "length bs = 4"
  then obtain a b c d where bs: "bs = [a, b, c, d]"
    by (auto simp: numeral_eq_Suc length_Suc_conv)
  have high: "\<not> bit x (8 + n)" "\<not> bit x (16 + n)" "\<not> bit x (24 + n)" for x :: u8 and n
    using bit_imp_le_length[of x] by fastforce+
  show ?thesis unfolding bs u32_to_le_def u32_from_le_def
    by (auto intro!: bit_word_eqI simp: bit_simps high)
qed

lemma u64_le_roundtrip [simp]: "u64_from_le (u64_to_le w) = w"
  unfolding u64_from_le_def u64_to_le_def
  by (intro bit_word_eqI) (auto simp: bit_simps)

subsection \<open>Buffer facts\<close>

lemma put_length: "put off bs buf = Some buf' \<Longrightarrow> length buf' = length buf"
  by (auto simp: put_def split: if_splits)

lemma put_Some_iff: "(\<exists>buf'. put off bs buf = Some buf') \<longleftrightarrow> off + length bs \<le> length buf"
  by (simp add: put_def)

lemma put_None_iff [simp]: "put off bs buf = None \<longleftrightarrow> length buf < off + length bs"
  by (auto simp: put_def)

lemma slice_Some_iff: "(\<exists>ys. slice a b xs = Some ys) \<longleftrightarrow> a \<le> b \<and> b \<le> length xs"
  by (auto simp: slice_def)

lemma slice_length: "slice a b xs = Some ys \<Longrightarrow> length ys = b - a"
  by (auto simp: slice_def split: if_splits)

lemma slice_put_same:
  assumes "put off bs buf = Some buf'" and "b = off + length bs"
  shows "slice off b buf' = Some bs"
  using assms by (auto simp: put_def slice_def split: if_splits)

lemma nth_put:
  assumes "put off bs buf = Some buf'" and "i < length buf"
  shows "buf' ! i = (if off \<le> i \<and> i < off + length bs then bs ! (i - off) else buf ! i)"
  using assms by (auto simp: put_def nth_append min_def split: if_splits)

lemma slice_cong:
  assumes "length xs = length ys" and "\<And>i. a \<le> i \<Longrightarrow> i < b \<Longrightarrow> i < length xs \<Longrightarrow> xs ! i = ys ! i"
  shows "slice a b xs = slice a b ys"
  using assms by (auto simp: slice_def intro!: nth_equalityI)

lemma slice_put_other:
  assumes "put off bs buf = Some buf'" and "b \<le> off \<or> off + length bs \<le> a"
  shows "slice a b buf' = slice a b buf"
  using assms by (intro slice_cong) (auto simp: put_length nth_put)

lemma resize_length [simp]: "length (resize n z xs) = n"
  by (auto simp: resize_def min_def)

lemma slice_resize: "b \<le> length xs \<Longrightarrow> b \<le> n \<Longrightarrow> slice a b (resize n z xs) = slice a b xs"
  by (auto simp: slice_def resize_def intro!: nth_equalityI simp: nth_append)

lemma rd_u32_None_iff [simp]: "rd_u32 off buf = None \<longleftrightarrow> length buf < off + 4"
  by (auto simp: rd_u32_def slice_def)

lemma rd_u64_None_iff [simp]: "rd_u64 off buf = None \<longleftrightarrow> length buf < off + 8"
  by (auto simp: rd_u64_def slice_def)

lemma rd_u16_None_iff [simp]: "rd_u16 off buf = None \<longleftrightarrow> length buf < off + 2"
  by (auto simp: rd_u16_def slice_def)

lemma rd_u32_slice: "slice off (off + 4) b = Some (u32_to_le w) \<Longrightarrow> rd_u32 off b = Some w"
  by (simp add: rd_u32_def)

lemma rd_u64_slice: "slice off (off + 8) b = Some (u64_to_le w) \<Longrightarrow> rd_u64 off b = Some w"
  by (simp add: rd_u64_def)

lemma rd_u8_put_other:
  assumes "put o' bs buf = Some buf'" and "off < o' \<or> o' + length bs \<le> off"
  shows "rd_u8 off buf' = rd_u8 off buf"
  using assms by (auto simp: rd_u8_def put_length nth_put)

lemma rd_u8_put_same:
  "put off [b] buf = Some buf' \<Longrightarrow> rd_u8 off buf' = Some b"
  by (auto simp: rd_u8_def put_length nth_put) (auto simp: put_def split: if_splits)

subsection \<open>The codec interface\<close>

text \<open>
  What every fixed-width field of a wire format promises: a constant width and a decoder
  that inverts the encoder.  The lemmas proved from it say that a field written with
  \<^verbatim>\<open>copy_from_slice\<close> reads back, and that a write elsewhere does not disturb it.
\<close>

locale byte_codec =
  fixes enc :: "'a \<Rightarrow> bytes" and dec :: "bytes \<Rightarrow> 'a" and width :: nat
    and rd :: "nat \<Rightarrow> bytes \<Rightarrow> 'a option"
  assumes enc_width: "length (enc x) = width"
    and dec_enc: "dec (enc x) = x"
    and rd_eq: "rd off buf = map_option dec (slice off (off + width) buf)"
begin

lemma rd_put_same: "put off (enc x) buf = Some buf' \<Longrightarrow> rd off buf' = Some x"
  by (simp add: rd_eq slice_put_same enc_width dec_enc)

lemma rd_put_other:
  "put o' bs buf = Some buf' \<Longrightarrow> off + width \<le> o' \<or> o' + length bs \<le> off \<Longrightarrow> rd off buf' = rd off buf"
  by (simp add: rd_eq slice_put_other)

lemma rd_total: "off + width \<le> length buf \<Longrightarrow> \<exists>x. rd off buf = Some x"
  by (simp add: rd_eq slice_def)

lemma rd_resize:
  "off + width \<le> length buf \<Longrightarrow> off + width \<le> n \<Longrightarrow> rd off (resize n z buf) = rd off buf"
  by (simp add: rd_eq slice_resize)

end

interpretation c16: byte_codec u16_to_le u16_from_le 2 rd_u16
  by unfold_locales (simp_all add: rd_u16_def)

interpretation c32: byte_codec u32_to_le u32_from_le 4 rd_u32
  by unfold_locales (simp_all add: rd_u32_def)

interpretation c64: byte_codec u64_to_le u64_from_le 8 rd_u64
  by unfold_locales (simp_all add: rd_u64_def)

lemmas rd_put_same [codec_simps] =
  c16.rd_put_same c32.rd_put_same c64.rd_put_same rd_u8_put_same
lemmas rd_put_other [codec_simps] =
  c16.rd_put_other c32.rd_put_other c64.rd_put_other rd_u8_put_other

subsection \<open>Loops\<close>

lemma for_range_invariant:
  assumes "for_range a n f s = Some s'" and "P a s"
    and "\<And>i s s'. a \<le> i \<Longrightarrow> i < a + n \<Longrightarrow> P i s \<Longrightarrow> f i s = Some s' \<Longrightarrow> P (Suc i) s'"
  shows "P (a + n) s'"
  using assms
proof (induction a n f s rule: for_range.induct)
  case (1 a f s)
  then show ?case by simp
next
  case (2 a n f s)
  from "2.prems"(1) obtain t where t: "f a s = Some t" and r: "for_range (Suc a) n f t = Some s'"
    by (auto simp: bind_eq_Some_conv)
  have "P (Suc a) t" using "2.prems"(2,3) t by simp
  then have "P (Suc a + n) s'"
    using "2.IH"[OF t r] "2.prems"(3) by simp
  then show ?case by simp
qed

lemma for_range_total:
  assumes "P a s"
    and "\<And>i s. a \<le> i \<Longrightarrow> i < a + n \<Longrightarrow> P i s \<Longrightarrow> \<exists>s'. f i s = Some s' \<and> P (Suc i) s'"
  shows "\<exists>s'. for_range a n f s = Some s' \<and> P (a + n) s'"
  using assms
proof (induction n arbitrary: a s)
  case 0
  then show ?case by simp
next
  case (Suc n)
  obtain t where t: "f a s = Some t" "P (Suc a) t"
    using Suc.prems(2)[of a s] Suc.prems(1) by auto
  have "\<exists>s'. for_range (Suc a) n f t = Some s' \<and> P (Suc a + n) s'"
    using Suc.prems(2) by (intro Suc.IH t(2)) auto
  with t(1) show ?case by simp
qed

subsection \<open>Writes confined to a region\<close>

definition same_outside :: "nat \<Rightarrow> nat \<Rightarrow> bytes \<Rightarrow> bytes \<Rightarrow> bool" where
  "same_outside lo hi b b' \<longleftrightarrow>
     length b' = length b \<and> (\<forall>k < length b. k < lo \<or> hi \<le> k \<longrightarrow> b' ! k = b ! k)"

lemma same_outside_refl [simp]: "same_outside lo hi b b"
  by (simp add: same_outside_def)

lemma same_outside_trans: "same_outside lo hi b b' \<Longrightarrow> same_outside lo hi b' b'' \<Longrightarrow> same_outside lo hi b b''"
  by (simp add: same_outside_def)

lemma same_outside_mono: "same_outside lo hi b b' \<Longrightarrow> lo' \<le> lo \<Longrightarrow> hi \<le> hi' \<Longrightarrow> same_outside lo' hi' b b'"
  by (simp add: same_outside_def)

lemma same_outside_length: "same_outside lo hi b b' \<Longrightarrow> length b' = length b"
  by (simp add: same_outside_def)

lemma same_outside_put:
  "put off bs b = Some b' \<Longrightarrow> lo \<le> off \<Longrightarrow> off + length bs \<le> hi \<Longrightarrow> same_outside lo hi b b'"
  by (auto simp: same_outside_def put_length nth_put)

lemma same_outside_slice:
  "same_outside lo hi b b' \<Longrightarrow> y \<le> lo \<or> hi \<le> x \<Longrightarrow> slice x y b' = slice x y b"
  by (rule slice_cong) (auto simp: same_outside_def)

lemma same_outside_rd:
  assumes "same_outside lo hi b b'"
  shows "off + 2 \<le> lo \<or> hi \<le> off \<Longrightarrow> rd_u16 off b' = rd_u16 off b"
    and "off + 4 \<le> lo \<or> hi \<le> off \<Longrightarrow> rd_u32 off b' = rd_u32 off b"
    and "off + 8 \<le> lo \<or> hi \<le> off \<Longrightarrow> rd_u64 off b' = rd_u64 off b"
    and "off + 1 \<le> lo \<or> hi \<le> off \<Longrightarrow> rd_u8 off b' = rd_u8 off b"
  using assms same_outside_slice[OF assms]
  by (auto simp: rd_u16_def rd_u32_def rd_u64_def rd_u8_def same_outside_def)

subsection \<open>Structures written field by field\<close>

fun puts :: "(nat \<times> bytes) list \<Rightarrow> bytes \<Rightarrow> bytes option" where
  "puts [] b = Some b"
| "puts ((off, bs) # fs) b = do { b' \<leftarrow> put off bs b; puts fs b' }"

definition apart :: "nat \<times> bytes \<Rightarrow> nat \<times> bytes \<Rightarrow> bool" where
  "apart f g \<longleftrightarrow> fst f + length (snd f) \<le> fst g \<or> fst g + length (snd g) \<le> fst f"

lemma puts_ok:
  assumes "\<And>f. f \<in> set fs \<Longrightarrow> lo \<le> fst f \<and> fst f + length (snd f) \<le> hi" and "hi \<le> length b"
    and "sorted_wrt apart fs"
  shows "\<exists>b'. puts fs b = Some b' \<and> same_outside lo hi b b' \<and>
    (\<forall>f\<in>set fs. slice (fst f) (fst f + length (snd f)) b' = Some (snd f)) \<and>
    (\<forall>x y. (\<forall>f\<in>set fs. y \<le> fst f \<or> fst f + length (snd f) \<le> x) \<longrightarrow> slice x y b' = slice x y b)"
  using assms
proof (induction fs arbitrary: b)
  case (Cons f fs)
  obtain off bs where f: "f = (off, bs)" by (cases f)
  have "off + length bs \<le> length b" using Cons.prems(1)[of f] Cons.prems(2) f by simp
  then obtain b1 where b1: "put off bs b = Some b1" by (simp add: put_def)
  have len: "hi \<le> length b1" using Cons.prems(2) put_length[OF b1] by simp
  obtain b' where b': "puts fs b1 = Some b'" "same_outside lo hi b1 b'"
    and rd: "\<forall>f\<in>set fs. slice (fst f) (fst f + length (snd f)) b' = Some (snd f)"
    and fr: "\<forall>x y. (\<forall>f\<in>set fs. y \<le> fst f \<or> fst f + length (snd f) \<le> x) \<longrightarrow> slice x y b' = slice x y b1"
    using Cons.IH[of b1] Cons.prems(1,3) len by auto
  have "same_outside lo hi b b1" using Cons.prems(1)[of f] f by (intro same_outside_put[OF b1]) auto
  then have so: "same_outside lo hi b b'" using b'(2) by (rule same_outside_trans)
  have "slice off (off + length bs) b' = slice off (off + length bs) b1"
    using fr Cons.prems(3) f by (auto simp: apart_def)
  then have "slice off (off + length bs) b' = Some bs" using slice_put_same[OF b1 refl] by simp
  moreover have "slice x y b' = slice x y b"
    if "\<forall>g\<in>set (f # fs). y \<le> fst g \<or> fst g + length (snd g) \<le> x" for x y
    using that fr slice_put_other[OF b1, of y x] f by auto
  ultimately show ?case using b1 b'(1) so rd f by auto
qed simp

lemma puts_fun: "puts ((off, bs) # fs) = (\<lambda>b. Option.bind (put off bs b) (puts fs))" "puts [] = Some"
  by (auto simp: fun_eq_iff)

lemma puts_append: "puts (fs @ gs) b = Option.bind (puts fs b) (puts gs)"
proof (induction fs arbitrary: b)
  case (Cons f fs)
  then show ?case by (cases f; cases "put (fst f) (snd f) b") (simp_all del: put_None_iff)
qed simp

lemma slice_append:
  "a \<le> m \<Longrightarrow> slice a m b = Some xs \<Longrightarrow> slice m c b = Some ys \<Longrightarrow> slice a c b = Some (xs @ ys)"
proof -
  assume *: "a \<le> m" "slice a m b = Some xs" "slice m c b = Some ys"
  then have "m \<le> c" "c \<le> length b" "xs = take (m - a) (drop a b)" "ys = take (c - m) (drop m b)"
    by (auto simp: slice_def split: if_splits)
  moreover have "take (m - a + (c - m)) (drop a b) = take (m - a) (drop a b) @ take (c - m) (drop (m - a) (drop a b))"
    by (rule take_add)
  ultimately show ?thesis using *(1) by (simp add: slice_def)
qed

lemma slice_sub:
  "slice a c b = Some zs \<Longrightarrow> a \<le> x \<Longrightarrow> x \<le> y \<Longrightarrow> y \<le> c \<Longrightarrow> slice x y b = Some (take (y - x) (drop (x - a) zs))"
proof -
  assume s: "slice a c b = Some zs" and le: "a \<le> x" "x \<le> y" "y \<le> c"
  from s have c: "c \<le> length b" and zs: "zs = take (c - a) (drop a b)" by (simp_all add: slice_def split: if_splits)
  have "drop (x - a) zs = take (c - x) (drop x b)" using le by (simp add: zs drop_take)
  then show ?thesis using le c by (simp add: slice_def min_def)
qed

text \<open>
  A table of fixed-size entries written by a loop
: each iteration writes its own entry, which must be
  fresh (a condition on the bytes already there), and a fact about an entry survives writes outside it.
\<close>

locale fresh_table =
  fixes base w n total :: nat and wr :: "nat \<Rightarrow> bytes \<Rightarrow> bytes option"
    and fresh entry_ok :: "nat \<Rightarrow> bytes \<Rightarrow> bool"
  assumes write_fresh: "i < n \<Longrightarrow> length b = total \<Longrightarrow> fresh i b \<Longrightarrow>
      \<exists>b'. wr i b = Some b' \<and> same_outside (base + i * w) (base + i * w + w) b b' \<and> entry_ok i b'"
    and entry_stable: "i < n \<Longrightarrow> entry_ok i b \<Longrightarrow> length b = total \<Longrightarrow> same_outside lo hi b b' \<Longrightarrow>
      base + i * w + w \<le> lo \<or> hi \<le> base + i * w \<Longrightarrow> entry_ok i b'"
    and fresh_stable: "i < n \<Longrightarrow> fresh i b \<Longrightarrow> length b = total \<Longrightarrow> same_outside lo hi b b' \<Longrightarrow>
      base + i * w + w \<le> lo \<or> hi \<le> base + i * w \<Longrightarrow> fresh i b'"
begin

lemma write_all_fresh:
  assumes "length b = total" and "\<And>i. i < n \<Longrightarrow> fresh i b"
  shows "\<exists>b'. for_range 0 n wr b = Some b' \<and> same_outside base (base + n * w) b b' \<and> (\<forall>i<n. entry_ok i b')"
proof -
  let ?P = "\<lambda>i b'. same_outside base (base + i * w) b b' \<and> (\<forall>j<i. j < n \<longrightarrow> entry_ok j b')"
  have "\<exists>b'. for_range 0 n wr b = Some b' \<and> ?P (0 + n) b'"
  proof (rule for_range_total)
    show "?P 0 b" by simp
  next
    fix i b1 assume i: "i < 0 + n" and P: "?P i b1"
    then have len: "length b1 = total" using assms(1) same_outside_length by fastforce
    from i have i': "i < n" by simp
    have "fresh i b1" using fresh_stable[OF i' assms(2)[OF i'] assms(1) conjunct1[OF P]] by simp
    from write_fresh[OF i' len this] obtain b2 where
      b2: "wr i b1 = Some b2" "same_outside (base + i * w) (base + i * w + w) b1 b2" "entry_ok i b2" by blast
    have "same_outside base (base + Suc i * w) b b2"
      using same_outside_trans[OF same_outside_mono[OF conjunct1[OF P]] same_outside_mono[OF b2(2)]]
      by (simp add: algebra_simps)
    moreover have "entry_ok j b2" if "j < Suc i" for j
    proof (cases "j = i")
      case False
      then have "Suc j * w \<le> i * w" using that by (intro mult_le_mono1) simp
      then have "base + j * w + w \<le> base + i * w" by simp
      with False that P i entry_stable[OF _ _ len b2(2), of j] show ?thesis by auto
    qed (use b2 in simp)
    ultimately show "\<exists>b2. wr i b1 = Some b2 \<and> ?P (Suc i) b2" using b2(1) by blast
  qed
  then show ?thesis by simp
qed

end

text \<open>Entries that may be written over anything.\<close>

locale entry_table =
  fixes base w n total :: nat and wr :: "nat \<Rightarrow> bytes \<Rightarrow> bytes option" and entry_ok :: "nat \<Rightarrow> bytes \<Rightarrow> bool"
  assumes write_entry: "i < n \<Longrightarrow> length b = total \<Longrightarrow>
      \<exists>b'. wr i b = Some b' \<and> same_outside (base + i * w) (base + i * w + w) b b' \<and> entry_ok i b'"
    and entry_stable: "i < n \<Longrightarrow> entry_ok i b \<Longrightarrow> length b = total \<Longrightarrow> same_outside lo hi b b' \<Longrightarrow>
      base + i * w + w \<le> lo \<or> hi \<le> base + i * w \<Longrightarrow> entry_ok i b'"

sublocale entry_table \<subseteq> ft: fresh_table base w n total wr "\<lambda>_ _. True" entry_ok
  by unfold_locales (auto intro: write_entry entry_stable)

context entry_table
begin

lemma write_all:
  "length b = total \<Longrightarrow>
     \<exists>b'. for_range 0 n wr b = Some b' \<and> same_outside base (base + n * w) b b' \<and> (\<forall>i<n. entry_ok i b')"
  by (rule ft.write_all_fresh) simp_all

end

lemma those_total: "(\<And>x. x \<in> set xs \<Longrightarrow> \<exists>y. f x = Some y) \<Longrightarrow> \<exists>ys. those (map f xs) = Some ys \<and> length ys = length xs"
  by (induction xs) force+

lemma choice_below: "(\<And>i. i < (n :: nat) \<Longrightarrow> \<exists>x. P i x) \<Longrightarrow> \<exists>f. \<forall>i<n. P i (f i)"
  by metis

lemma those_map_Some: "(\<And>i. i \<in> set xs \<Longrightarrow> f i = Some (g i)) \<Longrightarrow> those (map f xs) = Some (map g xs)"
  by (induction xs) auto

subsection \<open>Injective maps\<close>

lemma inj_map_eq: "inj_on m (dom m) \<Longrightarrow> m a = Some x \<Longrightarrow> m b = Some x \<Longrightarrow> a = b"
  by (auto dest!: inj_onD[of m "dom m" a b])

lemma inj_mapI: "(\<And>a b x. m a = Some x \<Longrightarrow> m b = Some x \<Longrightarrow> a = b) \<Longrightarrow> inj_on m (dom m)"
  by (rule inj_onI) (metis domD)

lemma inj_map_insert:
  assumes "inj_on m (dom m)" and "x \<notin> ran m"
  shows "inj_on (m(k \<mapsto> x)) (dom (m(k \<mapsto> x)))"
proof (rule inj_mapI)
  fix a b y
  assume "(m(k \<mapsto> x)) a = Some y" and "(m(k \<mapsto> x)) b = Some y"
  then show "a = b"
    using assms by (cases "a = k"; cases "b = k") (auto simp: ranI dest: inj_map_eq)
qed

lemma inj_map_delete: "inj_on m (dom m) \<Longrightarrow> inj_on (m(k := None)) (dom (m(k := None)))"
  by (rule inj_mapI) (auto dest: inj_map_eq split: if_splits)

lemma ran_map_delete_inj:
  assumes "inj_on m (dom m)" and "m k = Some x"
  shows "ran (m(k := None)) = ran m - {x}"
proof (intro equalityI subsetI)
  fix y assume "y \<in> ran (m(k := None))"
  then obtain a where "a \<noteq> k" "m a = Some y" by (auto simp: ran_def split: if_splits)
  then show "y \<in> ran m - {x}" using inj_map_eq[OF assms(1), of a y k] assms(2) by (auto simp: ranI)
next
  fix y assume "y \<in> ran m - {x}"
  then obtain a where "m a = Some y" "y \<noteq> x" by (auto simp: ran_def)
  then have "(m(k := None)) a = Some y" using assms(2) by auto
  then show "y \<in> ran (m(k := None))" by (rule ranI)
qed

lemma map_of_rev_distinct: "distinct (map fst xs) \<Longrightarrow> map_of (rev xs) = map_of xs"
  by (subst map_of_inject_set) (simp_all add: rev_map[symmetric])

subsection \<open>Words as indices\<close>

lemma unat_u32_lt: "unat (w :: u32) < 4294967296"
  using unsigned_less[of w] by simp

lemma unat_of_nat_u32: "n < 2 ^ 32 \<Longrightarrow> unat (of_nat n :: u32) = n"
  by (simp add: unat_of_nat take_bit_nat_eq_self)

lemma unat_inc_u32: "unat (w :: u32) + 1 < 2 ^ 32 \<Longrightarrow> unat (w + 1) = unat w + 1"
  by (simp add: unat_word_ariths)

end
