(* ===== verification/Ustring.thy ===== *)
theory Ustring
  imports Prelude "HOL-Library.Sublist"
begin

text \<open>
  Rust strings: a \<^verbatim>\<open>String\<close> is a list of Unicode scalar values, each an \<open>int\<close>.  The
  operations of \<^verbatim>\<open>str\<close>, \<^verbatim>\<open>char\<close> and \<^verbatim>\<open>uN::from_str_radix\<close> that the sources call are defined
  as the standard library documents them, UTF-16 coding with its replacement character included.
  \<^verbatim>\<open>str::to_lowercase\<close>, a table of the Unicode standard, is a function argument wherever it is used.
\<close>

type_synonym uchar = int
type_synonym ustr = "int list"

definition lit :: "string \<Rightarrow> ustr" where
  "lit s = map of_char s"

definition is_scalar :: "uchar \<Rightarrow> bool" where
  "is_scalar c \<longleftrightarrow> 0 \<le> c \<and> c \<le> 0x10FFFF \<and> \<not> (0xD800 \<le> c \<and> c \<le> 0xDFFF)"

text \<open>ASCII lower case, which \<^verbatim>\<open>to_lowercase\<close> agrees with on ASCII strings.\<close>

definition ascii_lower :: "ustr \<Rightarrow> ustr" where
  "ascii_lower s = map (\<lambda>c. if 65 \<le> c \<and> c \<le> 90 then c + 32 else c) s"

definition is_ascii :: "ustr \<Rightarrow> bool" where
  "is_ascii s \<longleftrightarrow> (\<forall>c\<in>set s. 0 \<le> c \<and> c < 128)"

definition lowers_ascii :: "(ustr \<Rightarrow> ustr) \<Rightarrow> bool" where
  "lowers_ascii lc \<longleftrightarrow> (\<forall>s. is_ascii s \<longrightarrow> lc s = ascii_lower s)"

subsection \<open>UTF-16\<close>

definition encode_char :: "uchar \<Rightarrow> u16 list" where
  "encode_char c =
     (if c < 0x10000 then [word_of_int c]
      else [word_of_int (0xD800 + (c - 0x10000) div 1024), word_of_int (0xDC00 + (c - 0x10000) mod 1024)])"

definition encode_utf16 :: "ustr \<Rightarrow> u16 list" where
  "encode_utf16 s = concat (map encode_char s)"

definition is_surrogate :: "u16 \<Rightarrow> bool" where
  "is_surrogate u \<longleftrightarrow> 0xD800 \<le> uint u \<and> uint u \<le> 0xDFFF"

definition is_trail :: "u16 \<Rightarrow> bool" where
  "is_trail u \<longleftrightarrow> 0xDC00 \<le> uint u \<and> uint u \<le> 0xDFFF"

definition join_surrogates :: "u16 \<Rightarrow> u16 \<Rightarrow> uchar" where
  "join_surrogates u v = 0x10000 + (uint u - 0xD800) * 1024 + (uint v - 0xDC00)"

fun from_utf16_lossy :: "u16 list \<Rightarrow> ustr" where
  "from_utf16_lossy [] = []"
| "from_utf16_lossy [u] = [if is_surrogate u then 0xFFFD else uint u]"
| "from_utf16_lossy (u # v # vs) =
     (if \<not> is_surrogate u then uint u # from_utf16_lossy (v # vs)
      else if \<not> is_trail u \<and> is_trail v then join_surrogates u v # from_utf16_lossy vs
      else 0xFFFD # from_utf16_lossy (v # vs))"

text \<open>\<^verbatim>\<open>bytes.chunks_exact(2).map(u16::from_le_bytes)\<close> and its inverse.\<close>

fun u16s_of_le :: "bytes \<Rightarrow> u16 list" where
  "u16s_of_le (a # b # r) = u16_from_le [a, b] # u16s_of_le r"
| "u16s_of_le _ = []"

definition u16s_to_le :: "u16 list \<Rightarrow> bytes" where
  "u16s_to_le us = concat (map u16_to_le us)"

definition utf16le_of :: "ustr \<Rightarrow> bytes" where
  "utf16le_of s = u16s_to_le (encode_utf16 s)"

definition utf16le_to_string :: "bytes \<Rightarrow> ustr" where
  "utf16le_to_string bs = from_utf16_lossy (u16s_of_le bs)"

subsection \<open>UTF-8 lengths and slicing at byte positions\<close>

definition len_utf8 :: "uchar \<Rightarrow> nat" where
  "len_utf8 c = (if c < 0x80 then 1 else if c < 0x800 then 2 else if c < 0x10000 then 3 else 4)"

definition utf8_len :: "ustr \<Rightarrow> nat" where
  "utf8_len s = sum_list (map len_utf8 s)"

definition encode_utf8_char :: "uchar \<Rightarrow> bytes" where
  "encode_utf8_char c =
     (if c < 0x80 then [word_of_int c]
      else if c < 0x800 then [word_of_int (0xC0 + c div 64), word_of_int (0x80 + c mod 64)]
      else if c < 0x10000 then
        [word_of_int (0xE0 + c div 4096), word_of_int (0x80 + c div 64 mod 64), word_of_int (0x80 + c mod 64)]
      else [word_of_int (0xF0 + c div 262144), word_of_int (0x80 + c div 4096 mod 64),
            word_of_int (0x80 + c div 64 mod 64), word_of_int (0x80 + c mod 64)])"

definition as_bytes :: "ustr \<Rightarrow> bytes" where
  "as_bytes s = concat (map encode_utf8_char s)"

definition is_cont :: "u8 \<Rightarrow> bool" where
  "is_cont b \<longleftrightarrow> 0x80 \<le> uint b \<and> uint b \<le> 0xBF"

definition second_ok :: "u8 \<Rightarrow> u8 \<Rightarrow> bool" where
  "second_ok a b \<longleftrightarrow> is_cont b \<and> (uint a = 0xE0 \<longrightarrow> 0xA0 \<le> uint b) \<and> (uint a = 0xED \<longrightarrow> uint b \<le> 0x9F) \<and>
     (uint a = 0xF0 \<longrightarrow> 0x90 \<le> uint b) \<and> (uint a = 0xF4 \<longrightarrow> uint b \<le> 0x8F)"

text \<open>
  One step of \<^verbatim>\<open>String::from_utf8_lossy\<close>: the character decoded at the head of the input and the number of bytes it
  takes; an ill-formed prefix gives the replacement character and the bytes before the offending one.
\<close>

definition decode_utf8_step :: "bytes \<Rightarrow> uchar \<times> nat" where
  "decode_utf8_step s = (case s of [] \<Rightarrow> (0xFFFD, 1) | a # s1 \<Rightarrow> let x = uint a in
     if x < 0x80 then (x, 1)
     else if x < 0xC2 \<or> 0xF4 < x then (0xFFFD, 1)
     else (case s1 of [] \<Rightarrow> (0xFFFD, 1) | b # s2 \<Rightarrow>
       if \<not> second_ok a b then (0xFFFD, 1)
       else if x < 0xE0 then ((x - 0xC0) * 64 + (uint b - 0x80), 2)
       else (case s2 of [] \<Rightarrow> (0xFFFD, 2) | c # s3 \<Rightarrow>
         if \<not> is_cont c then (0xFFFD, 2)
         else if x < 0xF0 then ((x - 0xE0) * 4096 + (uint b - 0x80) * 64 + (uint c - 0x80), 3)
         else (case s3 of [] \<Rightarrow> (0xFFFD, 3) | d # s4 \<Rightarrow>
           if \<not> is_cont d then (0xFFFD, 3)
           else ((x - 0xF0) * 262144 + (uint b - 0x80) * 4096 + (uint c - 0x80) * 64 + (uint d - 0x80), 4)))))"

lemma decode_utf8_step_pos: "0 < snd (decode_utf8_step s)"
  by (auto simp: decode_utf8_step_def Let_def split: list.splits)

function from_utf8_lossy :: "bytes \<Rightarrow> ustr" where
  "from_utf8_lossy s = (if s = [] then []
     else fst (decode_utf8_step s) # from_utf8_lossy (drop (snd (decode_utf8_step s)) s))"
  by pat_completeness auto
termination
  by (relation "measure length") (use decode_utf8_step_pos in auto)

declare from_utf8_lossy.simps [simp del]

lemma uint_of_int_u8: "0 \<le> c \<Longrightarrow> c < 256 \<Longrightarrow> uint (word_of_int c :: u8) = c"
  by (simp add: uint_word_of_int)

lemma utf8_ascii_roundtrip: "is_ascii s \<Longrightarrow> from_utf8_lossy (as_bytes s) = s"
proof (induction s)
  case Nil
  then show ?case by (simp add: as_bytes_def from_utf8_lossy.simps)
next
  case (Cons c s)
  then have c: "0 \<le> c" "c < 128" "is_ascii s" by (simp_all add: is_ascii_def)
  then have "as_bytes (c # s) = word_of_int c # as_bytes s"
    by (simp add: as_bytes_def encode_utf8_char_def)
  with c Cons.IH show ?case
    by (subst from_utf8_lossy.simps) (simp add: decode_utf8_step_def uint_of_int_u8 Let_def)
qed

text \<open>\<^verbatim>\<open>&s[..n]\<close> on bytes: panics (\<open>None\<close>) when \<open>n\<close> is past the end or inside a character.\<close>

fun str_prefix :: "nat \<Rightarrow> ustr \<Rightarrow> ustr option" where
  "str_prefix n [] = (if n = 0 then Some [] else None)"
| "str_prefix n (c # s) =
     (if n = 0 then Some [] else if n < len_utf8 c then None
      else map_option ((#) c) (str_prefix (n - len_utf8 c) s))"

subsection \<open>Splitting, trimming, replacing\<close>

fun split_on :: "uchar \<Rightarrow> ustr \<Rightarrow> ustr list" where
  "split_on d [] = [[]]"
| "split_on d (c # s) =
     (if c = d then [] # split_on d s
      else case split_on d s of p # ps \<Rightarrow> (c # p) # ps | [] \<Rightarrow> [[c]])"

definition is_whitespace :: "uchar \<Rightarrow> bool" where
  "is_whitespace c \<longleftrightarrow> (9 \<le> c \<and> c \<le> 13) \<or> (0x2000 \<le> c \<and> c \<le> 0x200A) \<or>
     c \<in> {32, 0x85, 0xA0, 0x1680, 0x2028, 0x2029, 0x202F, 0x205F, 0x3000}"

definition trim_end_by :: "(uchar \<Rightarrow> bool) \<Rightarrow> ustr \<Rightarrow> ustr" where
  "trim_end_by p s = rev (dropWhile p (rev s))"

definition str_trim :: "ustr \<Rightarrow> ustr" where
  "str_trim s = trim_end_by is_whitespace (dropWhile is_whitespace s)"

definition replace_char :: "uchar \<Rightarrow> ustr \<Rightarrow> ustr \<Rightarrow> ustr" where
  "replace_char c r s = concat (map (\<lambda>x. if x = c then r else [x]) s)"

definition strip_prefix :: "ustr \<Rightarrow> ustr \<Rightarrow> ustr option" where
  "strip_prefix p s = (if prefix p s then Some (drop (length p) s) else None)"

text \<open>\<^verbatim>\<open>s.split_once(p)\<close>: the text before and after the first occurrence of a pattern.\<close>

fun split_once :: "ustr \<Rightarrow> ustr \<Rightarrow> (ustr \<times> ustr) option" where
  "split_once p [] = (if p = [] then Some ([], []) else None)"
| "split_once p (c # s) =
     (if prefix p (c # s) then Some ([], drop (length p) (c # s))
      else map_option (\<lambda>(a, b). (c # a, b)) (split_once p s))"

definition str_contains :: "ustr \<Rightarrow> ustr \<Rightarrow> bool" where
  "str_contains p s \<longleftrightarrow> split_once p s \<noteq> None"

text \<open>\<^verbatim>\<open>s.lines()\<close>: pieces between newlines without a final carriage return; an empty last piece is dropped.\<close>

definition strip_cr :: "ustr \<Rightarrow> ustr" where
  "strip_cr s = (if s \<noteq> [] \<and> last s = 13 then butlast s else s)"

definition str_lines :: "ustr \<Rightarrow> ustr list" where
  "str_lines s = (let ps = split_on 10 s in
     map strip_cr (if last ps = [] then butlast ps else ps))"

fun join_with :: "ustr \<Rightarrow> ustr list \<Rightarrow> ustr" where
  "join_with sep [] = []"
| "join_with sep [x] = x"
| "join_with sep (x # y # zs) = x @ sep @ join_with sep (y # zs)"

text \<open>A string literal with backslashes in it, given as its pieces.\<close>

definition backslashed :: "string list \<Rightarrow> ustr" where
  "backslashed ss = join_with [92] (map lit ss)"

subsection \<open>Hexadecimal numbers\<close>


definition hex_val :: "uchar \<Rightarrow> nat option" where
  "hex_val c = (if 48 \<le> c \<and> c \<le> 57 then Some (nat (c - 48))
     else if 97 \<le> c \<and> c \<le> 102 then Some (nat (c - 87))
     else if 65 \<le> c \<and> c \<le> 70 then Some (nat (c - 55)) else None)"

fun hex_fold :: "nat \<Rightarrow> nat \<Rightarrow> ustr \<Rightarrow> nat option" where
  "hex_fold lim acc [] = Some acc"
| "hex_fold lim acc (c # cs) = do {
     d \<leftarrow> hex_val c;
     if acc * 16 + d < lim then hex_fold lim (acc * 16 + d) cs else None }"

text \<open>\<^verbatim>\<open>uN::from_str_radix(s, 16)\<close>, where \<open>lim\<close> is \<open>2 ^ N\<close>: one leading plus sign is allowed.\<close>

definition from_hex :: "nat \<Rightarrow> ustr \<Rightarrow> nat option" where
  "from_hex lim s = (case s of [] \<Rightarrow> None
     | c # cs \<Rightarrow> if c = 43 \<and> cs \<noteq> [] then hex_fold lim 0 cs else hex_fold lim 0 s)"

definition hex_digit :: "nat \<Rightarrow> uchar" where
  "hex_digit n = (if n < 10 then 48 + int n else 87 + int n)"

fun to_hex :: "nat \<Rightarrow> ustr" where
  "to_hex n = (if n < 16 then [hex_digit n] else to_hex (n div 16) @ [hex_digit (n mod 16)])"

declare to_hex.simps [simp del]

definition pad_left :: "nat \<Rightarrow> uchar \<Rightarrow> ustr \<Rightarrow> ustr" where
  "pad_left w c s = replicate (w - length s) c @ s"

subsection \<open>UTF-16 round trip\<close>

lemma uint_of_int_u16: "0 \<le> c \<Longrightarrow> c < 0x10000 \<Longrightarrow> uint (word_of_int c :: u16) = c"
  by (simp add: uint_word_of_int)

lemma decode_bmp:
  assumes "0 \<le> c" "c < 0x10000" "\<not> (0xD800 \<le> c \<and> c \<le> 0xDFFF)"
  shows "from_utf16_lossy (word_of_int c # us) = c # from_utf16_lossy us"
  using assms by (cases us) (auto simp: is_surrogate_def uint_of_int_u16)

lemma decode_pair:
  assumes "0x10000 \<le> c" "c \<le> 0x10FFFF"
  shows "from_utf16_lossy (encode_char c @ us) = c # from_utf16_lossy us"
proof -
  define h l where "h = 0xD800 + (c - 0x10000) div 1024" and "l = 0xDC00 + (c - 0x10000) mod 1024"
  define u v :: u16 where "u = word_of_int h" and "v = word_of_int l"
  have b: "0xD800 \<le> h" "h < 0xDC00" "0xDC00 \<le> l" "l \<le> 0xDFFF"
    using assms pos_mod_bound[of 1024 "c - 0x10000"] by (simp_all add: h_def l_def)
  have u: "uint u = h" "uint v = l" using b by (simp_all add: u_def v_def uint_of_int_u16)
  have "h * 1024 + l = c - 0x10000 + 0xD800 * 1024 + 0xDC00" by (simp add: h_def l_def algebra_simps)
  with b u have "from_utf16_lossy (u # v # us) = c # from_utf16_lossy us"
    by (simp add: is_surrogate_def is_trail_def join_surrogates_def)
  with assms(1) show ?thesis by (simp add: encode_char_def u_def v_def h_def l_def)
qed

lemma decode_char: "is_scalar c \<Longrightarrow> from_utf16_lossy (encode_char c @ us) = c # from_utf16_lossy us"
proof (cases "c < 0x10000")
  case False
  then show "is_scalar c \<Longrightarrow> ?thesis" by (intro decode_pair) (simp_all add: is_scalar_def)
qed (auto simp: is_scalar_def decode_bmp encode_char_def)

lemma utf16_roundtrip:
  "\<forall>c\<in>set s. is_scalar c \<Longrightarrow> from_utf16_lossy (encode_utf16 s) = s"
  by (induction s) (auto simp: encode_utf16_def decode_char)

lemma u16s_le_roundtrip [simp]: "u16s_of_le (u16s_to_le us) = us"
proof (induction us)
  case (Cons u us)
  have "u16_to_le u = [ucast u, ucast (drop_bit 8 u)]" by (simp add: u16_to_le_def)
  with Cons u16_le_roundtrip[of u] show ?case by (simp add: u16s_to_le_def)
qed (simp add: u16s_to_le_def)

lemma utf16le_roundtrip [codec_simps]:
  "\<forall>c\<in>set s. is_scalar c \<Longrightarrow> utf16le_to_string (utf16le_of s) = s"
  by (simp add: utf16le_to_string_def utf16le_of_def utf16_roundtrip)

lemma encode_utf16_append: "encode_utf16 (a @ b) = encode_utf16 a @ encode_utf16 b"
  by (simp add: encode_utf16_def)

lemma u16s_to_le_append: "u16s_to_le (a @ b) = u16s_to_le a @ u16s_to_le b"
  by (simp add: u16s_to_le_def)

lemma u16s_to_le_length [simp]: "length (u16s_to_le us) = 2 * length us"
  by (induction us) (simp_all add: u16s_to_le_def)

lemma utf16le_of_append: "utf16le_of (a @ b) = utf16le_of a @ utf16le_of b"
  by (simp add: utf16le_of_def encode_utf16_append u16s_to_le_append)

lemma utf16le_of_nul: "utf16le_of [0] = [0, 0]"
  by (simp add: utf16le_of_def encode_utf16_def encode_char_def u16s_to_le_def u16_to_le_def)

subsection \<open>Decoded text consists of scalar values\<close>

lemma uint_u16_bounds: "0 \<le> uint (u :: u16)" "uint u < 65536"
  using uint_lt2p[of u] by simp_all

lemma join_scalar:
  "is_surrogate u \<Longrightarrow> \<not> is_trail u \<Longrightarrow> is_trail v \<Longrightarrow> is_scalar (join_surrogates u v)"
  by (simp add: is_surrogate_def is_trail_def is_scalar_def join_surrogates_def)

lemma lossy_scalar: "c \<in> set (from_utf16_lossy us) \<Longrightarrow> is_scalar c"
proof (induction us rule: from_utf16_lossy.induct)
  case (2 u)
  then show ?case using uint_u16_bounds[of u] by (auto simp: is_surrogate_def is_scalar_def split: if_splits)
next
  case (3 u v vs)
  have "is_scalar (uint u)" if "\<not> is_surrogate u"
    using that uint_u16_bounds[of u] by (auto simp: is_surrogate_def is_scalar_def)
  moreover have "is_scalar 0xFFFD" by (simp add: is_scalar_def)
  ultimately show ?case using 3 join_scalar[of u v] by (auto split: if_splits)
qed simp

subsection \<open>ASCII strings\<close>

lemma lowers_ascii_ascii [simp]: "lowers_ascii ascii_lower"
  by (simp add: lowers_ascii_def)

lemma ascii_lower_ascii: "is_ascii s \<Longrightarrow> is_ascii (ascii_lower s)"
  by (auto simp: is_ascii_def ascii_lower_def)

lemma ascii_prefix: "is_ascii s \<Longrightarrow> n \<le> utf8_len s \<Longrightarrow> str_prefix n s = Some (take n s)"
proof (induction s arbitrary: n)
  case (Cons c s)
  then have "len_utf8 c = 1" by (simp add: is_ascii_def len_utf8_def)
  with Cons show ?case by (cases n) (auto simp: utf8_len_def is_ascii_def)
qed (simp add: utf8_len_def)

subsection \<open>Splitting and trimming facts\<close>

lemma split_on_not_Nil [simp]: "split_on d s \<noteq> []"
  by (induction s) (auto split: list.splits)

lemma split_on_single: "d \<notin> set s \<Longrightarrow> split_on d s = [s]"
  by (induction s) auto

lemma split_on_append: "d \<notin> set a \<Longrightarrow> split_on d (a @ d # s) = a # split_on d s"
  by (induction a) auto

lemma split_on_join:
  "\<forall>x\<in>set xs. d \<notin> set x \<Longrightarrow> xs \<noteq> [] \<Longrightarrow> split_on d (join_with [d] xs) = xs"
  by (induction "[d]" xs rule: join_with.induct) (auto simp: split_on_single split_on_append)

lemma trim_end_id: "s = [] \<or> \<not> p (last s) \<Longrightarrow> trim_end_by p s = s"
  by (cases s rule: rev_cases) (auto simp: trim_end_by_def)

lemma trim_end_snoc [simp]: "trim_end_by p (s @ [c]) = (if p c then trim_end_by p s else s @ [c])"
  by (simp add: trim_end_by_def)

lemma trim_end_Nil [simp]: "trim_end_by p [] = []"
  by (simp add: trim_end_by_def)

lemma str_trim_id:
  "s = [] \<or> (\<not> is_whitespace (hd s) \<and> \<not> is_whitespace (last s)) \<Longrightarrow> str_trim s = s"
  by (cases s) (auto simp: str_trim_def trim_end_id)

lemma split_once_append:
  "\<lbrakk>\<And>n. n < length a \<Longrightarrow> \<not> prefix p (drop n (a @ p @ s)); p \<noteq> []\<rbrakk> \<Longrightarrow> split_once p (a @ p @ s) = Some (a, s)"
proof (induction a)
  case Nil
  then show ?case by (cases p) simp_all
next
  case (Cons c a)
  have "\<not> prefix p (drop n (a @ p @ s))" if "n < length a" for n
    using Cons.prems(1)[of "Suc n"] that by simp
  with Cons have "split_once p (a @ p @ s) = Some (a, s)" by simp
  moreover have "\<not> prefix p (c # a @ p @ s)" using Cons.prems(1)[of 0] by simp
  ultimately show ?case by simp
qed

lemma split_once_hd:
  "hd p \<notin> set a \<Longrightarrow> p \<noteq> [] \<Longrightarrow> split_once p (a @ p @ s) = Some (a, s)"
proof (rule split_once_append)
  fix n assume n: "hd p \<notin> set a" "p \<noteq> []" "n < length a"
  then have "drop n (a @ p @ s) = a ! n # drop (Suc n) (a @ p @ s)"
    by (subst Cons_nth_drop_Suc[symmetric]) (auto simp: nth_append)
  moreover have "a ! n \<noteq> hd p" using n nth_mem[of n a] by metis
  ultimately show "\<not> prefix p (drop n (a @ p @ s))" using n by (cases p) auto
qed

lemma strip_prefix_append [simp]: "strip_prefix p (p @ s) = Some s"
  by (simp add: strip_prefix_def)

subsection \<open>Hexadecimal round trip\<close>

lemma hex_val_digit [simp]: "n < 16 \<Longrightarrow> hex_val (hex_digit n) = Some n"
  by (auto simp: hex_val_def hex_digit_def)

lemma hex_fold_append:
  "hex_fold lim acc (xs @ ys) = Option.bind (hex_fold lim acc xs) (\<lambda>a. hex_fold lim a ys)"
  by (induction xs arbitrary: acc) (auto split: bind_splits)

lemma hex_fold_to_hex: "n < lim \<Longrightarrow> hex_fold lim 0 (to_hex n) = Some n"
proof (induction n rule: to_hex.induct)
  case (1 n)
  show ?case
  proof (cases "n < 16")
    case False
    then have "hex_fold lim 0 (to_hex (n div 16)) = Some (n div 16)" using 1 by simp
    with False 1(2) show ?thesis
      by (subst to_hex.simps) (simp add: hex_fold_append)
  qed (use 1 in \<open>simp add: to_hex.simps\<close>)
qed

lemma hex_fold_zeros: "0 < lim \<Longrightarrow> hex_fold lim 0 (replicate k 48 @ s) = hex_fold lim 0 s"
  by (induction k) (auto simp: hex_val_def)

lemma to_hex_not_Nil [simp]: "to_hex n \<noteq> []"
  by (subst to_hex.simps) simp

lemma to_hex_chars: "c \<in> set (to_hex n) \<Longrightarrow> (48 \<le> c \<and> c \<le> 57) \<or> (97 \<le> c \<and> c \<le> 102)"
proof (induction n rule: to_hex.induct)
  case (1 n)
  have d: "(48 \<le> hex_digit k \<and> hex_digit k \<le> 57) \<or> (97 \<le> hex_digit k \<and> hex_digit k \<le> 102)" if "k < 16" for k
    using that by (auto simp: hex_digit_def)
  show ?case using 1 d[of n] d[of "n mod 16"] by (subst (asm) (2) to_hex.simps) (auto split: if_splits)
qed

lemma pad_hex_chars: "c \<in> set (pad_left w 48 (to_hex n)) \<Longrightarrow> (48 \<le> c \<and> c \<le> 57) \<or> (97 \<le> c \<and> c \<le> 102)"
  using to_hex_chars[of c n] by (auto simp: pad_left_def)

lemma from_hex_pad: "n < lim \<Longrightarrow> from_hex lim (pad_left w 48 (to_hex n)) = Some n"
proof -
  assume n: "n < lim"
  let ?s = "pad_left w 48 (to_hex n)"
  have f: "hex_fold lim 0 ?s = Some n"
    using n by (simp add: pad_left_def hex_fold_zeros hex_fold_to_hex)
  obtain c cs where s: "?s = c # cs" by (cases ?s) (auto simp: pad_left_def)
  then have "c \<noteq> 43" using pad_hex_chars[of c w n] by auto
  with f s show ?thesis by (simp add: from_hex_def)
qed

lemma from_hex_to_hex: "n < lim \<Longrightarrow> from_hex lim (to_hex n) = Some n"
  using from_hex_pad[of n lim 0] by (simp add: pad_left_def)

lemma hex_not_whitespace: "c \<in> set (pad_left w 48 (to_hex n)) \<Longrightarrow> \<not> is_whitespace c"
  using pad_hex_chars[of c w n] by (auto simp: is_whitespace_def)

end
