(* ===== verification/Slab.thy ===== *)
theory Slab
  imports Prelude
begin

text \<open>
  The two slab allocators of \<^verbatim>\<open>src/rust/src/triskelion/slab.rs\<close>.
  \<^verbatim>\<open>HeapSlab<T>\<close> is the growable vector under the handle table: slots are occupied or vacant,
  vacant slots that were freed are linked through \<^verbatim>\<open>next_free\<close>, \<^verbatim>\<open>insert_bump\<close> never reuses a
  slot and \<^verbatim>\<open>insert_at\<close> unlinks the requested slot from the free list.
  \<^verbatim>\<open>MmapSlab\<close> hands out slot numbers of a fixed region and keeps only metadata.
  An outer option is the panic (or non-termination) of the Rust code; counters are 32-bit
  words and wrap as in a release build.  The interfaces \<^verbatim>\<open>slab_map\<close> and \<^verbatim>\<open>slot_allocator\<close> are
  what the clients (handle table, shared-memory manager) rely on.
\<close>

subsection \<open>HeapSlab\<close>

definition FREE_END :: u32 where
  "FREE_END = - 1"

datatype 'a heap_slot =
    is_Occupied: Occupied (generation: u32) (slot_value: 'a)
  | Vacant (generation: u32) (next_free: u32)

record 'a heap_slab =
  slots :: "'a heap_slot list"
  free_head :: u32
  len :: u32
  bump :: u32

definition with_capacity :: "nat \<Rightarrow> 'a heap_slab" where
  "with_capacity cap = \<lparr>slots = [], free_head = FREE_END, len = 0, bump = 0\<rparr>"

definition skip_index_zero :: "'a heap_slab \<Rightarrow> 'a heap_slab" where
  "skip_index_zero s =
     (if bump s = 0 then s\<lparr>slots := slots s @ [Vacant 0 FREE_END], bump := 1\<rparr> else s)"

definition insert_bump :: "'a heap_slab \<Rightarrow> 'a \<Rightarrow> (u32 \<times> u32) \<times> 'a heap_slab" where
  "insert_bump s v =
     (let idx = bump s in
      ((idx, 0), s\<lparr>bump := bump s + 1, slots := slots s @ [Occupied 0 v], len := len s + 1\<rparr>))"

text \<open>The growth loop of \<^verbatim>\<open>insert_at\<close> (lines 51--55).\<close>

function grow_to :: "nat \<Rightarrow> 'a heap_slab \<Rightarrow> 'a heap_slab" where
  "grow_to idx s =
     (if length (slots s) \<le> idx then
        (let i = of_nat (length (slots s));
             s1 = s\<lparr>slots := slots s @ [Vacant 0 FREE_END]\<rparr> in
         grow_to idx (if i \<ge> bump s1 then s1\<lparr>bump := i + 1\<rparr> else s1))
      else s)"
  by pat_completeness auto
termination
  by (relation "measure (\<lambda>(idx, s). Suc idx - length (slots s))") (auto simp: Let_def)

declare grow_to.simps [simp del]

text \<open>
  The unlink loop (lines 65--82): it walks the free list from \<open>prev\<close> until it finds the
  predecessor of \<open>index\<close>.  It may fail to return on a cyclic list, hence a partial function.
\<close>

partial_function (option) unlink ::
    "'a heap_slot list \<Rightarrow> u32 \<Rightarrow> u32 \<Rightarrow> 'a heap_slot list option" where
  "unlink sl index prev =
     (if prev = FREE_END then Some sl
      else if length sl \<le> unat prev then None
      else (case sl ! unat prev of
              Vacant g nf \<Rightarrow>
                if nf = index then
                  (let target_next = (case sl ! unat index of Vacant _ nf' \<Rightarrow> nf' | Occupied _ _ \<Rightarrow> FREE_END)
                   in Some (sl[unat prev := Vacant g target_next]))
                else unlink sl index nf
            | Occupied _ _ \<Rightarrow> Some sl))"

definition remove_inner :: "'a heap_slab \<Rightarrow> u32 \<Rightarrow> ('a option \<times> 'a heap_slab) option" where
  "remove_inner s index =
     (if length (slots s) \<le> unat index then None
      else (case slots s ! unat index of
              Occupied g v \<Rightarrow>
                Some (Some v, s\<lparr>slots := (slots s)[unat index := Vacant (g + 1) (free_head s)],
                                free_head := index, len := len s - 1\<rparr>)
            | Vacant _ _ \<Rightarrow> None))"

definition remove_unchecked :: "'a heap_slab \<Rightarrow> u32 \<Rightarrow> ('a option \<times> 'a heap_slab) option" where
  "remove_unchecked s index =
     (if length (slots s) \<le> unat index then Some (None, s)
      else (case slots s ! unat index of
              Occupied _ _ \<Rightarrow> remove_inner s index
            | Vacant _ _ \<Rightarrow> Some (None, s)))"

definition insert_at :: "'a heap_slab \<Rightarrow> u32 \<Rightarrow> 'a \<Rightarrow> (u32 \<times> 'a heap_slab) option" where
  "insert_at s index v =
     (let idx = unat index; s1 = grow_to idx s in do {
        s2 \<leftarrow> (case slots s1 ! idx of
                 Occupied _ _ \<Rightarrow> map_option snd (remove_unchecked s1 index)
               | Vacant _ _ \<Rightarrow> Some s1);
        s3 \<leftarrow> (if free_head s2 = index then
                 (case slots s2 ! idx of
                    Vacant _ nf \<Rightarrow> Some (s2\<lparr>free_head := nf\<rparr>)
                  | Occupied _ _ \<Rightarrow> Some s2)
               else map_option (\<lambda>sl. s2\<lparr>slots := sl\<rparr>) (unlink (slots s2) index (free_head s2)));
        let g = generation (slots s3 ! idx);
        let s4 = s3\<lparr>slots := (slots s3)[idx := Occupied g v], len := len s3 + 1\<rparr>;
        Some (g, if index \<ge> bump s4 then s4\<lparr>bump := index + 1\<rparr> else s4)
      })"

definition get_unchecked :: "'a heap_slab \<Rightarrow> u32 \<Rightarrow> 'a option" where
  "get_unchecked s index =
     (if length (slots s) \<le> unat index then None
      else (case slots s ! unat index of Occupied _ v \<Rightarrow> Some v | Vacant _ _ \<Rightarrow> None))"

text \<open>
  \<^verbatim>\<open>get_mut_unchecked\<close> lends the value out; the model applies the borrower's update \<open>f\<close> to it
  and returns the value it had before, or \<^const>\<open>None\<close> with an unchanged slab.
\<close>

definition get_mut_unchecked :: "'a heap_slab \<Rightarrow> u32 \<Rightarrow> ('a \<Rightarrow> 'a) \<Rightarrow> 'a option \<times> 'a heap_slab" where
  "get_mut_unchecked s index f =
     (if length (slots s) \<le> unat index then (None, s)
      else (case slots s ! unat index of
              Occupied g v \<Rightarrow> (Some v, s\<lparr>slots := (slots s)[unat index := Occupied g (f v)]\<rparr>)
            | Vacant _ _ \<Rightarrow> (None, s)))"

definition slab_capacity :: "'a heap_slab \<Rightarrow> nat" where
  "slab_capacity s = length (slots s)"

definition slab_iter :: "'a heap_slab \<Rightarrow> 'a list" where
  "slab_iter s =
     List.map_filter (\<lambda>slot. case slot of Occupied _ v \<Rightarrow> Some v | Vacant _ _ \<Rightarrow> None) (slots s)"

subsection \<open>MmapSlab\<close>

record slot_meta =
  m_generation :: u32
  m_next_free :: u32

record mmap_slab =
  m_meta :: "slot_meta list"
  m_free_head :: u32
  m_len :: u32
  m_bump :: u32
  m_cap :: u32

definition mmap_new :: "u32 \<Rightarrow> mmap_slab" where
  "mmap_new cap = \<lparr>m_meta = [], m_free_head = FREE_END, m_len = 0, m_bump = 0, m_cap = cap\<rparr>"

definition mmap_insert :: "mmap_slab \<Rightarrow> (u32 option \<times> mmap_slab) option" where
  "mmap_insert s =
     (if m_free_head s \<noteq> FREE_END then
        (let idx = m_free_head s in
         if length (m_meta s) \<le> unat idx then None
         else (let m = m_meta s ! unat idx in
               Some (Some idx, s\<lparr>m_free_head := m_next_free m,
                                 m_meta := (m_meta s)[unat idx := m\<lparr>m_next_free := FREE_END\<rparr>],
                                 m_len := m_len s + 1\<rparr>)))
      else if m_bump s < m_cap s then
        (let idx = m_bump s in
         Some (Some idx, s\<lparr>m_bump := m_bump s + 1,
                           m_meta := m_meta s @ [\<lparr>m_generation = 0, m_next_free = FREE_END\<rparr>],
                           m_len := m_len s + 1\<rparr>))
      else Some (None, s))"

definition mmap_remove :: "mmap_slab \<Rightarrow> u32 \<Rightarrow> bool \<times> mmap_slab" where
  "mmap_remove s index =
     (if length (m_meta s) \<le> unat index then (False, s)
      else (let m = m_meta s ! unat index in
            if m_next_free m \<noteq> FREE_END then (False, s)
            else (True, s\<lparr>m_meta := (m_meta s)[unat index :=
                            \<lparr>m_generation = m_generation m + 1, m_next_free = m_free_head s\<rparr>],
                          m_free_head := index, m_len := m_len s - 1\<rparr>)))"

definition high_water :: "mmap_slab \<Rightarrow> u32" where
  "high_water s = m_bump s"

subsection \<open>The HeapSlab invariant\<close>

text \<open>
  \<open>chain sl h xs\<close>: following \<^verbatim>\<open>next_free\<close> from \<open>h\<close> visits exactly the vacant slots \<open>xs\<close> and
  ends at \<^const>\<open>FREE_END\<close>.
\<close>

fun chain :: "'a heap_slot list \<Rightarrow> u32 \<Rightarrow> u32 list \<Rightarrow> bool" where
  "chain sl h [] = (h = FREE_END)"
| "chain sl h (x # xs) =
     (h = x \<and> x \<noteq> FREE_END \<and> unat x < length sl \<and> \<not> is_Occupied (sl ! unat x) \<and>
      chain sl (next_free (sl ! unat x)) xs)"

definition count_occupied :: "'a heap_slot list \<Rightarrow> nat" where
  "count_occupied sl = length (filter is_Occupied sl)"

definition heap_slab_inv :: "'a heap_slab \<Rightarrow> bool" where
  "heap_slab_inv s \<longleftrightarrow>
     length (slots s) = unat (bump s) \<and> unat (len s) = count_occupied (slots s) \<and>
     (\<exists>xs. distinct xs \<and> chain (slots s) (free_head s) xs)"

subsection \<open>Facts about the free chain\<close>

lemma unat_FREE_END: "unat FREE_END = 2 ^ 32 - 1"
  by (simp add: FREE_END_def unsigned_minus_1_eq_mask mask_eq_exp_minus_1)

lemma nth_update_unat_neq [simp]: "i \<noteq> j \<Longrightarrow> xs[unat (i :: u32) := v] ! unat j = xs ! unat j"
  by (simp add: word_unat_eq_iff)

lemma unat_lt_FREE_END: "unat (x :: u32) < n \<Longrightarrow> n < 2 ^ 32 \<Longrightarrow> x \<noteq> FREE_END"
  by (auto simp: unat_FREE_END)

lemma not_FREE_END_unat: "x \<noteq> FREE_END \<Longrightarrow> unat x + 1 < 2 ^ 32"
proof -
  assume "x \<noteq> FREE_END"
  then have "unat x \<noteq> unat FREE_END" by (simp add: word_unat_eq_iff)
  moreover have "unat x < 2 ^ 32" using unsigned_less[of x] by simp
  ultimately show ?thesis unfolding unat_FREE_END by linarith
qed

lemma chain_vacant:
  "chain sl h xs \<Longrightarrow> x \<in> set xs \<Longrightarrow> unat x < length sl \<and> \<not> is_Occupied (sl ! unat x) \<and> x \<noteq> FREE_END"
  by (induction sl h xs rule: chain.induct) auto

lemma chain_cong:
  assumes "chain sl h xs" and "length sl \<le> length sl'"
    and "\<And>x. x \<in> set xs \<Longrightarrow> sl' ! unat x = sl ! unat x"
  shows "chain sl' h xs"
  using assms by (induction sl h xs rule: chain.induct) auto

lemma chain_update:
  "chain sl h xs \<Longrightarrow> i \<notin> set xs \<Longrightarrow> chain (sl[unat i := v]) h xs"
  by (erule chain_cong) (simp, metis nth_update_unat_neq)

lemma chain_append: "chain sl h xs \<Longrightarrow> chain (sl @ ys) h xs"
  by (rule chain_cong) (auto simp: nth_append dest: chain_vacant)

lemma count_occupied_append [simp]:
  "count_occupied (xs @ ys) = count_occupied xs + count_occupied ys"
  by (simp add: count_occupied_def)

lemma count_occupied_single [simp]:
  "count_occupied [] = 0" "count_occupied [x] = (if is_Occupied x then 1 else 0)"
  by (simp_all add: count_occupied_def)

lemma count_occupied_update:
  "i < length sl \<Longrightarrow>
   count_occupied (sl[i := v]) + (if is_Occupied (sl ! i) then 1 else 0) =
   count_occupied sl + (if is_Occupied v then 1 else 0)"
proof (induction sl arbitrary: i)
  case (Cons a sl)
  then show ?case using Cons.IH[of "i - 1"] by (cases i) (auto simp: count_occupied_def)
qed simp

lemma count_occupied_le: "count_occupied sl \<le> length sl"
  by (simp add: count_occupied_def)

lemma count_occupied_cong:
  "map is_Occupied sl' = map is_Occupied sl \<Longrightarrow> count_occupied sl' = count_occupied sl"
  by (drule arg_cong[of _ _ "\<lambda>bs. length (filter id bs)"])
     (simp add: length_filter_map comp_def count_occupied_def)

lemma count_occupied_pos: "i < length sl \<Longrightarrow> is_Occupied (sl ! i) \<Longrightarrow> 0 < count_occupied sl"
  by (auto simp: count_occupied_def filter_empty_conv intro!: bexI[OF _ nth_mem])

lemma slab_iter_length: "length (slab_iter s) = count_occupied (slots s)"
proof -
  have "length (List.map_filter (\<lambda>slot. case slot of Occupied _ v \<Rightarrow> Some v | Vacant _ _ \<Rightarrow> None) sl)
      = count_occupied sl" for sl :: "'a heap_slot list"
    by (induction sl) (auto simp: count_occupied_def map_filter_simps split: heap_slot.splits)
  then show ?thesis by (simp add: slab_iter_def)
qed

text \<open>The unlink loop returns on an acyclic list and takes exactly \<open>index\<close> out of it.\<close>

lemma unlink_correct:
  assumes "chain sl prev xs" and "distinct xs" and "prev \<noteq> index" and "index \<noteq> FREE_END"
  shows "\<exists>sl' ys. unlink sl index prev = Some sl' \<and> length sl' = length sl \<and>
           chain sl' prev ys \<and> distinct ys \<and> set ys = set xs - {index} \<and>
           (\<forall>x. x \<notin> set xs \<longrightarrow> sl' ! unat x = sl ! unat x) \<and>
           map is_Occupied sl' = map is_Occupied sl \<and> map generation sl' = map generation sl"
  using assms
proof (induction xs arbitrary: prev)
  case Nil
  then show ?case by (subst unlink.simps) auto
next
  case (Cons x xs)
  then have x: "prev = x" "x \<noteq> FREE_END" "unat x < length sl" "distinct xs" "x \<notin> set xs" by auto
  from Cons.prems(1) obtain g nf where v: "sl ! unat x = Vacant g nf" and c: "chain sl nf xs"
    by (cases "sl ! unat x") auto
  show ?case
  proof (cases "nf = index")
    case True
    with c Cons.prems obtain xs' where xs: "xs = index # xs'" by (cases xs) auto
    with c True obtain g' nf' where i: "sl ! unat index = Vacant g' nf'" and c': "chain sl nf' xs'"
      by (cases "sl ! unat index") auto
    let ?sl = "sl[unat x := Vacant g nf']"
    have "chain ?sl nf' xs'" using c' x xs by (intro chain_update) auto
    then have "chain ?sl prev (x # xs')" using x by simp
    moreover have "unlink sl index prev = Some ?sl"
      using x v True i by (subst unlink.simps) auto
    moreover have "map is_Occupied ?sl = map is_Occupied sl" "map generation ?sl = map generation sl"
      using x(3) v by (simp_all add: map_update list_update_same_conv)
    ultimately show ?thesis
      using Cons.prems x(1,2,4,5) xs
      by (intro exI[of _ ?sl] exI[of _ "x # xs'"]) auto
  next
    case False
    from Cons.IH[OF c x(4) False Cons.prems(4)] obtain sl' ys where
      r: "unlink sl index nf = Some sl'" "length sl' = length sl" "chain sl' nf ys" "distinct ys"
         "set ys = set xs - {index}" "\<forall>x. x \<notin> set xs \<longrightarrow> sl' ! unat x = sl ! unat x"
         "map is_Occupied sl' = map is_Occupied sl" "map generation sl' = map generation sl"
      by blast
    have "unlink sl index prev = Some sl'" using x v False r(1) by (subst unlink.simps) auto
    moreover have "chain sl' prev (x # ys)" using x v r by simp
    ultimately show ?thesis
      using r x Cons.prems(3) by (intro exI[of _ sl'] exI[of _ "x # ys"]) auto
  qed
qed

subsection \<open>Every HeapSlab operation keeps the invariant\<close>

lemma get_unchecked_append:
  assumes "length (slots s) = unat i"
  shows "get_unchecked (s\<lparr>slots := slots s @ [x]\<rparr>) =
           (get_unchecked s)(i := (case x of Occupied _ v \<Rightarrow> Some v | Vacant _ _ \<Rightarrow> None))"
  using assms
  by (auto simp: get_unchecked_def nth_append less_Suc_eq_le not_le word_unat_eq_iff fun_eq_iff)

lemma get_unchecked_update:
  assumes "unat i < length (slots s)"
  shows "get_unchecked (s\<lparr>slots := (slots s)[unat i := x]\<rparr>) =
           (get_unchecked s)(i := (case x of Occupied _ v \<Rightarrow> Some v | Vacant _ _ \<Rightarrow> None))"
  using assms by (auto simp: get_unchecked_def fun_eq_iff)

lemma get_unchecked_slots_cong: "slots s = slots t \<Longrightarrow> get_unchecked s = get_unchecked t"
  by (simp add: get_unchecked_def fun_eq_iff)

lemma heap_slab_invE:
  assumes "heap_slab_inv s"
  obtains xs where "length (slots s) = unat (bump s)" "unat (len s) = count_occupied (slots s)"
    "distinct xs" "chain (slots s) (free_head s) xs"
  using assms by (auto simp: heap_slab_inv_def)

lemma heap_slab_inv_length: "heap_slab_inv s \<Longrightarrow> length (slots s) = unat (bump s)"
  by (simp add: heap_slab_inv_def)

lemma heap_slab_inv_fresh: "heap_slab_inv s \<Longrightarrow> bump s \<le> i \<Longrightarrow> get_unchecked s i = None"
  by (auto simp: heap_slab_inv_def get_unchecked_def word_le_nat_alt)

lemma with_capacity_inv: "heap_slab_inv (with_capacity n)"
  by (auto simp: heap_slab_inv_def with_capacity_def intro!: exI[of _ "[]"])

lemma with_capacity_get: "get_unchecked (with_capacity n) = Map.empty"
  by (simp add: get_unchecked_def with_capacity_def fun_eq_iff)

lemma skip_index_zero_inv: "heap_slab_inv s \<Longrightarrow> heap_slab_inv (skip_index_zero s)"
  by (auto simp: heap_slab_inv_def skip_index_zero_def dest: chain_append)

lemma skip_index_zero_get:
  assumes "heap_slab_inv s"
  shows "get_unchecked (skip_index_zero s) = get_unchecked s"
proof -
  have "get_unchecked (s\<lparr>slots := slots s @ [Vacant 0 FREE_END], bump := 1\<rparr>) = get_unchecked s"
    if "bump s = 0"
  proof -
    have 0: "length (slots s) = unat (0 :: u32)" using assms that by (auto simp: heap_slab_inv_def)
    have "get_unchecked (s\<lparr>slots := slots s @ [Vacant 0 FREE_END], bump := 1\<rparr>)
        = get_unchecked (s\<lparr>slots := slots s @ [Vacant 0 FREE_END]\<rparr>)"
      by (rule get_unchecked_slots_cong) simp
    also have "\<dots> = get_unchecked s"
      using 0 by (subst get_unchecked_append[OF 0]) (simp add: get_unchecked_def fun_eq_iff)
    finally show ?thesis .
  qed
  then show ?thesis by (simp add: skip_index_zero_def)
qed

lemma insert_bump_correct:
  assumes "heap_slab_inv s" and "bump s \<noteq> FREE_END" and "insert_bump s v = ((i, g), s')"
  shows "i = bump s" "heap_slab_inv s'" "get_unchecked s' = (get_unchecked s)(i \<mapsto> v)"
    "bump s' = bump s + 1" "len s' = len s + 1"
proof -
  from assms(1) obtain xs where inv: "length (slots s) = unat (bump s)"
    "unat (len s) = count_occupied (slots s)" "distinct xs" "chain (slots s) (free_head s) xs"
    by (rule heap_slab_invE)
  have s': "i = bump s" "s' = s\<lparr>bump := bump s + 1, slots := slots s @ [Occupied 0 v], len := len s + 1\<rparr>"
    using assms(3) by (auto simp: insert_bump_def)
  have b: "unat (bump s + 1) = unat (bump s) + 1"
    using not_FREE_END_unat[OF assms(2)] by (rule unat_inc_u32)
  have l: "unat (len s + 1) = unat (len s) + 1"
    using not_FREE_END_unat[OF assms(2)] count_occupied_le[of "slots s"] inv
    by (intro unat_inc_u32) simp
  show "heap_slab_inv s'"
    using inv b l by (auto simp: heap_slab_inv_def s' intro!: exI[of _ xs] chain_append)
  have "get_unchecked s' = get_unchecked (s\<lparr>slots := slots s @ [Occupied 0 v]\<rparr>)"
    by (rule get_unchecked_slots_cong) (simp add: s')
  then show "get_unchecked s' = (get_unchecked s)(i \<mapsto> v)"
    using get_unchecked_append[OF inv(1), of "Occupied 0 v"] by (simp add: s')
qed (use assms(3) in \<open>auto simp: insert_bump_def\<close>)

lemma remove_unchecked_correct:
  assumes "heap_slab_inv s"
  shows "\<exists>s'. remove_unchecked s i = Some (get_unchecked s i, s') \<and> heap_slab_inv s' \<and>
           get_unchecked s' = (get_unchecked s)(i := None) \<and> bump s' = bump s \<and>
           (get_unchecked s i \<noteq> None \<longrightarrow> free_head s' = i) \<and> (get_unchecked s i = None \<longrightarrow> s' = s)"
proof (cases "get_unchecked s i")
  case None
  then have "remove_unchecked s i = Some (None, s)"
    by (auto simp: remove_unchecked_def get_unchecked_def split: heap_slot.splits)
  with None assms show ?thesis by (auto simp: fun_upd_idem)
next
  case (Some v)
  then obtain g where i: "unat i < length (slots s)" and o: "slots s ! unat i = Occupied g v"
    by (auto simp: get_unchecked_def split: if_splits heap_slot.splits)
  let ?sl = "(slots s)[unat i := Vacant (g + 1) (free_head s)]"
  let ?s = "s\<lparr>slots := ?sl, free_head := i, len := len s - 1\<rparr>"
  from assms obtain xs where inv: "length (slots s) = unat (bump s)"
    "unat (len s) = count_occupied (slots s)" "distinct xs" "chain (slots s) (free_head s) xs"
    by (rule heap_slab_invE)
  have "i \<notin> set xs" using chain_vacant[OF inv(4), of i] o by auto
  moreover have "i \<noteq> FREE_END" using i inv(1) unat_lt_FREE_END[of i "unat (bump s)"] unat_u32_lt[of "bump s"] by simp
  ultimately have "chain ?sl i (i # xs)" using i inv(4) by (simp add: chain_update)
  moreover have "unat (len s - 1) = count_occupied ?sl"
  proof -
    have "0 < unat (len s)" using inv(2) count_occupied_pos[OF i] o by simp
    then have "unat (len s - 1) = unat (len s) - 1" by (simp add: unat_minus_one unat_gt_0)
    then show ?thesis
      using inv(2) count_occupied_update[OF i, of "Vacant (g + 1) (free_head s)"] o by simp
  qed
  ultimately have "heap_slab_inv ?s"
    using inv \<open>i \<notin> set xs\<close> by (auto simp: heap_slab_inv_def intro!: exI[of _ "i # xs"])
  moreover have "get_unchecked ?s = (get_unchecked s)(i := None)"
    using get_unchecked_update[OF i, of "Vacant (g + 1) (free_head s)"]
      get_unchecked_slots_cong[of ?s "s\<lparr>slots := ?sl\<rparr>"] by simp
  moreover have "remove_unchecked s i = Some (Some v, ?s)"
    using i o by (simp add: remove_unchecked_def remove_inner_def)
  ultimately show ?thesis using Some by simp
qed

lemma grow_to_correct:
  assumes "heap_slab_inv s" and "idx + 1 < 2 ^ 32"
  shows "heap_slab_inv (grow_to idx s) \<and> get_unchecked (grow_to idx s) = get_unchecked s \<and>
         length (slots (grow_to idx s)) = max (length (slots s)) (idx + 1) \<and>
         len (grow_to idx s) = len s"
  using assms
proof (induction idx s rule: grow_to.induct)
  case (1 idx s)
  show ?case
  proof (cases "length (slots s) \<le> idx")
    case True
    let ?n = "length (slots s)" let ?i = "of_nat ?n :: u32"
    let ?s = "s\<lparr>slots := slots s @ [Vacant 0 FREE_END], bump := ?i + 1\<rparr>"
    from "1.prems"(1) obtain xs where inv: "?n = unat (bump s)"
      "unat (len s) = count_occupied (slots s)" "distinct xs" "chain (slots s) (free_head s) xs"
      by (rule heap_slab_invE)
    have i: "?i = bump s" using inv(1) by simp
    have b: "unat (bump s + 1) = unat (bump s) + 1"
      using "1.prems"(2) True inv(1) by (intro unat_inc_u32) simp
    have "heap_slab_inv ?s"
      using inv b i by (auto simp: heap_slab_inv_def intro!: exI[of _ xs] chain_append)
    moreover have "get_unchecked ?s = get_unchecked s"
      using get_unchecked_append[OF inv(1), of "Vacant 0 FREE_END"] heap_slab_inv_fresh[OF "1.prems"(1)]
        get_unchecked_slots_cong[of ?s "s\<lparr>slots := slots s @ [Vacant 0 FREE_END]\<rparr>"]
      by (auto simp: fun_eq_iff)
    moreover have "grow_to idx s = grow_to idx ?s"
      by (subst grow_to.simps) (simp add: True i Let_def)
    ultimately show ?thesis
      using "1.IH"[OF True refl refl] "1.prems"(2) True i by (simp add: max_def)
  next
    case False
    then have "grow_to idx s = s" by (subst grow_to.simps) simp
    with False "1.prems" show ?thesis by simp
  qed
qed

text \<open>
  The state between the free-list surgery and the final write: the slot is vacant, not on the
  free list, and the chain is intact.
\<close>

lemma unlink_step:
  assumes "heap_slab_inv s" and "unat index < length (slots s)" and "index \<noteq> FREE_END"
    and "\<not> is_Occupied (slots s ! unat index)"
  obtains s' xs where
    "(if free_head s = index then
        (case slots s ! unat index of Vacant _ nf \<Rightarrow> Some (s\<lparr>free_head := nf\<rparr>) | Occupied _ _ \<Rightarrow> Some s)
      else map_option (\<lambda>sl. s\<lparr>slots := sl\<rparr>) (unlink (slots s) index (free_head s))) = Some s'"
    "length (slots s') = length (slots s)" "bump s' = bump s" "len s' = len s"
    "map is_Occupied (slots s') = map is_Occupied (slots s)"
    "map generation (slots s') = map generation (slots s)"
    "\<And>x :: u32. is_Occupied (slots s ! unat x) \<Longrightarrow> slots s' ! unat x = slots s ! unat x"
    "distinct xs" "chain (slots s') (free_head s') xs" "index \<notin> set xs"
proof -
  from assms(1) obtain xs where xs: "distinct xs" "chain (slots s) (free_head s) xs"
    by (rule heap_slab_invE)
  show thesis
  proof (cases "free_head s = index")
    case True
    obtain g nf where v: "slots s ! unat index = Vacant g nf"
      using assms(4) by (cases "slots s ! unat index") auto
    from xs True assms(3) obtain ys where ys: "xs = index # ys" by (cases xs) auto
    show thesis
      by (rule that[of "s\<lparr>free_head := nf\<rparr>" ys]) (use True v xs ys in auto)
  next
    case False
    from unlink_correct[OF xs(2,1) False assms(3)] obtain sl' ys where
      u: "unlink (slots s) index (free_head s) = Some sl'" "length sl' = length (slots s)"
         "chain sl' (free_head s) ys" "distinct ys" "set ys = set xs - {index}"
         "\<forall>x. x \<notin> set xs \<longrightarrow> sl' ! unat x = slots s ! unat x"
         "map is_Occupied sl' = map is_Occupied (slots s)"
         "map generation sl' = map generation (slots s)"
      by blast
    show thesis
      by (rule that[of "s\<lparr>slots := sl'\<rparr>" ys]) (use False u chain_vacant[OF xs(2)] in auto)
  qed
qed

lemma occupied_nth: "map is_Occupied sl' = map is_Occupied sl \<Longrightarrow> i < length sl \<Longrightarrow>
    is_Occupied (sl' ! i) = is_Occupied (sl ! i)"
  by (metis length_map nth_map)

lemma heap_slot_disc_case:
  "(case x of Occupied _ v \<Rightarrow> Some v | Vacant _ _ \<Rightarrow> None) = (if is_Occupied x then Some (slot_value x) else None)"
  by (cases x) auto

lemma insert_at_vacated:
  assumes "heap_slab_inv s" and "unat index < length (slots s)" and "index \<noteq> FREE_END"
    and "\<not> is_Occupied (slots s ! unat index)"
    and "length (slots s') = length (slots s)" and "bump s' = bump s" and "len s' = len s"
    and "map is_Occupied (slots s') = map is_Occupied (slots s)"
    and "\<And>x :: u32. is_Occupied (slots s ! unat x) \<Longrightarrow> slots s' ! unat x = slots s ! unat x"
    and "distinct xs" and "chain (slots s') (free_head s') xs" and "index \<notin> set xs"
    and "s4 = s'\<lparr>slots := (slots s')[unat index := Occupied g v], len := len s' + 1\<rparr>"
  shows "heap_slab_inv s4" and "get_unchecked s4 = (get_unchecked s)(index \<mapsto> v)"
    and "\<not> index \<ge> bump s4"
proof -
  from assms(1) have inv: "length (slots s) = unat (bump s)" "unat (len s) = count_occupied (slots s)"
    by (auto simp: heap_slab_inv_def)
  have v: "\<not> is_Occupied (slots s' ! unat index)"
    using occupied_nth[OF assms(8,2)] assms(4) by simp
  have cnt: "count_occupied ((slots s')[unat index := Occupied g v]) = count_occupied (slots s) + 1"
    using count_occupied_update[of "unat index" "slots s'" "Occupied g v"] v assms(2,5)
      count_occupied_cong[OF assms(8)] by simp
  have le: "count_occupied (slots s) + 1 \<le> length (slots s)"
    using cnt count_occupied_le[of "(slots s')[unat index := Occupied g v]"] assms(5) by simp
  have l: "unat (len s + 1) = unat (len s) + 1"
    using inv le unat_u32_lt[of "bump s"] by (intro unat_inc_u32) simp
  show "heap_slab_inv s4"
    using inv cnt l assms(5-7,10-13) by (auto simp: heap_slab_inv_def intro!: exI[of _ xs] chain_update)
  show "get_unchecked s4 = (get_unchecked s)(index \<mapsto> v)"
  proof
    fix x
    show "get_unchecked s4 x = ((get_unchecked s)(index \<mapsto> v)) x"
      using assms(2,5) assms(9)[of x] occupied_nth[OF assms(8), of "unat x"]
      by (cases "x = index") (auto simp: get_unchecked_def heap_slot_disc_case assms(13))
  qed
  show "\<not> index \<ge> bump s4" using assms(2,6,13) inv by (simp add: word_le_nat_alt)
qed

lemma insert_at_correct:
  assumes "heap_slab_inv s" and "index \<noteq> FREE_END"
  shows "\<exists>g s'. insert_at s index v = Some (g, s') \<and> heap_slab_inv s' \<and>
           get_unchecked s' = (get_unchecked s)(index \<mapsto> v) \<and>
           unat (bump s') = max (unat (bump s)) (unat index + 1)"
proof -
  let ?s1 = "grow_to (unat index) s"
  have g: "heap_slab_inv ?s1" "get_unchecked ?s1 = get_unchecked s" "unat index < length (slots ?s1)"
      "unat (bump ?s1) = max (unat (bump s)) (unat index + 1)"
    using grow_to_correct[OF assms(1) not_FREE_END_unat[OF assms(2)]] assms(1)
    by (auto simp: heap_slab_inv_length)
  obtain s2 where s2: "(case slots ?s1 ! unat index of
        Occupied _ _ \<Rightarrow> map_option snd (remove_unchecked ?s1 index) | Vacant _ _ \<Rightarrow> Some ?s1) = Some s2"
    and i2: "heap_slab_inv s2" "get_unchecked s2 = (get_unchecked s)(index := None)" "bump s2 = bump ?s1"
  proof (cases "slots ?s1 ! unat index")
    case (Occupied g' v')
    with remove_unchecked_correct[OF g(1), of index] g(2) that show thesis by auto
  next
    case (Vacant g' nf)
    then have "get_unchecked ?s1 index = None" by (simp add: get_unchecked_def)
    with Vacant g that[of ?s1] show thesis by (simp add: fun_upd_idem)
  qed
  have l2: "unat index < length (slots s2)"
    using g(1,3) i2(1,3) by (simp add: heap_slab_inv_def)
  have v2: "\<not> is_Occupied (slots s2 ! unat index)"
    using fun_cong[OF i2(2), of index] l2
    by (auto simp: get_unchecked_def heap_slot_disc_case split: if_splits)
  obtain s3 xs where s3:
    "(if free_head s2 = index then
        (case slots s2 ! unat index of Vacant _ nf \<Rightarrow> Some (s2\<lparr>free_head := nf\<rparr>) | Occupied _ _ \<Rightarrow> Some s2)
      else map_option (\<lambda>sl. s2\<lparr>slots := sl\<rparr>) (unlink (slots s2) index (free_head s2))) = Some s3"
    "length (slots s3) = length (slots s2)" "bump s3 = bump s2" "len s3 = len s2"
    "map is_Occupied (slots s3) = map is_Occupied (slots s2)"
    "map generation (slots s3) = map generation (slots s2)"
    "\<And>x :: u32. is_Occupied (slots s2 ! unat x) \<Longrightarrow> slots s3 ! unat x = slots s2 ! unat x"
    "distinct xs" "chain (slots s3) (free_head s3) xs" "index \<notin> set xs"
    by (rule unlink_step[OF i2(1) l2 assms(2) v2]) (rule that)
  let ?g = "generation (slots s3 ! unat index)"
  let ?s4 = "s3\<lparr>slots := (slots s3)[unat index := Occupied ?g v], len := len s3 + 1\<rparr>"
  note r = insert_at_vacated[OF i2(1) l2 assms(2) v2 s3(2-5,7-10) refl, of ?g v]
  have "insert_at s index v = Some (?g, ?s4)"
    using s2 s3(1) r(3) by (simp add: insert_at_def Let_def)
  with r i2(2,3) g(4) s3(3) show ?thesis by auto
qed

lemma get_mut_unchecked_correct:
  assumes "heap_slab_inv s"
  shows "fst (get_mut_unchecked s i f) = get_unchecked s i"
    and "heap_slab_inv (snd (get_mut_unchecked s i f))"
    and "get_unchecked (snd (get_mut_unchecked s i f)) =
           (get_unchecked s)(i := map_option f (get_unchecked s i))"
    and "bump (snd (get_mut_unchecked s i f)) = bump s"
proof -
  from assms obtain xs where inv: "length (slots s) = unat (bump s)"
    "unat (len s) = count_occupied (slots s)" "distinct xs" "chain (slots s) (free_head s) xs"
    by (rule heap_slab_invE)
  show "fst (get_mut_unchecked s i f) = get_unchecked s i"
    by (auto simp: get_mut_unchecked_def get_unchecked_def split: heap_slot.splits)
  show "heap_slab_inv (snd (get_mut_unchecked s i f))"
  proof (cases "unat i < length (slots s) \<and> is_Occupied (slots s ! unat i)")
    case True
    then obtain g v where o: "slots s ! unat i = Occupied g v" by (cases "slots s ! unat i") auto
    have "count_occupied ((slots s)[unat i := Occupied g (f v)]) = count_occupied (slots s)"
      using count_occupied_update[of "unat i" "slots s" "Occupied g (f v)"] True by simp
    moreover have "chain ((slots s)[unat i := Occupied g (f v)]) (free_head s) xs"
      using chain_vacant[OF inv(4), of i] True inv(4) by (intro chain_update) auto
    ultimately show ?thesis
      using True o inv by (auto simp: heap_slab_inv_def get_mut_unchecked_def)
  next
    case False
    then have "snd (get_mut_unchecked s i f) = s"
      by (cases "slots s ! unat i") (auto simp: get_mut_unchecked_def)
    then show ?thesis using assms by simp
  qed
  show "get_unchecked (snd (get_mut_unchecked s i f)) =
          (get_unchecked s)(i := map_option f (get_unchecked s i))"
    by (auto simp: get_mut_unchecked_def get_unchecked_def fun_eq_iff split: heap_slot.splits)
  show "bump (snd (get_mut_unchecked s i f)) = bump s"
    by (auto simp: get_mut_unchecked_def split: heap_slot.splits)
qed

subsection \<open>MmapSlab: slots in use and slots on the free list\<close>

fun mchain :: "slot_meta list \<Rightarrow> u32 \<Rightarrow> u32 list \<Rightarrow> bool" where
  "mchain me h [] = (h = FREE_END)"
| "mchain me h (x # xs) =
     (h = x \<and> x \<noteq> FREE_END \<and> unat x < length me \<and> mchain me (m_next_free (me ! unat x)) xs)"

text \<open>\<open>mmap_inv s A\<close>: \<open>s\<close> is well formed and \<open>A\<close> is the set of slots handed out.\<close>

definition mmap_inv :: "mmap_slab \<Rightarrow> u32 set \<Rightarrow> bool" where
  "mmap_inv s A \<longleftrightarrow>
     (\<exists>xs. distinct xs \<and> mchain (m_meta s) (m_free_head s) xs \<and>
           A = {i. unat i < length (m_meta s)} - set xs) \<and>
     length (m_meta s) = unat (m_bump s) \<and> m_bump s \<le> m_cap s \<and> unat (m_len s) = card A \<and>
     (\<forall>i\<in>A. m_next_free (m_meta s ! unat i) = FREE_END)"

lemma mmap_invE:
  assumes "mmap_inv s A"
  obtains xs where "distinct xs" "mchain (m_meta s) (m_free_head s) xs"
    "A = {i. unat i < length (m_meta s)} - set xs"
    "length (m_meta s) = unat (m_bump s)" "m_bump s \<le> m_cap s" "unat (m_len s) = card A"
    "\<And>i. i \<in> A \<Longrightarrow> m_next_free (m_meta s ! unat i) = FREE_END"
  using assms by (auto simp: mmap_inv_def)

lemma mchain_in: "mchain me h xs \<Longrightarrow> x \<in> set xs \<Longrightarrow> unat x < length me"
  by (induction me h xs rule: mchain.induct) auto

lemma mchain_cong:
  assumes "mchain me h xs" and "length me \<le> length me'"
    and "\<And>x. x \<in> set xs \<Longrightarrow> me' ! unat x = me ! unat x"
  shows "mchain me' h xs"
  using assms by (induction me h xs rule: mchain.induct) auto

lemma mchain_update: "mchain me h xs \<Longrightarrow> i \<notin> set xs \<Longrightarrow> mchain (me[unat i := m]) h xs"
  by (erule mchain_cong) (simp, metis nth_update_unat_neq)

lemma mchain_append: "mchain me h xs \<Longrightarrow> mchain (me @ ms) h xs"
  by (rule mchain_cong) (auto simp: nth_append dest: mchain_in)

lemma card_unat_less: "card {i :: u32. unat i < n} \<le> n"
  using card_inj_on_le[of unat "{i :: u32. unat i < n}" "{..<n}"] by (auto simp: inj_on_def word_unat_eq_iff)

lemma mmap_new_inv: "mmap_inv (mmap_new cap) {}"
  by (auto simp: mmap_inv_def mmap_new_def intro!: exI[of _ "[]"])

lemma mmap_len_room:
  assumes "finite (A :: u32 set)" and "i \<notin> A" and "insert i A \<subseteq> {i. unat i < unat (b :: u32)}" and "unat (l :: u32) = card A"
  shows "unat (l + 1) = card (insert i A)"
proof -
  have "card (insert i A) \<le> unat b"
    using card_mono[OF finite assms(3)] card_unat_less[of "unat b"] by linarith
  then have "unat l + 1 < 2 ^ 32" using assms(1,2,4) unat_u32_lt[of b] by simp
  then show ?thesis using assms(1,2,4) by (simp add: unat_inc_u32)
qed

lemma mmap_insert_correct:
  assumes "mmap_inv s A"
  shows "\<exists>r s'. mmap_insert s = Some (r, s') \<and> m_cap s' = m_cap s \<and>
           (case r of Some i \<Rightarrow> i \<notin> A \<and> i < m_cap s \<and> mmap_inv s' (insert i A)
                    | None \<Rightarrow> s' = s \<and> A = {i. i < m_cap s})"
proof -
  from assms obtain xs where inv: "distinct xs" "mchain (m_meta s) (m_free_head s) xs"
    "A = {i. unat i < length (m_meta s)} - set xs" "length (m_meta s) = unat (m_bump s)"
    "m_bump s \<le> m_cap s" "unat (m_len s) = card A"
    "\<And>i. i \<in> A \<Longrightarrow> m_next_free (m_meta s ! unat i) = FREE_END"
    by (rule mmap_invE) blast
  show ?thesis
  proof (cases "m_free_head s = FREE_END")
    case False
    then obtain ys where xs: "xs = m_free_head s # ys" using inv(2) by (cases xs) auto
    let ?i = "m_free_head s"
    let ?me = "(m_meta s)[unat ?i := (m_meta s ! unat ?i)\<lparr>m_next_free := FREE_END\<rparr>]"
    let ?s = "s\<lparr>m_free_head := m_next_free (m_meta s ! unat ?i), m_meta := ?me, m_len := m_len s + 1\<rparr>"
    have i: "unat ?i < length (m_meta s)" "?i \<notin> A" using inv(2,3) xs by auto
    have "mchain ?me (m_next_free (m_meta s ! unat ?i)) ys"
      using inv(1,2) xs by (intro mchain_update) auto
    moreover have "insert ?i A = {j. unat j < length ?me} - set ys" using inv(1,3) xs i by auto
    moreover have "unat (m_len s + 1) = card (insert ?i A)"
      using i(2) inv(3,4,6) i(1) by (intro mmap_len_room[where b = "m_bump s"]) auto
    moreover have "\<forall>j\<in>insert ?i A. m_next_free (?me ! unat j) = FREE_END"
    proof
      fix j assume "j \<in> insert ?i A"
      then show "m_next_free (?me ! unat j) = FREE_END" using i inv(7) by (cases "j = ?i") auto
    qed
    ultimately have "mmap_inv ?s (insert ?i A)"
      unfolding mmap_inv_def using inv(1,4,5) xs by (intro conjI exI[of _ ys]) auto
    moreover have "?i < m_cap s" using i(1) inv(4,5) by (simp add: word_less_nat_alt word_le_nat_alt)
    ultimately show ?thesis using False i by (simp add: mmap_insert_def Let_def)
  next
    case True
    then have xs: "xs = []" using inv(2) by (cases xs) auto
    show ?thesis
    proof (cases "m_bump s < m_cap s")
      case True
      let ?b = "m_bump s"
      let ?s = "s\<lparr>m_bump := ?b + 1, m_meta := m_meta s @ [\<lparr>m_generation = 0, m_next_free = FREE_END\<rparr>],
                  m_len := m_len s + 1\<rparr>"
      have b: "unat (?b + 1) = unat ?b + 1"
        using True unat_u32_lt[of "m_cap s"] by (intro unat_inc_u32) (simp add: word_less_nat_alt)
      have "?b \<notin> A" "insert ?b A = {j. unat j < unat (?b + 1)}"
        using inv(3,4) xs b by (auto simp: less_Suc_eq word_unat_eq_iff)
      moreover from this have "unat (m_len s + 1) = card (insert ?b A)"
        using inv(6) by (intro mmap_len_room[where b = "?b + 1"]) auto
      moreover have "\<forall>j\<in>insert ?b A. m_next_free (m_meta ?s ! unat j) = FREE_END"
        using inv(3,4,7) by (auto simp: nth_append)
      ultimately have "mmap_inv ?s (insert ?b A)"
        unfolding mmap_inv_def using inv(4) True b \<open>m_free_head s = FREE_END\<close>
        by (intro conjI exI[of _ "[]"]) (auto simp: word_less_nat_alt word_le_nat_alt)
      with True \<open>?b \<notin> A\<close> \<open>m_free_head s = FREE_END\<close> show ?thesis
        by (simp add: mmap_insert_def Let_def)
    next
      case False
      with True inv(3,4,5) xs show ?thesis
        by (simp add: mmap_insert_def word_less_nat_alt word_le_nat_alt)
    qed
  qed
qed

lemma mmap_remove_correct:
  assumes "mmap_inv s A" and "i \<in> A"
  shows "\<exists>s'. mmap_remove s i = (True, s') \<and> mmap_inv s' (A - {i}) \<and> m_cap s' = m_cap s"
proof -
  from assms(1) obtain xs where inv: "distinct xs" "mchain (m_meta s) (m_free_head s) xs"
    "A = {i. unat i < length (m_meta s)} - set xs" "length (m_meta s) = unat (m_bump s)"
    "m_bump s \<le> m_cap s" "unat (m_len s) = card A"
    "\<And>i. i \<in> A \<Longrightarrow> m_next_free (m_meta s ! unat i) = FREE_END"
    by (rule mmap_invE) blast
  let ?m = "\<lparr>m_generation = m_generation (m_meta s ! unat i) + 1, m_next_free = m_free_head s\<rparr>"
  let ?s = "s\<lparr>m_meta := (m_meta s)[unat i := ?m], m_free_head := i, m_len := m_len s - 1\<rparr>"
  have i: "unat i < length (m_meta s)" "i \<notin> set xs" "i \<noteq> FREE_END"
    using assms(2) inv(3,4) unat_lt_FREE_END[of i "unat (m_bump s)"] unat_u32_lt[of "m_bump s"] by auto
  have "mchain ((m_meta s)[unat i := ?m]) (m_free_head s) xs" using inv(2) i(2) by (rule mchain_update)
  then have "mchain (m_meta ?s) i (i # xs)" using i by simp
  moreover have "unat (m_len s - 1) = card (A - {i})"
  proof -
    have "0 < unat (m_len s)" using inv(6) assms(2) card_gt_0_iff[of A] by auto
    then have "unat (m_len s - 1) = unat (m_len s) - 1" by (simp add: unat_minus_one unat_gt_0)
    then show ?thesis using inv(6) assms(2) by simp
  qed
  moreover have "A - {i} = {j. unat j < length (m_meta ?s)} - set (i # xs)" using inv(3) by auto
  moreover have "\<forall>j\<in>A - {i}. m_next_free (m_meta ?s ! unat j) = FREE_END"
  proof
    fix j assume "j \<in> A - {i}"
    then show "m_next_free (m_meta ?s ! unat j) = FREE_END" using inv(7)[of j] by (cases "i = j") auto
  qed
  ultimately have "mmap_inv ?s (A - {i})"
    unfolding mmap_inv_def using inv(1,4,5) i(2) by (intro conjI exI[of _ "i # xs"]) auto
  moreover have "mmap_remove s i = (True, ?s)"
    using i(1) inv(7)[OF assms(2)] by (simp add: mmap_remove_def Let_def)
  ultimately show ?thesis by simp
qed

subsection \<open>The interfaces\<close>

text \<open>
  What the handle table relies on: the slab is a finite map, a bump insert takes an index that
  was never valid before, removal and in-place update touch one index only.
\<close>

locale slab_map =
  fixes invar :: "'s \<Rightarrow> bool" and lookup :: "'s \<Rightarrow> u32 \<Rightarrow> 'a option" and upper :: "'s \<Rightarrow> u32"
    and ins :: "'s \<Rightarrow> 'a \<Rightarrow> (u32 \<times> u32) \<times> 's"
    and ins_at :: "'s \<Rightarrow> u32 \<Rightarrow> 'a \<Rightarrow> (u32 \<times> 's) option"
    and rem :: "'s \<Rightarrow> u32 \<Rightarrow> ('a option \<times> 's) option"
    and upd :: "'s \<Rightarrow> u32 \<Rightarrow> ('a \<Rightarrow> 'a) \<Rightarrow> 'a option \<times> 's"
  assumes above: "invar s \<Longrightarrow> upper s \<le> i \<Longrightarrow> lookup s i = None"
    and ins_law: "invar s \<Longrightarrow> upper s \<noteq> FREE_END \<Longrightarrow> ins s v = ((i, g), s') \<Longrightarrow>
          i = upper s \<and> invar s' \<and> lookup s' = (lookup s)(i \<mapsto> v) \<and> upper s' = upper s + 1"
    and ins_at_law: "invar s \<Longrightarrow> i \<noteq> FREE_END \<Longrightarrow>
          \<exists>g s'. ins_at s i v = Some (g, s') \<and> invar s' \<and> lookup s' = (lookup s)(i \<mapsto> v) \<and>
                 unat (upper s') = max (unat (upper s)) (unat i + 1)"
    and rem_law: "invar s \<Longrightarrow>
          \<exists>s'. rem s i = Some (lookup s i, s') \<and> invar s' \<and>
               lookup s' = (lookup s)(i := None) \<and> upper s' = upper s"
    and upd_law: "invar s \<Longrightarrow> upd s i f = (r, s') \<Longrightarrow>
          r = lookup s i \<and> invar s' \<and> lookup s' = (lookup s)(i := map_option f (lookup s i)) \<and>
          upper s' = upper s"
begin

lemma ins_fresh: "invar s \<Longrightarrow> upper s \<noteq> FREE_END \<Longrightarrow> ins s v = ((i, g), s') \<Longrightarrow> lookup s i = None"
  using ins_law[of s v i g s'] above[of s i] by simp

lemma ins_rem:
  assumes "invar s" and "upper s \<noteq> FREE_END" and "ins s v = ((i, g), s')"
  shows "\<exists>t. rem s' i = Some (Some v, t) \<and> invar t \<and> lookup t = lookup s"
proof -
  have s': "invar s'" "lookup s' = (lookup s)(i \<mapsto> v)" using ins_law[OF assms] by auto
  have "lookup s i = None" using ins_fresh[OF assms] .
  with rem_law[OF s'(1), of i] s'(2) show ?thesis by (auto simp: fun_upd_idem)
qed

end

text \<open>
  What the shared-memory manager relies on: slots in use form a set, a new slot is not in it.
\<close>

locale slot_allocator =
  fixes inv :: "'s \<Rightarrow> u32 set \<Rightarrow> bool" and capacity :: "'s \<Rightarrow> u32"
    and alloc :: "'s \<Rightarrow> (u32 option \<times> 's) option" and release :: "'s \<Rightarrow> u32 \<Rightarrow> bool \<times> 's"
  assumes alloc_law: "inv s A \<Longrightarrow>
      \<exists>r s'. alloc s = Some (r, s') \<and> capacity s' = capacity s \<and>
             (case r of Some i \<Rightarrow> i \<notin> A \<and> i < capacity s \<and> inv s' (insert i A)
                      | None \<Rightarrow> s' = s \<and> A = {i. i < capacity s})"
    and release_law: "inv s A \<Longrightarrow> i \<in> A \<Longrightarrow>
      \<exists>s'. release s i = (True, s') \<and> inv s' (A - {i}) \<and> capacity s' = capacity s"
begin

text \<open>
  A client that records the owner of each slot in a map keeps the map injective: no two owners
  share a slot.
\<close>

lemma alloc_owner:
  assumes "inv s (ran m)" and "inj_on m (dom m)" and "m k = None" and "alloc s = Some (Some i, s')"
  shows "inv s' (ran (m(k \<mapsto> i)))" and "inj_on (m(k \<mapsto> i)) (dom (m(k \<mapsto> i)))" and "i < capacity s"
proof -
  have i: "i \<notin> ran m" "i < capacity s" "inv s' (insert i (ran m))"
    using alloc_law[OF assms(1)] assms(4) by auto
  then show "inv s' (ran (m(k \<mapsto> i)))" "i < capacity s" using assms(3) by simp_all
  show "inj_on (m(k \<mapsto> i)) (dom (m(k \<mapsto> i)))"
    using assms(2) i(1) by (rule inj_map_insert)
qed

lemma release_owner:
  assumes "inv s (ran m)" and "inj_on m (dom m)" and "m k = Some i"
  shows "\<exists>s'. release s i = (True, s') \<and> inv s' (ran (m(k := None))) \<and>
              inj_on (m(k := None)) (dom (m(k := None))) \<and> capacity s' = capacity s"
proof -
  have "i \<in> ran m" using assms(3) by (rule ranI)
  moreover note ran_map_delete_inj[OF assms(2,3)] inj_map_delete[OF assms(2), of k]
  ultimately show ?thesis using release_law[OF assms(1), of i] by simp
qed

end

interpretation hs: slab_map heap_slab_inv get_unchecked bump insert_bump insert_at
    remove_unchecked get_mut_unchecked
proof unfold_locales
  fix s :: "'a heap_slab" and i f r s'
  assume "heap_slab_inv s" and "get_mut_unchecked s i f = (r, s')"
  then show "r = get_unchecked s i \<and> heap_slab_inv s' \<and>
      get_unchecked s' = (get_unchecked s)(i := map_option f (get_unchecked s i)) \<and> bump s' = bump s"
    using get_mut_unchecked_correct[of s i f] by simp
next
  fix s :: "'a heap_slab" and v i g s'
  assume "heap_slab_inv s" and "bump s \<noteq> FREE_END" and "insert_bump s v = ((i, g), s')"
  from insert_bump_correct[OF this]
  show "i = bump s \<and> heap_slab_inv s' \<and> get_unchecked s' = (get_unchecked s)(i \<mapsto> v) \<and>
      bump s' = bump s + 1" by simp
next
  fix s :: "'a heap_slab" and i
  assume "heap_slab_inv s"
  from remove_unchecked_correct[OF this, of i]
  show "\<exists>s'. remove_unchecked s i = Some (get_unchecked s i, s') \<and> heap_slab_inv s' \<and>
      get_unchecked s' = (get_unchecked s)(i := None) \<and> bump s' = bump s" by blast
qed (fact heap_slab_inv_fresh insert_at_correct)+

interpretation ms: slot_allocator mmap_inv m_cap mmap_insert mmap_remove
  by unfold_locales (fact mmap_insert_correct mmap_remove_correct)+

subsection \<open>Runs of the slab\<close>

text \<open>
  An arbitrary sequence of calls on one slab, with the indices \<^verbatim>\<open>insert_bump\<close> returned.
\<close>

datatype 'a slab_op = OpInsert 'a | OpInsertAt u32 'a | OpRemove u32 | OpUpdate u32 "'a \<Rightarrow> 'a"

fun slab_step :: "'a slab_op \<Rightarrow> 'a heap_slab \<Rightarrow> (u32 list \<times> 'a heap_slab) option" where
  "slab_step (OpInsert v) s = (let ((i, _), s') = insert_bump s v in Some ([i], s'))"
| "slab_step (OpInsertAt i v) s = map_option (\<lambda>(_, s'). ([], s')) (insert_at s i v)"
| "slab_step (OpRemove i) s = map_option (\<lambda>(_, s'). ([], s')) (remove_unchecked s i)"
| "slab_step (OpUpdate i f) s = Some ([], snd (get_mut_unchecked s i f))"

fun slab_run :: "'a slab_op list \<Rightarrow> 'a heap_slab \<Rightarrow> (u32 list \<times> 'a heap_slab) option" where
  "slab_run [] s = Some ([], s)"
| "slab_run (p # ps) s = do {
     (is, s') \<leftarrow> slab_step p s;
     (js, s'') \<leftarrow> slab_run ps s';
     Some (is @ js, s'') }"

fun ops_below :: "nat \<Rightarrow> 'a slab_op list \<Rightarrow> bool" where
  "ops_below n [] = True"
| "ops_below n (OpInsertAt i v # ps) = (unat i < n \<and> ops_below n ps)"
| "ops_below n (p # ps) = ops_below n ps"

lemma ops_below_mono: "ops_below n ps \<Longrightarrow> n \<le> m \<Longrightarrow> ops_below m ps"
  by (induction n ps rule: ops_below.induct) auto

lemma slab_step_ok:
  assumes "heap_slab_inv s" and "unat (bump s) \<le> n" and "n + 1 < 2 ^ 32" and "ops_below n [p]"
  shows "\<exists>is s'. slab_step p s = Some (is, s') \<and> heap_slab_inv s' \<and> unat (bump s') \<le> n + 1 \<and>
           bump s \<le> bump s' \<and> sorted_wrt (<) is \<and> (\<forall>i\<in>set is. bump s \<le> i \<and> i < bump s')"
proof (cases p)
  case (OpInsert v)
  have ne: "bump s \<noteq> FREE_END" using assms(2,3) unat_FREE_END by auto
  obtain i g s' where r: "insert_bump s v = ((i, g), s')" by (cases "insert_bump s v") auto
  have "unat (bump s + 1) = unat (bump s) + 1" using assms(2,3) by (intro unat_inc_u32) simp
  then have "bump s < bump s + 1" "unat (bump s + 1) \<le> n + 1" using assms(2) by (simp_all add: word_less_nat_alt)
  with hs.ins_law[OF assms(1) ne r] r OpInsert show ?thesis by (auto simp: less_imp_le)
next
  case (OpInsertAt i v)
  then have "i \<noteq> FREE_END" using assms(3,4) unat_FREE_END by auto
  from hs.ins_at_law[OF assms(1) this, of v] OpInsertAt assms(2,4) show ?thesis
    by (auto simp: word_le_nat_alt)
next
  case (OpRemove i)
  with hs.rem_law[OF assms(1), of i] assms(2) show ?thesis by auto
next
  case (OpUpdate i f)
  obtain r s' where "get_mut_unchecked s i f = (r, s')" by (cases "get_mut_unchecked s i f")
  with hs.upd_law[OF assms(1) this] OpUpdate assms(2) show ?thesis by auto
qed

lemma slab_run_ok:
  assumes "heap_slab_inv s" and "unat (bump s) \<le> n" and "n + length ps < 2 ^ 32" and "ops_below n ps"
  shows "\<exists>is s'. slab_run ps s = Some (is, s') \<and> heap_slab_inv s' \<and> sorted_wrt (<) is \<and>
           (\<forall>i\<in>set is. bump s \<le> i)"
  using assms
proof (induction ps arbitrary: s n)
  case Nil
  then show ?case by simp
next
  case (Cons p ps)
  have "ops_below n [p] \<and> ops_below n ps" using Cons.prems(4) by (cases p) auto
  then obtain js s' where st: "slab_step p s = Some (js, s')" "heap_slab_inv s'" "unat (bump s') \<le> n + 1"
      "bump s \<le> bump s'" "sorted_wrt (<) js" "\<forall>i\<in>set js. bump s \<le> i \<and> i < bump s'" and "ops_below (n + 1) ps"
    using slab_step_ok[OF Cons.prems(1,2), of p] Cons.prems(3) ops_below_mono[of n ps "n + 1"] by auto
  with Cons.IH[of s' "n + 1"] Cons.prems(3) obtain ks s'' where
    "slab_run ps s' = Some (ks, s'')" "heap_slab_inv s''" "sorted_wrt (<) ks" "\<forall>i\<in>set ks. bump s' \<le> i"
    by auto
  with st show ?case
    by (auto simp: sorted_wrt_append intro: less_le_trans order_trans)
qed

subsection \<open>Properties of the slabs\<close>



text \<open>
  C25. \<^verbatim>\<open>insert_at\<close> returns for every index but the sentinel, whatever the state of the slot
  (never allocated, occupied, on the free list at any position, or reserved): its walk over the
  free list ends, the slab stays well formed and exactly the requested index changes.
\<close>

theorem insert_at_returns_and_updates:
  assumes "heap_slab_inv s" and "index \<noteq> FREE_END"
  shows "\<exists>g s'. insert_at s index v = Some (g, s') \<and> heap_slab_inv s' \<and>
           get_unchecked s' = (get_unchecked s)(index \<mapsto> v)"
  using insert_at_correct[OF assms, of v] by blast

theorem insert_at_returns_and_updates_witness:
  "\<exists>g s'. insert_at (with_capacity 4) 2 (5 :: nat) = Some (g, s') \<and> heap_slab_inv s' \<and>
     get_unchecked s' 2 = Some 5 \<and> get_unchecked s' 1 = None"
proof -
  have "(2 :: u32) \<noteq> FREE_END" by (simp add: FREE_END_def)
  from insert_at_returns_and_updates[OF with_capacity_inv[of 4] this, of "5 :: nat"] show ?thesis
    by (auto simp: with_capacity_get)
qed

text \<open>
  Freeing the same slot of an \<^verbatim>\<open>MmapSlab\<close> twice is accepted when it is the last one on the free
  list: the count of slots in use wraps below zero and the free list becomes a cycle, so the
  same slot is handed out twice in a row.
\<close>

theorem mmap_double_remove_accepted:
  "\<exists>s1 s2 s3 s4 s5. mmap_insert (mmap_new 4) = Some (Some 0, s1) \<and> mmap_remove s1 0 = (True, s2) \<and>
     mmap_remove s2 0 = (True, s3) \<and> m_len s3 = - 1 \<and>
     mmap_insert s3 = Some (Some 0, s4) \<and> mmap_insert s4 = Some (Some 0, s5)"
  by (simp add: mmap_new_def mmap_insert_def mmap_remove_def FREE_END_def Let_def)

end
