(* ===== verification/Queue.thy ===== *)
theory Queue
  imports Prelude
begin

text \<open>
  The per-thread message queue of \<^verbatim>\<open>src/rust/src/triskelion/queue.rs\<close>: the single-producer
  single-consumer ring in shared memory and the \<^verbatim>\<open>ThreadQueue\<close> around it.  Positions are
  64-bit words that are never reset, so differences and masked indices wrap as in the code.
  The ring refines a bounded list (interface \<^verbatim>\<open>bounded_fifo\<close>); a step relation interleaves the
  atomic loads and stores of one poster and one reader.
\<close>

subsection \<open>MessageRing\<close>

record queued_message =
  qm_win :: u32
  qm_msg :: u32
  qm_wparam :: u64
  qm_lparam :: u64
  qm_msg_type :: u32
  qm_x :: u32
  qm_y :: u32
  qm_time :: u32

definition RING_CAPACITY :: nat where
  "RING_CAPACITY = 256"

definition RING_MASK :: u64 where
  "RING_MASK = 255"

record message_ring =
  write_pos :: u64
  read_pos :: u64
  ring_buf :: "queued_message list"

definition ring_push :: "message_ring \<Rightarrow> queued_message \<Rightarrow> bool \<times> message_ring" where
  "ring_push r m =
     (let wp = write_pos r; rp = read_pos r in
      if unat (wp - rp) \<ge> RING_CAPACITY then (False, r)
      else (let idx = unat (wp AND RING_MASK) in
            (True, r\<lparr>ring_buf := (ring_buf r)[idx := m], write_pos := wp + 1\<rparr>)))"

definition ring_pop :: "message_ring \<Rightarrow> queued_message option \<times> message_ring" where
  "ring_pop r =
     (let rp = read_pos r; wp = write_pos r in
      if rp = wp then (None, r)
      else (let idx = unat (rp AND RING_MASK); m = ring_buf r ! idx in
            (Some m, r\<lparr>read_pos := rp + 1\<rparr>)))"

definition ring_is_empty :: "message_ring \<Rightarrow> bool" where
  "ring_is_empty r = (read_pos r = write_pos r)"

subsection \<open>ThreadQueue\<close>

definition QS_POSTMESSAGE :: u32 where
  "QS_POSTMESSAGE = 0x0008"

record thread_queue =
  posted :: message_ring
  wake_bits :: u32
  post_lock :: u32
  tq_thread_id :: u32

definition zero_message :: queued_message where
  "zero_message = \<lparr>qm_win = 0, qm_msg = 0, qm_wparam = 0, qm_lparam = 0, qm_msg_type = 0,
                   qm_x = 0, qm_y = 0, qm_time = 0\<rparr>"

definition init_at :: "u32 \<Rightarrow> thread_queue" where
  "init_at tid = \<lparr>posted = \<lparr>write_pos = 0, read_pos = 0, ring_buf = replicate RING_CAPACITY zero_message\<rparr>,
                  wake_bits = 0, post_lock = 0, tq_thread_id = tid\<rparr>"

text \<open>The second component of the result is the number of \<^verbatim>\<open>futex_wake\<close> calls.\<close>

definition post :: "thread_queue \<Rightarrow> queued_message \<Rightarrow> (bool \<times> nat) \<times> thread_queue" where
  "post q m =
     (let (ok, r) = ring_push (posted q) m; q1 = q\<lparr>posted := r\<rparr> in
      if ok then ((True, 1), q1\<lparr>wake_bits := wake_bits q1 OR QS_POSTMESSAGE\<rparr>)
      else ((False, 0), q1))"

definition tq_get :: "thread_queue \<Rightarrow> queued_message option \<times> thread_queue" where
  "tq_get q =
     (case ring_pop (posted q) of
        (None, r) \<Rightarrow> (None, q\<lparr>posted := r\<rparr>)
      | (Some m, r) \<Rightarrow>
          (let q1 = q\<lparr>posted := r\<rparr> in
           (Some m, if ring_is_empty (posted q1)
                    then q1\<lparr>wake_bits := wake_bits q1 AND NOT QS_POSTMESSAGE\<rparr> else q1)))"

subsection \<open>The list a ring stands for\<close>

definition window :: "'a list \<Rightarrow> u64 \<Rightarrow> nat \<Rightarrow> 'a list" where
  "window b rp n = map (\<lambda>k. b ! unat ((rp + of_nat k) AND RING_MASK)) [0..<n]"

definition ring_list :: "message_ring \<Rightarrow> queued_message list" where
  "ring_list r = window (ring_buf r) (read_pos r) (unat (write_pos r - read_pos r))"

definition ring_inv :: "message_ring \<Rightarrow> bool" where
  "ring_inv r \<longleftrightarrow> length (ring_buf r) = RING_CAPACITY \<and>
                 unat (write_pos r - read_pos r) \<le> RING_CAPACITY"

lemma ring_index: "unat ((rp + of_nat k) AND RING_MASK) = (unat rp + k) mod RING_CAPACITY"
proof -
  have "w AND RING_MASK = take_bit 8 w" for w
    by (simp add: RING_MASK_def take_bit_eq_mask mask_eq_exp_minus_1)
  then have "unat ((rp + of_nat k) AND RING_MASK) = take_bit 8 (unat (rp + of_nat k))"
    by (simp only: unsigned_take_bit_eq)
  also have "\<dots> = unat (rp + of_nat k) mod 256" by (simp add: take_bit_eq_mod)
  also have "\<dots> = (unat rp + k) mod 256"
    by (simp add: unat_word_ariths unat_of_nat mod_mod_cancel mod_add_right_eq take_bit_eq_mod)
  finally show ?thesis by (simp add: RING_CAPACITY_def)
qed

lemma ring_index_0: "unat (rp AND RING_MASK) = unat rp mod RING_CAPACITY"
  using ring_index[of rp 0] by simp

lemma ring_index_lt [simp]: "unat (rp AND RING_MASK) < RING_CAPACITY"
  by (simp add: ring_index_0 RING_CAPACITY_def)

lemma ring_index_inj:
  assumes "k \<le> n" and "n < RING_CAPACITY"
    and "unat ((rp + of_nat k) AND RING_MASK) = unat ((rp + of_nat n) AND RING_MASK)"
  shows "k = n"
proof -
  have "RING_CAPACITY dvd (unat rp + n) - (unat rp + k)"
    using assms unfolding ring_index by (intro mod_eq_dvd_iff_nat[THEN iffD1]) simp_all
  then show ?thesis using assms(1,2) by (auto dest: dvd_imp_le)
qed

lemma window_length [simp]: "length (window b rp n) = n"
  by (simp add: window_def)

lemma window_0 [simp]: "window b rp 0 = []"
  by (simp add: window_def)

lemma window_snoc: "window b rp (Suc n) = window b rp n @ [b ! unat ((rp + of_nat n) AND RING_MASK)]"
  by (simp add: window_def)

lemma window_Cons: "window b rp (Suc n) = b ! unat (rp AND RING_MASK) # window b (rp + 1) n"
  by (simp add: window_def upt_conv_Cons map_Suc_upt[symmetric] add.assoc del: upt_Suc)

lemma window_update:
  assumes "n < RING_CAPACITY"
  shows "window (b[unat ((rp + of_nat n) AND RING_MASK) := m]) rp n = window b rp n"
  unfolding window_def
proof (rule map_cong[OF refl])
  fix k assume "k \<in> set [0..<n]"
  then show "b[unat ((rp + of_nat n) AND RING_MASK) := m] ! unat ((rp + of_nat k) AND RING_MASK) =
      b ! unat ((rp + of_nat k) AND RING_MASK)"
    using assms ring_index_inj[of k n rp] by (intro nth_list_update_neq) auto
qed

lemma pos_split: "wp = rp + of_nat (unat (wp - rp))" for wp rp :: u64
  by simp

lemma unat_write_inc: "unat (wp - rp) \<le> RING_CAPACITY \<Longrightarrow> unat (wp + 1 - rp) = unat (wp - rp) + 1"
  for wp rp :: u64
proof -
  assume a: "unat (wp - rp) \<le> RING_CAPACITY"
  have "wp + 1 - rp = (wp - rp) + 1" by simp
  with a show ?thesis by (simp only:) (simp add: unat_word_ariths RING_CAPACITY_def)
qed

lemma unat_read_inc: "wp \<noteq> rp \<Longrightarrow> unat (wp - (rp + 1)) = unat (wp - rp) - 1" for wp rp :: u64
proof -
  assume "wp \<noteq> rp"
  then have "wp - rp \<noteq> 0" by simp
  moreover have "wp - (rp + 1) = (wp - rp) - 1" by simp
  ultimately show ?thesis by (metis unat_minus_one)
qed

lemma unat_diff_zero: "unat (wp - rp) = 0 \<longleftrightarrow> wp = rp" for wp rp :: u64
  using unat_eq_zero[of "wp - rp"] by (simp only: right_minus_eq)

lemma ring_push_refines:
  assumes "ring_inv r"
  shows "fst (ring_push r m) = (length (ring_list r) < RING_CAPACITY)"
    and "ring_inv (snd (ring_push r m))"
    and "ring_list (snd (ring_push r m)) =
           (if length (ring_list r) < RING_CAPACITY then ring_list r @ [m] else ring_list r)"
proof -
  let ?n = "unat (write_pos r - read_pos r)"
  have w: "write_pos r AND RING_MASK = (read_pos r + of_nat ?n) AND RING_MASK" by simp
  show "fst (ring_push r m) = (length (ring_list r) < RING_CAPACITY)"
    by (simp add: ring_push_def ring_list_def Let_def)
  show "ring_inv (snd (ring_push r m))"
    using assms unat_write_inc[of "write_pos r" "read_pos r"]
    by (auto simp: ring_inv_def ring_push_def Let_def)
  show "ring_list (snd (ring_push r m)) =
          (if length (ring_list r) < RING_CAPACITY then ring_list r @ [m] else ring_list r)"
    using assms unat_write_inc[of "write_pos r" "read_pos r"] ring_index_lt[of "write_pos r"]
      window_update[of ?n "ring_buf r" "read_pos r" m]
    by (auto simp: ring_inv_def ring_push_def ring_list_def Let_def window_snoc)
qed

lemma ring_pop_refines:
  assumes "ring_inv r"
  shows "fst (ring_pop r) = (case ring_list r of [] \<Rightarrow> None | x # _ \<Rightarrow> Some x)"
    and "ring_inv (snd (ring_pop r))"
    and "ring_list (snd (ring_pop r)) = tl (ring_list r)"
proof -
  let ?n = "unat (write_pos r - read_pos r)"
  have *: "fst (ring_pop r) = (case ring_list r of [] \<Rightarrow> None | x # _ \<Rightarrow> Some x) \<and>
      ring_inv (snd (ring_pop r)) \<and> ring_list (snd (ring_pop r)) = tl (ring_list r)"
  proof (cases "read_pos r = write_pos r")
    case True
    then show ?thesis using assms by (simp add: ring_pop_def ring_list_def window_def)
  next
    case False
    then have "write_pos r - read_pos r \<noteq> 0" by auto
    then have "0 < ?n" by (simp only: unat_gt_0 not_False_eq_True)
    then have n: "?n = Suc (?n - 1)" by simp
    have l: "ring_list r = ring_buf r ! unat (read_pos r AND RING_MASK) #
        window (ring_buf r) (read_pos r + 1) (?n - 1)"
      unfolding ring_list_def by (subst n) (rule window_Cons)
    show ?thesis
      using False assms unat_read_inc[of "write_pos r" "read_pos r"]
      by (simp add: l) (auto simp: ring_pop_def ring_inv_def ring_list_def Let_def)
  qed
  then show "fst (ring_pop r) = (case ring_list r of [] \<Rightarrow> None | x # _ \<Rightarrow> Some x)"
    "ring_inv (snd (ring_pop r))" "ring_list (snd (ring_pop r)) = tl (ring_list r)" by simp_all
qed

subsection \<open>The bounded FIFO interface\<close>

locale bounded_fifo =
  fixes inv :: "'s \<Rightarrow> bool" and contents :: "'s \<Rightarrow> 'm list" and cap :: nat
    and enq :: "'s \<Rightarrow> 'm \<Rightarrow> bool \<times> 's" and deq :: "'s \<Rightarrow> 'm option \<times> 's"
  assumes enq_ok: "inv s \<Longrightarrow> fst (enq s m) = (length (contents s) < cap)"
    and enq_inv: "inv s \<Longrightarrow> inv (snd (enq s m))"
    and enq_contents: "inv s \<Longrightarrow>
          contents (snd (enq s m)) = (if length (contents s) < cap then contents s @ [m] else contents s)"
    and deq_val: "inv s \<Longrightarrow> fst (deq s) = (case contents s of [] \<Rightarrow> None | x # _ \<Rightarrow> Some x)"
    and deq_inv: "inv s \<Longrightarrow> inv (snd (deq s))"
    and deq_contents: "inv s \<Longrightarrow> contents (snd (deq s)) = tl (contents s)"
begin

lemma enq_all:
  assumes "inv s" and "length (contents s) + length ms \<le> cap"
  shows "inv (fold (\<lambda>m s. snd (enq s m)) ms s) \<and>
         contents (fold (\<lambda>m s. snd (enq s m)) ms s) = contents s @ ms"
  using assms by (induction ms arbitrary: s) (simp_all add: enq_inv enq_contents)

lemma deq_nth:
  assumes "inv s" and "k < length (contents s)"
  shows "fst (deq (((\<lambda>s. snd (deq s)) ^^ k) s)) = Some (contents s ! k)"
proof -
  have "inv (((\<lambda>s. snd (deq s)) ^^ k) s) \<and> contents (((\<lambda>s. snd (deq s)) ^^ k) s) = drop k (contents s)" for k
    by (induction k) (simp_all add: assms(1) deq_inv deq_contents drop_Suc tl_drop)
  then show ?thesis
    using assms(2) by (simp add: deq_val Cons_nth_drop_Suc[symmetric])
qed

text \<open>What was enqueued on an empty queue comes out in order.\<close>

lemma fifo_order:
  assumes "inv s" and "contents s = []" and "length ms \<le> cap" and "k < length ms"
  shows "fst (deq (((\<lambda>s. snd (deq s)) ^^ k) (fold (\<lambda>m s. snd (enq s m)) ms s))) = Some (ms ! k)"
  using enq_all[OF assms(1), of ms] assms by (subst deq_nth) auto

end

interpretation ring: bounded_fifo ring_inv ring_list RING_CAPACITY ring_push ring_pop
  by unfold_locales (simp_all add: ring_push_refines ring_pop_refines)

lemma ring_is_empty_iff: "ring_is_empty r \<longleftrightarrow> ring_list r = []"
  by (auto simp: ring_is_empty_def ring_list_def window_def unat_diff_zero)

subsection \<open>ThreadQueue: the wake bit, one call at a time\<close>

definition tq_inv :: "thread_queue \<Rightarrow> bool" where
  "tq_inv q \<longleftrightarrow> ring_inv (posted q) \<and> (ring_list (posted q) \<noteq> [] \<longrightarrow> wake_bits q AND QS_POSTMESSAGE \<noteq> 0)"

lemma QS_nonzero [simp]: "QS_POSTMESSAGE \<noteq> 0"
  by (simp add: QS_POSTMESSAGE_def)

lemma QS_or: "(w OR QS_POSTMESSAGE) AND QS_POSTMESSAGE \<noteq> 0"
proof
  assume "(w OR QS_POSTMESSAGE) AND QS_POSTMESSAGE = 0"
  then have "QS_POSTMESSAGE = 0" by (simp add: bit.conj_disj_distrib2 and.commute or_eq_0_iff)
  then show False by (simp add: QS_POSTMESSAGE_def)
qed

lemma QS_clear: "(w AND NOT QS_POSTMESSAGE) AND QS_POSTMESSAGE = 0"
  by (simp add: and.assoc)

lemma init_at_ring: "ring_inv (posted (init_at tid))" "ring_list (posted (init_at tid)) = []"
  by (simp_all add: init_at_def ring_inv_def ring_list_def window_def)

lemma init_at_inv: "tq_inv (init_at tid)"
  by (simp add: tq_inv_def init_at_ring)

lemma post_correct:
  assumes "tq_inv q" and "post q m = ((ok, wakes), q')"
  shows "tq_inv q'" and "ok = (length (ring_list (posted q)) < RING_CAPACITY)"
    and "ring_list (posted q') = (if ok then ring_list (posted q) @ [m] else ring_list (posted q))"
    and "wakes = (if ok then 1 else 0)"
proof -
  have i: "ring_inv (posted q)" using assms(1) by (simp add: tq_inv_def)
  obtain b r where p: "ring_push (posted q) m = (b, r)" by fastforce
  have ok: "ok = b" "wakes = (if ok then 1 else 0)" "posted q' = r"
      "wake_bits q' = (if b then wake_bits q OR QS_POSTMESSAGE else wake_bits q)"
    using assms(2) p by (auto simp: post_def Let_def split: if_splits)
  note ring.enq_ok[OF i, of m] ring.enq_inv[OF i, of m] ring.enq_contents[OF i, of m]
  then show "tq_inv q'" "ok = (length (ring_list (posted q)) < RING_CAPACITY)"
    "ring_list (posted q') = (if ok then ring_list (posted q) @ [m] else ring_list (posted q))"
    "wakes = (if ok then 1 else 0)"
    using assms(1) ok p QS_or[of "wake_bits q"] by (auto simp: tq_inv_def simp del: bit.conj_disj_distrib2)
qed

lemma tq_get_correct:
  assumes "tq_inv q" and "tq_get q = (r, q')"
  shows "tq_inv q'" and "r = (case ring_list (posted q) of [] \<Rightarrow> None | m # _ \<Rightarrow> Some m)"
    and "ring_list (posted q') = tl (ring_list (posted q))"
    and "r \<noteq> None \<Longrightarrow> ring_list (posted q') = [] \<Longrightarrow> wake_bits q' AND QS_POSTMESSAGE = 0"
proof -
  have i: "ring_inv (posted q)" using assms(1) by (simp add: tq_inv_def)
  obtain x r' where p: "ring_pop (posted q) = (x, r')" by fastforce
  have l: "x = (case ring_list (posted q) of [] \<Rightarrow> None | m # _ \<Rightarrow> Some m)" "ring_inv r'"
      "ring_list r' = tl (ring_list (posted q))"
    using ring.deq_val[OF i] ring.deq_inv[OF i] ring.deq_contents[OF i] p by simp_all
  have q': "r = x" "posted q' = r'" "x = None \<Longrightarrow> wake_bits q' = wake_bits q"
      "x \<noteq> None \<Longrightarrow> wake_bits q' = (if ring_list r' = [] then wake_bits q AND NOT QS_POSTMESSAGE else wake_bits q)"
    using assms(2) p by (auto simp: tq_get_def Let_def ring_is_empty_iff split: option.splits if_splits)
  show "r = (case ring_list (posted q) of [] \<Rightarrow> None | m # _ \<Rightarrow> Some m)"
    "ring_list (posted q') = tl (ring_list (posted q))" using l q' by simp_all
  show "tq_inv q'" using assms(1) l q' by (cases "ring_list (posted q)") (auto simp: tq_inv_def)
  show "wake_bits q' AND QS_POSTMESSAGE = 0" if "r \<noteq> None" "ring_list (posted q') = []"
    using that q' QS_clear by simp
qed

subsection \<open>One poster and one reader, interleaved\<close>

text \<open>
  Each control point below stands between two accesses to shared memory of \<^verbatim>\<open>ThreadQueue::post\<close>
  (poster) and \<^verbatim>\<open>ThreadQueue::get\<close> (reader).  Posters are serialised by \<^verbatim>\<open>post_lock\<close>, so one
  is enough; accesses are interleaved in a sequentially consistent order.  \<open>sent\<close> and \<open>received\<close>
  are the messages whose position update has been stored.
\<close>

datatype poster =
    P_Idle
  | P_Start queued_message                \<comment> \<open>\<^verbatim>\<open>push\<close> called\<close>
  | P_Loaded queued_message u64           \<comment> \<open>\<^verbatim>\<open>wp\<close> loaded\<close>
  | P_Room queued_message u64             \<comment> \<open>\<^verbatim>\<open>rp\<close> loaded, not full\<close>
  | P_Written queued_message u64          \<comment> \<open>slot written\<close>
  | P_Published                           \<comment> \<open>\<^verbatim>\<open>write_pos\<close> stored\<close>

datatype reader =
    R_Idle
  | R_Loaded u64                          \<comment> \<open>\<^verbatim>\<open>rp\<close> loaded\<close>
  | R_Some u64                            \<comment> \<open>\<^verbatim>\<open>wp\<close> loaded, not empty\<close>
  | R_Read u64 queued_message             \<comment> \<open>slot read\<close>
  | R_Popped queued_message               \<comment> \<open>\<^verbatim>\<open>read_pos\<close> stored\<close>
  | R_Empty1 u64 queued_message           \<comment> \<open>\<^verbatim>\<open>is_empty\<close>: \<^verbatim>\<open>rp\<close> loaded\<close>
  | R_Clear queued_message                \<comment> \<open>\<^verbatim>\<open>is_empty\<close> returned true\<close>

record conc =
  c_q :: thread_queue
  c_p :: poster
  c_r :: reader
  sent :: "queued_message list"
  received :: "queued_message list"

definition set_ring :: "conc \<Rightarrow> message_ring \<Rightarrow> conc" where
  "set_ring s r = s\<lparr>c_q := (c_q s)\<lparr>posted := r\<rparr>\<rparr>"

abbreviation ring_of :: "conc \<Rightarrow> message_ring" where
  "ring_of s \<equiv> posted (c_q s)"

inductive qstep :: "conc \<Rightarrow> conc \<Rightarrow> bool" where
  p_call: "c_p s = P_Idle \<Longrightarrow> qstep s (s\<lparr>c_p := P_Start m\<rparr>)"
| p_load_wp: "c_p s = P_Start m \<Longrightarrow> qstep s (s\<lparr>c_p := P_Loaded m (write_pos (ring_of s))\<rparr>)"
| p_full: "c_p s = P_Loaded m wp \<Longrightarrow> unat (wp - read_pos (ring_of s)) \<ge> RING_CAPACITY \<Longrightarrow>
     qstep s (s\<lparr>c_p := P_Idle\<rparr>)"
| p_room: "c_p s = P_Loaded m wp \<Longrightarrow> unat (wp - read_pos (ring_of s)) < RING_CAPACITY \<Longrightarrow>
     qstep s (s\<lparr>c_p := P_Room m wp\<rparr>)"
| p_write: "c_p s = P_Room m wp \<Longrightarrow>
     qstep s ((set_ring s ((ring_of s)\<lparr>ring_buf := (ring_buf (ring_of s))[unat (wp AND RING_MASK) := m]\<rparr>))
              \<lparr>c_p := P_Written m wp\<rparr>)"
| p_store: "c_p s = P_Written m wp \<Longrightarrow>
     qstep s ((set_ring s ((ring_of s)\<lparr>write_pos := wp + 1\<rparr>))\<lparr>c_p := P_Published, sent := sent s @ [m]\<rparr>)"
| p_wake: "c_p s = P_Published \<Longrightarrow>
     qstep s (s\<lparr>c_q := (c_q s)\<lparr>wake_bits := wake_bits (c_q s) OR QS_POSTMESSAGE\<rparr>, c_p := P_Idle\<rparr>)"
| r_load_rp: "c_r s = R_Idle \<Longrightarrow> qstep s (s\<lparr>c_r := R_Loaded (read_pos (ring_of s))\<rparr>)"
| r_none: "c_r s = R_Loaded rp \<Longrightarrow> rp = write_pos (ring_of s) \<Longrightarrow> qstep s (s\<lparr>c_r := R_Idle\<rparr>)"
| r_some: "c_r s = R_Loaded rp \<Longrightarrow> rp \<noteq> write_pos (ring_of s) \<Longrightarrow> qstep s (s\<lparr>c_r := R_Some rp\<rparr>)"
| r_read: "c_r s = R_Some rp \<Longrightarrow>
     qstep s (s\<lparr>c_r := R_Read rp (ring_buf (ring_of s) ! unat (rp AND RING_MASK))\<rparr>)"
| r_store: "c_r s = R_Read rp m \<Longrightarrow>
     qstep s ((set_ring s ((ring_of s)\<lparr>read_pos := rp + 1\<rparr>))\<lparr>c_r := R_Popped m, received := received s @ [m]\<rparr>)"
| r_empty1: "c_r s = R_Popped m \<Longrightarrow> qstep s (s\<lparr>c_r := R_Empty1 (read_pos (ring_of s)) m\<rparr>)"
| r_more: "c_r s = R_Empty1 rp m \<Longrightarrow> rp \<noteq> write_pos (ring_of s) \<Longrightarrow> qstep s (s\<lparr>c_r := R_Idle\<rparr>)"
| r_empty: "c_r s = R_Empty1 rp m \<Longrightarrow> rp = write_pos (ring_of s) \<Longrightarrow> qstep s (s\<lparr>c_r := R_Clear m\<rparr>)"
| r_clear: "c_r s = R_Clear m \<Longrightarrow>
     qstep s (s\<lparr>c_q := (c_q s)\<lparr>wake_bits := wake_bits (c_q s) AND NOT QS_POSTMESSAGE\<rparr>, c_r := R_Idle\<rparr>)"

definition conc_init :: "u32 \<Rightarrow> conc" where
  "conc_init tid = \<lparr>c_q = init_at tid, c_p = P_Idle, c_r = R_Idle, sent = [], received = []\<rparr>"

inductive reachable :: "u32 \<Rightarrow> conc \<Rightarrow> bool" for tid where
  reach_init: "reachable tid (conc_init tid)"
| reach_step: "reachable tid s \<Longrightarrow> qstep s s' \<Longrightarrow> reachable tid s'"

fun poster_inv :: "message_ring \<Rightarrow> poster \<Rightarrow> bool" where
  "poster_inv r (P_Loaded m wp) = (wp = write_pos r)"
| "poster_inv r (P_Room m wp) = (wp = write_pos r \<and> unat (wp - read_pos r) < RING_CAPACITY)"
| "poster_inv r (P_Written m wp) =
     (wp = write_pos r \<and> unat (wp - read_pos r) < RING_CAPACITY \<and> ring_buf r ! unat (wp AND RING_MASK) = m)"
| "poster_inv r _ = True"

fun reader_inv :: "message_ring \<Rightarrow> reader \<Rightarrow> bool" where
  "reader_inv r (R_Loaded rp) = (rp = read_pos r)"
| "reader_inv r (R_Some rp) = (rp = read_pos r \<and> ring_list r \<noteq> [])"
| "reader_inv r (R_Read rp m) = (rp = read_pos r \<and> ring_list r \<noteq> [] \<and> m = hd (ring_list r))"
| "reader_inv r _ = True"

definition conc_inv :: "conc \<Rightarrow> bool" where
  "conc_inv s \<longleftrightarrow> ring_inv (ring_of s) \<and> poster_inv (ring_of s) (c_p s) \<and>
     reader_inv (ring_of s) (c_r s) \<and> sent s = received s @ ring_list (ring_of s)"

subsection \<open>Effect of the single accesses on the list\<close>

lemma ring_write_free:
  assumes "ring_inv r" and "unat (write_pos r - read_pos r) < RING_CAPACITY"
  shows "ring_list (r\<lparr>ring_buf := (ring_buf r)[unat (write_pos r AND RING_MASK) := m]\<rparr>) = ring_list r"
  using window_update[OF assms(2), of "ring_buf r" "read_pos r" m] by (simp add: ring_list_def)

lemma ring_publish:
  assumes "ring_inv r" and "unat (write_pos r - read_pos r) < RING_CAPACITY"
  shows "ring_list (r\<lparr>write_pos := write_pos r + 1\<rparr>) =
           ring_list r @ [ring_buf r ! unat (write_pos r AND RING_MASK)]"
    and "ring_inv (r\<lparr>write_pos := write_pos r + 1\<rparr>)"
  using assms unat_write_inc[of "write_pos r" "read_pos r"]
  by (simp_all add: ring_list_def ring_inv_def window_snoc)

lemma ring_list_nonempty:
  "ring_list r \<noteq> [] \<Longrightarrow> hd (ring_list r) = ring_buf r ! unat (read_pos r AND RING_MASK)"
  by (cases "unat (write_pos r - read_pos r)") (simp_all add: ring_list_def window_Cons)

lemma ring_consume:
  assumes "ring_inv r" and "ring_list r \<noteq> []"
  shows "ring_list (r\<lparr>read_pos := read_pos r + 1\<rparr>) = tl (ring_list r)"
    and "ring_inv (r\<lparr>read_pos := read_pos r + 1\<rparr>)"
    and "unat (wp - read_pos r) < RING_CAPACITY \<Longrightarrow> wp = write_pos r \<Longrightarrow>
         unat (wp - (read_pos r + 1)) < RING_CAPACITY"
proof -
  have ne: "write_pos r \<noteq> read_pos r" using assms(2) ring_is_empty_iff[of r] by (auto simp: ring_is_empty_def)
  have "snd (ring_pop r) = r\<lparr>read_pos := read_pos r + 1\<rparr>" using ne by (simp add: ring_pop_def Let_def)
  then show "ring_list (r\<lparr>read_pos := read_pos r + 1\<rparr>) = tl (ring_list r)"
    "ring_inv (r\<lparr>read_pos := read_pos r + 1\<rparr>)"
    using ring_pop_refines(2,3)[OF assms(1)] by simp_all
  show "unat (wp - (read_pos r + 1)) < RING_CAPACITY"
    if "unat (wp - read_pos r) < RING_CAPACITY" "wp = write_pos r"
    using that unat_read_inc[OF ne] by simp
qed

subsection \<open>The invariant of the interleaving\<close>

lemma reader_inv_cong:
  "read_pos r' = read_pos r \<Longrightarrow> ring_list r' = ring_list r \<Longrightarrow> reader_inv r' c = reader_inv r c"
  by (cases c) auto

lemma reader_inv_append:
  "reader_inv r c \<Longrightarrow> read_pos r' = read_pos r \<Longrightarrow> ring_list r' = ring_list r @ ms \<Longrightarrow> reader_inv r' c"
  by (cases c) auto

lemma poster_inv_consume:
  assumes "poster_inv r c" and "ring_inv r" and "ring_list r \<noteq> []"
  shows "poster_inv (r\<lparr>read_pos := read_pos r + 1\<rparr>) c"
  using assms(1) ring_consume(3)[OF assms(2,3), of "write_pos r"] by (cases c) auto

lemma qstep_inv:
  assumes "qstep s s'" and "conc_inv s"
  shows "conc_inv s'"
  using assms
proof (induction rule: qstep.induct)
  case (p_write s m wp)
  then have *: "ring_inv (ring_of s)" "wp = write_pos (ring_of s)"
      "unat (write_pos (ring_of s) - read_pos (ring_of s)) < RING_CAPACITY"
    by (auto simp: conc_inv_def)
  note w = ring_write_free[OF *(1,3), of m]
  let ?r = "(ring_of s)\<lparr>ring_buf := (ring_buf (ring_of s))[unat (wp AND RING_MASK) := m]\<rparr>"
  have "reader_inv ?r (c_r s)" using p_write w *(2) reader_inv_cong[of ?r "ring_of s" "c_r s"]
    by (simp add: conc_inv_def)
  with p_write w * ring_index_lt[of wp] show ?case by (simp add: conc_inv_def set_ring_def ring_inv_def)
next
  case (p_store s m wp)
  then have *: "ring_inv (ring_of s)" "wp = write_pos (ring_of s)"
      "unat (write_pos (ring_of s) - read_pos (ring_of s)) < RING_CAPACITY"
      "ring_buf (ring_of s) ! unat (wp AND RING_MASK) = m"
    by (auto simp: conc_inv_def)
  note w = ring_publish[OF *(1,3)]
  let ?r = "(ring_of s)\<lparr>write_pos := wp + 1\<rparr>"
  have "reader_inv ?r (c_r s)"
    using p_store w *(2) reader_inv_append[of "ring_of s" "c_r s" ?r] by (simp add: conc_inv_def)
  with p_store w *(2,4) show ?case by (simp add: conc_inv_def set_ring_def)
next
  case (r_store s rp m)
  then have *: "ring_inv (ring_of s)" "rp = read_pos (ring_of s)" "ring_list (ring_of s) \<noteq> []"
      "m = hd (ring_list (ring_of s))" "poster_inv (ring_of s) (c_p s)"
    by (auto simp: conc_inv_def)
  then show ?case
    using r_store ring_consume(1,2)[OF *(1,3)] poster_inv_consume[OF *(5,1,3)]
    by (simp add: conc_inv_def set_ring_def)
next
  case (r_some s rp)
  then show ?case using ring_is_empty_iff[of "ring_of s"] by (auto simp: conc_inv_def ring_is_empty_def)
next
  case (r_read s rp)
  then show ?case using ring_list_nonempty[of "ring_of s"] by (simp add: conc_inv_def)
qed (auto simp: conc_inv_def)

lemma conc_init_inv: "conc_inv (conc_init tid)"
  by (simp add: conc_inv_def conc_init_def init_at_ring)

lemma reachable_inv: "reachable tid s \<Longrightarrow> conc_inv s"
  by (induction rule: reachable.induct) (auto intro: conc_init_inv qstep_inv)

subsection \<open>Complete calls inside an interleaving\<close>

lemma reach_six:
  assumes "reachable tid s" and "qstep s s1" and "qstep s1 s2" and "qstep s2 s3" and "qstep s3 s4"
    and "qstep s4 s5" and "qstep s5 s6"
  shows "reachable tid s6"
  using reach_step[OF reach_step[OF reach_step[OF reach_step[OF reach_step[OF reach_step[OF
    assms(1,2)] assms(3)] assms(4)] assms(5)] assms(6)] assms(7)] .

lemma post_runs:
  assumes "reachable tid s" and "c_p s = P_Idle" and "length (ring_list (ring_of s)) < RING_CAPACITY"
  shows "\<exists>s'. reachable tid s' \<and> c_p s' = P_Idle \<and> c_r s' = c_r s \<and> received s' = received s \<and>
           sent s' = sent s @ [m] \<and> wake_bits (c_q s') AND QS_POSTMESSAGE \<noteq> 0 \<and>
           read_pos (ring_of s') = read_pos (ring_of s)"
proof -
  let ?r = "ring_of s" let ?wp = "write_pos ?r"
  let ?b = "(ring_buf ?r)[unat (?wp AND RING_MASK) := m]"
  have room: "unat (?wp - read_pos ?r) < RING_CAPACITY" using assms(3) by (simp add: ring_list_def)
  let ?s1 = "s\<lparr>c_p := P_Start m\<rparr>" let ?s2 = "s\<lparr>c_p := P_Loaded m ?wp\<rparr>" let ?s3 = "s\<lparr>c_p := P_Room m ?wp\<rparr>"
  let ?s4 = "(set_ring s (?r\<lparr>ring_buf := ?b\<rparr>))\<lparr>c_p := P_Written m ?wp\<rparr>"
  let ?s5 = "(set_ring s (?r\<lparr>ring_buf := ?b, write_pos := ?wp + 1\<rparr>))\<lparr>c_p := P_Published, sent := sent s @ [m]\<rparr>"
  let ?s6 = "?s5\<lparr>c_q := (c_q ?s5)\<lparr>wake_bits := wake_bits (c_q ?s5) OR QS_POSTMESSAGE\<rparr>, c_p := P_Idle\<rparr>"
  have q1: "qstep s ?s1" using p_call[of s m] assms(2) by simp
  have q2: "qstep ?s1 ?s2" using p_load_wp[of ?s1 m] by simp
  have q3: "qstep ?s2 ?s3" using p_room[of ?s2 m ?wp] room by simp
  have q4: "qstep ?s3 ?s4" using p_write[of ?s3 m ?wp] by (simp add: set_ring_def)
  have q5: "qstep ?s4 ?s5" using p_store[of ?s4 m ?wp] by (simp add: set_ring_def)
  have q6: "qstep ?s5 ?s6" using p_wake[of ?s5] by simp
  have "reachable tid ?s6" by (rule reach_six[OF assms(1) q1 q2 q3 q4 q5 q6])
  moreover have "wake_bits (c_q ?s6) AND QS_POSTMESSAGE \<noteq> 0" using QS_or by simp
  ultimately show ?thesis by (intro exI[of _ ?s6]) (simp add: set_ring_def)
qed

lemma get_runs_until_clear:
  assumes "reachable tid s" and "c_r s = R_Idle" and "ring_list (ring_of s) = [m]"
  shows "\<exists>s' m'. reachable tid s' \<and> c_p s' = c_p s \<and> c_r s' = R_Clear m' \<and> ring_list (ring_of s') = []"
proof -
  let ?r = "ring_of s" let ?rp = "read_pos ?r" let ?m = "ring_buf ?r ! unat (?rp AND RING_MASK)"
  have inv: "ring_inv ?r" using reachable_inv[OF assms(1)] by (simp add: conc_inv_def)
  have ne: "?rp \<noteq> write_pos ?r" using assms(3) ring_is_empty_iff[of ?r] by (auto simp: ring_is_empty_def)
  have emp: "ring_list (?r\<lparr>read_pos := ?rp + 1\<rparr>) = []" using ring_consume(1)[OF inv] assms(3) by simp
  then have eq: "?rp + 1 = write_pos ?r"
    using ring_is_empty_iff[of "?r\<lparr>read_pos := ?rp + 1\<rparr>"] by (simp add: ring_is_empty_def)
  let ?s1 = "s\<lparr>c_r := R_Loaded ?rp\<rparr>" let ?s2 = "s\<lparr>c_r := R_Some ?rp\<rparr>" let ?s3 = "s\<lparr>c_r := R_Read ?rp ?m\<rparr>"
  let ?s4 = "(set_ring s (?r\<lparr>read_pos := ?rp + 1\<rparr>))\<lparr>c_r := R_Popped ?m, received := received s @ [?m]\<rparr>"
  let ?s5 = "?s4\<lparr>c_r := R_Empty1 (?rp + 1) ?m\<rparr>" let ?s6 = "?s4\<lparr>c_r := R_Clear ?m\<rparr>"
  have q1: "qstep s ?s1" using r_load_rp[of s] assms(2) by simp
  have q2: "qstep ?s1 ?s2" using r_some[of ?s1 ?rp] ne by simp
  have q3: "qstep ?s2 ?s3" using r_read[of ?s2 ?rp] by simp
  have q4: "qstep ?s3 ?s4" using r_store[of ?s3 ?rp ?m] by (simp add: set_ring_def)
  have q5: "qstep ?s4 ?s5" using r_empty1[of ?s4 ?m] by (simp add: set_ring_def)
  have q6: "qstep ?s5 ?s6" using r_empty[of ?s5 "?rp + 1" ?m] eq by (simp add: set_ring_def)
  have "reachable tid ?s6" by (rule reach_six[OF assms(1) q1 q2 q3 q4 q5 q6])
  then show ?thesis using emp by (intro exI[of _ ?s6] exI[of _ ?m]) (simp add: set_ring_def)
qed

lemma sent_received_ring:
  "reachable tid s \<Longrightarrow> ring_list (ring_of s) = drop (length (received s)) (sent s)"
  by (drule reachable_inv) (simp add: conc_inv_def)

subsection \<open>Properties of the queue\<close>



text \<open>
  C1. However the accesses of one poster and one reader interleave, the messages received are
  a prefix of the messages sent, and what lies between is exactly the content of the ring:
  nothing is lost, duplicated or reordered, and the ring never holds more than its capacity.
\<close>

theorem ring_spsc_fifo:
  assumes "reachable tid s"
  shows "sent s = received s @ ring_list (posted (c_q s)) \<and>
         length (ring_list (posted (c_q s))) \<le> RING_CAPACITY"
  using reachable_inv[OF assms] by (simp add: conc_inv_def ring_inv_def ring_list_def)

theorem ring_spsc_fifo_witness:
  "\<exists>s. reachable 7 s \<and> sent s = [zero_message] \<and> sent s = received s @ ring_list (posted (c_q s))"
proof -
  obtain s where "reachable 7 s" "sent s = [zero_message]"
    using post_runs[OF reach_init, of 7 zero_message]
    by (auto simp: conc_init_def init_at_ring RING_CAPACITY_def)
  with ring_spsc_fifo[of 7 s] show ?thesis by blast
qed

text \<open>
  C40. Wake-up can be lost: \<^verbatim>\<open>get\<close> decides that the ring is empty, a complete \<^verbatim>\<open>post\<close> runs, and
  \<^verbatim>\<open>get\<close> then clears the wake bit that \<^verbatim>\<open>post\<close> has just set.  Both calls have returned, a message
  is in the ring and \<^const>\<open>QS_POSTMESSAGE\<close> is not set.
\<close>

theorem wake_bit_can_be_lost:
  "\<exists>s. reachable tid s \<and> c_p s = P_Idle \<and> c_r s = R_Idle \<and> ring_list (posted (c_q s)) = [m2] \<and>
       wake_bits (c_q s) AND QS_POSTMESSAGE = 0"
proof -
  obtain s1 where s1: "reachable tid s1" "c_p s1 = P_Idle" "c_r s1 = R_Idle" "ring_list (ring_of s1) = [m2]"
    using post_runs[OF reach_init, of tid m2] sent_received_ring[of tid]
    by (auto simp: conc_init_def init_at_ring RING_CAPACITY_def)
  from get_runs_until_clear[OF s1(1,3,4)] s1(2) obtain s2 m' where
    s2: "reachable tid s2" "c_p s2 = P_Idle" "c_r s2 = R_Clear m'" "ring_list (ring_of s2) = []" by auto
  then obtain s3 where s3: "reachable tid s3" "c_p s3 = P_Idle" "c_r s3 = R_Clear m'"
      "sent s3 = sent s2 @ [m2]" "received s3 = received s2"
    using post_runs[OF s2(1,2), of m2] by (auto simp: RING_CAPACITY_def)
  have r3: "ring_list (ring_of s3) = [m2]"
    using sent_received_ring[OF s3(1)] sent_received_ring[OF s2(1)] s2(4) s3(4,5) reachable_inv[OF s2(1)]
    by (simp add: conc_inv_def)
  let ?s4 = "s3\<lparr>c_q := (c_q s3)\<lparr>wake_bits := wake_bits (c_q s3) AND NOT QS_POSTMESSAGE\<rparr>, c_r := R_Idle\<rparr>"
  have "reachable tid ?s4" using s3(1) r_clear[OF s3(3)] by (rule reach_step)
  then show ?thesis using s3(2) r3 QS_clear by (intro exI[of _ ?s4]) simp
qed

end
