(* ===== verification/Objects.thy ===== *)
theory Objects
  imports Slab
begin

text \<open>
  \<^verbatim>\<open>src/rust/src/triskelion/objects.rs\<close>: the per-process handle table with its reference-counted
  Unix descriptors, and the global server state that owns processes and threads.  Operations
  that close descriptors return the list of \<^verbatim>\<open>libc::close\<close> calls they make.  The handle table is a
  client of the slab interface; its proofs use only the laws of that interface.
\<close>

subsection \<open>Handle entries and mappings\<close>

record handle_entry =
  object_id :: u64
  he_fd :: "fd option"
  obj_type :: u32
  access :: u32
  options :: u32

definition entry_new :: "u64 \<Rightarrow> handle_entry" where
  "entry_new oid = \<lparr>object_id = oid, he_fd = None, obj_type = 0, access = 0, options = 0\<rparr>"

definition with_fd :: "u64 \<Rightarrow> fd \<Rightarrow> u32 \<Rightarrow> u32 \<Rightarrow> u32 \<Rightarrow> handle_entry" where
  "with_fd oid f ty acc opts = \<lparr>object_id = oid, he_fd = Some f, obj_type = ty, access = acc, options = opts\<rparr>"

record mapping_info =
  mi_fd :: fd
  mi_size :: u64
  mi_flags :: u32
  pe_image_info :: "bytes option"
  nt_name :: "bytes option"
  shared_fd :: "fd option"

text \<open>\<^verbatim>\<open>Drop for MappingInfo\<close>: the descriptors closed when a mapping goes away.\<close>

definition mapping_drop :: "mapping_info \<Rightarrow> fd list" where
  "mapping_drop m = (if mi_fd m \<ge> 0 then [mi_fd m] else []) @
     (case shared_fd m of Some sfd \<Rightarrow> if sfd \<ge> 0 then [sfd] else [] | None \<Rightarrow> [])"

subsection \<open>HandleTable\<close>

record handle_table =
  ht_slab :: "handle_entry heap_slab"
  fd_refcounts :: "fd \<rightharpoonup> u32"

definition handle_table_new :: handle_table where
  "handle_table_new = \<lparr>ht_slab = skip_index_zero (with_capacity 64), fd_refcounts = Map.empty\<rparr>"

definition allocate :: "handle_table \<Rightarrow> u64 \<Rightarrow> u32 \<times> handle_table" where
  "allocate t oid =
     (let ((idx, _), sl) = insert_bump (ht_slab t) (entry_new oid) in
      (push_bit 2 idx, t\<lparr>ht_slab := sl\<rparr>))"

text \<open>\<^verbatim>\<open>*self.fd_refcounts.entry(fd).or_insert(0) += 1\<close>\<close>

definition incref :: "fd \<Rightarrow> (fd \<rightharpoonup> u32) \<Rightarrow> (fd \<rightharpoonup> u32)" where
  "incref f m = m(f \<mapsto> (case m f of None \<Rightarrow> 0 | Some c \<Rightarrow> c) + 1)"

definition track_fd :: "handle_entry \<Rightarrow> (fd \<rightharpoonup> u32) \<Rightarrow> (fd \<rightharpoonup> u32)" where
  "track_fd e m = (case he_fd e of Some f \<Rightarrow> incref f m | None \<Rightarrow> m)"

definition allocate_full :: "handle_table \<Rightarrow> handle_entry \<Rightarrow> u32 \<times> handle_table" where
  "allocate_full t e =
     (let rc = track_fd e (fd_refcounts t);
          ((idx, _), sl) = insert_bump (ht_slab t) e in
      (push_bit 2 idx, t\<lparr>fd_refcounts := rc, ht_slab := sl\<rparr>))"

definition any_entry_with_fd :: "handle_entry heap_slab \<Rightarrow> fd \<Rightarrow> bool" where
  "any_entry_with_fd sl f = (\<exists>e\<in>set (slab_iter sl). he_fd e = Some f)"

text \<open>
  The reference release shared by \<^verbatim>\<open>close\<close> and \<^verbatim>\<open>insert_at\<close>: the new counts and the descriptors
  closed, given the slab that is scanned for an untracked descriptor.
\<close>

definition release_fd :: "handle_entry heap_slab \<Rightarrow> fd \<Rightarrow> (fd \<rightharpoonup> u32) \<Rightarrow> fd list \<times> (fd \<rightharpoonup> u32)" where
  "release_fd sl f m =
     (case m f of
        Some count \<Rightarrow> (let c = count - 1 in
                       if c = 0 then ([f], m(f := None)) else ([], m(f \<mapsto> c)))
      | None \<Rightarrow> (if \<not> any_entry_with_fd sl f then [f] else [], m))"

definition ht_close :: "handle_table \<Rightarrow> u32 \<Rightarrow> ((handle_entry option \<times> fd list) \<times> handle_table) option" where
  "ht_close t h = do {
     (r, sl) \<leftarrow> remove_unchecked (ht_slab t) (drop_bit 2 h);
     (case r of
        None \<Rightarrow> Some ((None, []), t\<lparr>ht_slab := sl\<rparr>)
      | Some e \<Rightarrow>
          (case he_fd e of
             None \<Rightarrow> Some ((Some e, []), t\<lparr>ht_slab := sl\<rparr>)
           | Some f \<Rightarrow> (let (closed, rc) = release_fd sl f (fd_refcounts t) in
                        Some ((Some e, closed), t\<lparr>ht_slab := sl, fd_refcounts := rc\<rparr>)))) }"

definition ht_get :: "handle_table \<Rightarrow> u32 \<Rightarrow> handle_entry option" where
  "ht_get t h = get_unchecked (ht_slab t) (drop_bit 2 h)"

definition slot_count :: "handle_table \<Rightarrow> nat" where
  "slot_count t = slab_capacity (ht_slab t)"

definition ht_get_mut :: "handle_table \<Rightarrow> u32 \<Rightarrow> (handle_entry \<Rightarrow> handle_entry) \<Rightarrow> handle_entry option \<times> handle_table" where
  "ht_get_mut t h f =
     (let (r, sl) = get_mut_unchecked (ht_slab t) (drop_bit 2 h) f in (r, t\<lparr>ht_slab := sl\<rparr>))"

definition ht_insert_at :: "handle_table \<Rightarrow> u32 \<Rightarrow> handle_entry \<Rightarrow> (fd list \<times> handle_table) option" where
  "ht_insert_at t h e =
     (let idx = drop_bit 2 h;
          (closed, rc) = (case get_unchecked (ht_slab t) idx of
             Some old \<Rightarrow> (case he_fd old of Some f \<Rightarrow> release_fd (ht_slab t) f (fd_refcounts t)
                                         | None \<Rightarrow> ([], fd_refcounts t))
           | None \<Rightarrow> ([], fd_refcounts t)) in do {
        (_, sl) \<leftarrow> insert_at (ht_slab t) idx e;
        Some (closed, t\<lparr>fd_refcounts := track_fd e rc, ht_slab := sl\<rparr>) })"

text \<open>
  The in-place replacement of a pipe end's descriptor in \<^verbatim>\<open>event_loop/pipes.rs\<close>
  (\<^verbatim>\<open>FSCTL_PIPE_DISCONNECT\<close>): the old descriptor is closed and the entry rewritten through
  \<^verbatim>\<open>get_mut\<close>, which leaves \<^verbatim>\<open>fd_refcounts\<close> as it was.
\<close>

definition pipe_replace_fd :: "handle_table \<Rightarrow> u32 \<Rightarrow> fd \<Rightarrow> fd list \<times> handle_table" where
  "pipe_replace_fd t h new =
     (let (r, t') = ht_get_mut t h (\<lambda>e. e\<lparr>he_fd := Some new\<rparr>) in
      (case r of Some e \<Rightarrow> (case he_fd e of Some old \<Rightarrow> [old] | None \<Rightarrow> []) | None \<Rightarrow> [], t'))"

subsection \<open>Processes, threads and the server state\<close>

record process =
  handles :: handle_table
  threads :: "u32 list"
  startup_info :: "bytes option"
  startup_env :: "bytes option"
  info_size :: u32
  machine :: u16
  startup_done :: bool
  claimed :: bool
  exit_code :: int
  socket_fd :: "fd option"
  peb :: u64
  exe_image_info :: "bytes option"
  idle_signaled :: bool
  parent_pid :: u32
  session_id :: u32

definition process_new :: "u32 \<Rightarrow> process" where
  "process_new pid =
     \<lparr>handles = handle_table_new, threads = [], startup_info = None, startup_env = None,
      info_size = 0, machine = 0x8664, startup_done = False, claimed = False, exit_code = 259,
      socket_fd = None, peb = 0, exe_image_info = None, idle_signaled = False, parent_pid = 0,
      session_id = 1\<rparr>"

record named_object_entry =
  no_object_id :: u64
  no_fd :: fd

record process_info_handle =
  target_pid :: u32
  pih_parent_pid :: u32
  ntsync_obj_fd :: fd

record job =
  job_processes :: "u32 list"
  num_processes :: u32
  total_processes :: u32
  limit_flags :: u32
  completion_port_handle :: "u32 option"
  completion_key :: u64

record thread =
  thr_pid :: u32
  suspend_count :: int

definition thread_new :: "u32 \<Rightarrow> thread" where
  "thread_new pid = \<lparr>thr_pid = pid, suspend_count = 0\<rparr>"

record server_state =
  processes :: "u32 \<rightharpoonup> process"
  srv_threads :: "u32 \<rightharpoonup> thread"
  process_info_handles :: "u32 \<rightharpoonup> process_info_handle"
  named_objects :: "string \<rightharpoonup> named_object_entry"
  mappings :: "u64 \<rightharpoonup> mapping_info"
  image_views :: "u32 \<times> u64 \<rightharpoonup> u64"
  unclaimed_pids :: "u32 list"
  next_ptid :: u32
  next_object_id :: u64
  atoms :: "u32 \<rightharpoonup> bytes \<times> int"
  atom_names :: "u16 list \<rightharpoonup> u32"
  next_atom :: u32

definition server_state_new :: server_state where
  "server_state_new =
     \<lparr>processes = Map.empty, srv_threads = Map.empty, process_info_handles = Map.empty,
      named_objects = Map.empty, mappings = Map.empty, image_views = Map.empty,
      unclaimed_pids = [], next_ptid = 0, next_object_id = 0x1000, atoms = Map.empty,
      atom_names = Map.empty, next_atom = 0xC000\<rparr>"

definition alloc_object_id :: "server_state \<Rightarrow> u64 \<times> server_state" where
  "alloc_object_id st = (let i = next_object_id st in (i, st\<lparr>next_object_id := next_object_id st + 1\<rparr>))"

definition PTID_OFFSET :: u32 where
  "PTID_OFFSET = 8"

definition alloc_ptid :: "u32 \<Rightarrow> u32 \<times> u32" where
  "alloc_ptid index = ((index + PTID_OFFSET) * 4, index + 1)"

definition create_process :: "server_state \<Rightarrow> u32 \<times> server_state" where
  "create_process st =
     (let (pid, nx) = alloc_ptid (next_ptid st) in
      (pid, st\<lparr>next_ptid := nx, processes := (processes st)(pid \<mapsto> process_new pid)\<rparr>))"

definition create_thread :: "server_state \<Rightarrow> u32 \<Rightarrow> u32 \<times> server_state" where
  "create_thread st pid =
     (let (tid, nx) = alloc_ptid (next_ptid st);
          st1 = st\<lparr>next_ptid := nx, srv_threads := (srv_threads st)(tid \<mapsto> thread_new pid)\<rparr> in
      (tid, case processes st1 pid of
              Some p \<Rightarrow> st1\<lparr>processes := (processes st1)(pid \<mapsto> p\<lparr>threads := threads p @ [tid]\<rparr>)\<rparr>
            | None \<Rightarrow> st1))"

subsection \<open>Counting the references to a descriptor\<close>

definition refs_of :: "('a \<Rightarrow> 'k option) \<Rightarrow> (u32 \<rightharpoonup> 'a) \<Rightarrow> 'k \<Rightarrow> nat" where
  "refs_of key m k = card {i. \<exists>v. m i = Some v \<and> key v = Some k}"

lemma refs_of_insert:
  "m i = None \<Longrightarrow> refs_of key (m(i \<mapsto> v)) k = refs_of key m k + (if key v = Some k then 1 else 0)"
proof -
  assume a: "m i = None"
  have "{j. \<exists>w. (m(i \<mapsto> v)) j = Some w \<and> key w = Some k} =
      (if key v = Some k then insert i {j. \<exists>w. m j = Some w \<and> key w = Some k}
       else {j. \<exists>w. m j = Some w \<and> key w = Some k})"
    using a by auto
  then show ?thesis using a by (simp add: refs_of_def)
qed

lemma refs_of_delete:
  assumes "m i = Some v"
  shows "refs_of key m k = refs_of key (m(i := None)) k + (if key v = Some k then 1 else 0)"
  using refs_of_insert[of "m(i := None)" i key v k] assms by (simp add: map_upd_triv)

lemma refs_of_pos: "0 < refs_of key m k \<longleftrightarrow> (\<exists>i v. m i = Some v \<and> key v = Some k)"
  by (auto simp: refs_of_def card_gt_0_iff)

locale counted_slab = slab_map invar lookup upper ins ins_at rem upd
  for invar :: "'s \<Rightarrow> bool" and lookup :: "'s \<Rightarrow> u32 \<Rightarrow> 'a option" and upper ins ins_at rem upd +
  fixes key :: "'a \<Rightarrow> 'k option"
begin

lemma refs_bound: "invar s \<Longrightarrow> refs_of key (lookup s) k \<le> unat (upper s)"
proof -
  assume a: "invar s"
  have "{i. \<exists>v. lookup s i = Some v \<and> key v = Some k} \<subseteq> {i. unat i < unat (upper s)}"
    using above[OF a] by (force simp: word_le_nat_alt not_le[symmetric])
  from card_mono[OF finite this] card_unat_less[of "unat (upper s)"] show ?thesis
    by (simp add: refs_of_def)
qed

lemma refs_ins:
  assumes "invar s" and "upper s \<noteq> FREE_END" and "ins s v = ((i, g), s')"
  shows "refs_of key (lookup s') k = refs_of key (lookup s) k + (if key v = Some k then 1 else 0)"
  using ins_law[OF assms] ins_fresh[OF assms] by (simp add: refs_of_insert)

lemma refs_rem:
  assumes "invar s" and "rem s i = Some (Some v, s')"
  shows "refs_of key (lookup s) k = refs_of key (lookup s') k + (if key v = Some k then 1 else 0)"
proof -
  have "lookup s i = Some v" "lookup s' = (lookup s)(i := None)"
    using rem_law[OF assms(1), of i] assms(2) by auto
  then show ?thesis by (simp add: refs_of_delete[of "lookup s" i v])
qed

lemma refs_ins_at:
  assumes "invar s" and "i \<noteq> FREE_END" and "ins_at s i v = Some (g, s')"
  shows "refs_of key (lookup s') k + (case lookup s i of Some w \<Rightarrow> if key w = Some k then 1 else 0 | None \<Rightarrow> 0)
           = refs_of key (lookup s) k + (if key v = Some k then 1 else 0)"
proof -
  have s': "lookup s' = ((lookup s)(i := None))(i \<mapsto> v)" using ins_at_law[OF assms(1,2), of v] assms(3) by auto
  have "refs_of key (lookup s') k = refs_of key ((lookup s)(i := None)) k + (if key v = Some k then 1 else 0)"
    unfolding s' by (rule refs_of_insert) simp
  then show ?thesis
    by (cases "lookup s i") (auto simp: fun_upd_idem dest: refs_of_delete[where key = key and k = k])
qed

lemma refs_upd:
  assumes "invar s" and "\<And>v. key (f v) = key v" and "upd s i f = (r, s')"
  shows "refs_of key (lookup s') k = refs_of key (lookup s) k"
proof -
  have "lookup s' = (lookup s)(i := map_option f (lookup s i))" using upd_law[OF assms(1,3)] by simp
  then have "(\<exists>v. lookup s' j = Some v \<and> key v = Some k) = (\<exists>v. lookup s j = Some v \<and> key v = Some k)" for j
    using assms(2) by (cases "j = i") (auto split: option.splits)
  then show ?thesis by (simp add: refs_of_def)
qed

end

interpretation hf: counted_slab heap_slab_inv get_unchecked bump insert_bump insert_at
    remove_unchecked get_mut_unchecked he_fd
  by unfold_locales

subsection \<open>The handle-table invariant\<close>

abbreviation fd_refs :: "handle_table \<Rightarrow> fd \<Rightarrow> nat" where
  "fd_refs t \<equiv> refs_of he_fd (get_unchecked (ht_slab t))"

definition refcounts_ok :: "(fd \<Rightarrow> nat) \<Rightarrow> (fd \<rightharpoonup> u32) \<Rightarrow> bool" where
  "refcounts_ok n m \<longleftrightarrow> (\<forall>f. case m f of None \<Rightarrow> n f = 0 | Some c \<Rightarrow> unat c = n f \<and> 0 < n f)"

definition ht_inv :: "handle_table \<Rightarrow> bool" where
  "ht_inv t \<longleftrightarrow> heap_slab_inv (ht_slab t) \<and> refcounts_ok (fd_refs t) (fd_refcounts t) \<and> 0 < bump (ht_slab t)"

text \<open>The descriptors some handle of the table refers to.\<close>

definition live_fds :: "handle_table \<Rightarrow> fd set" where
  "live_fds t = {f. 0 < fd_refs t f}"

lemma live_fds_iff: "f \<in> live_fds t \<longleftrightarrow> (\<exists>i e. get_unchecked (ht_slab t) i = Some e \<and> he_fd e = Some f)"
  by (simp add: live_fds_def refs_of_pos)

lemma track_fd_ok:
  assumes "refcounts_ok n m" and "\<And>f. n f + 1 < 2 ^ 32"
  shows "refcounts_ok (\<lambda>f. n f + (if he_fd e = Some f then 1 else 0)) (track_fd e m)"
  unfolding refcounts_ok_def
proof
  fix f
  from assms(1) have "case m f of None \<Rightarrow> n f = 0 | Some c \<Rightarrow> unat c = n f \<and> 0 < n f"
    by (simp add: refcounts_ok_def)
  then show "case track_fd e m f of None \<Rightarrow> n f + (if he_fd e = Some f then 1 else 0) = 0
      | Some c \<Rightarrow> unat c = n f + (if he_fd e = Some f then 1 else 0) \<and>
                 0 < n f + (if he_fd e = Some f then 1 else 0)"
    using assms(2)[of f] unat_inc_u32
    by (auto simp: track_fd_def incref_def split: option.splits if_splits)
qed

lemma release_fd_ok:
  assumes "refcounts_ok n m" and "0 < n f" and "release_fd sl f m = (closed, m')"
  shows "refcounts_ok (\<lambda>g. n g - (if g = f then 1 else 0)) m'"
    and "closed = (if n f = 1 then [f] else [])"
proof -
  from assms(1) have at: "case m g of None \<Rightarrow> n g = 0 | Some c \<Rightarrow> unat c = n g \<and> 0 < n g" for g
    by (simp add: refcounts_ok_def)
  obtain c where c: "m f = Some c" "unat c = n f" using at[of f] assms(2) by (auto split: option.splits)
  have c1: "unat (c - 1) = n f - 1" using c assms(2) by (simp add: unat_minus_one unat_gt_0[symmetric])
  have z: "(c - 1 = 0) = (n f = 1)" using unat_eq_zero[of "c - 1", unfolded c1] assms(2) by auto
  show "closed = (if n f = 1 then [f] else [])"
    using assms(3) c z by (auto simp: release_fd_def Let_def split: if_splits)
  have "m' = (if n f = 1 then m(f := None) else m(f \<mapsto> c - 1))"
    using assms(3) c z by (auto simp: release_fd_def Let_def split: if_splits)
  then show "refcounts_ok (\<lambda>g. n g - (if g = f then 1 else 0)) m'"
    unfolding refcounts_ok_def
  proof (intro allI)
    fix g
    show "case m' g of None \<Rightarrow> n g - (if g = f then 1 else 0) = 0
        | Some c \<Rightarrow> unat c = n g - (if g = f then 1 else 0) \<and> 0 < n g - (if g = f then 1 else 0)"
      if "m' = (if n f = 1 then m(f := None) else m(f \<mapsto> c - 1))"
      using that at[of g] c1 assms(2) by (cases "g = f") (auto split: option.splits)
  qed
qed

subsection \<open>Handle values\<close>

lemma unat_drop2: "unat (drop_bit 2 (w :: u32)) = unat w div 4"
  by (simp add: drop_bit_eq_div unat_div_distrib)

lemma handle_index: "unat idx < 2 ^ 30 \<Longrightarrow> drop_bit 2 (push_bit 2 idx :: u32) = idx"
proof -
  assume a: "unat idx < 2 ^ 30"
  have "unat (push_bit 2 idx) = unat idx * 4"
    using a by (simp add: push_bit_eq_mult unat_word_ariths)
  then have "unat (drop_bit 2 (push_bit 2 idx)) = unat idx"
    by (simp add: unat_drop2)
  then show ?thesis by (simp add: word_unat_eq_iff)
qed

lemma handle_low_bits: "push_bit 2 (idx :: u32) AND 3 = 0"
proof -
  have "(3 :: u32) = mask 2" by (simp add: mask_eq_exp_minus_1)
  then show ?thesis by (simp only: take_bit_eq_mask[symmetric]) (simp add: take_bit_push_bit)
qed

lemma handle_nonzero: "0 < idx \<Longrightarrow> unat idx < 2 ^ 30 \<Longrightarrow> push_bit 2 (idx :: u32) \<noteq> 0"
  using handle_index[of idx] by auto

lemma drop_bit_not_FREE_END: "drop_bit 2 (h :: u32) \<noteq> FREE_END"
proof
  assume "drop_bit 2 h = FREE_END"
  then have "unat (drop_bit 2 h) = 2 ^ 32 - 1" by (simp add: unat_FREE_END)
  then have "unat h div 4 = 2 ^ 32 - 1" by (simp add: unat_drop2)
  then show False using unat_u32_lt[of h] by simp
qed

subsection \<open>Every handle-table operation keeps the invariant\<close>

lemma ht_inv_room: "ht_inv t \<Longrightarrow> bump (ht_slab t) \<noteq> FREE_END \<Longrightarrow> fd_refs t f + 1 < 2 ^ 32"
  using hf.refs_bound[of "ht_slab t" f] not_FREE_END_unat[of "bump (ht_slab t)"]
  by (simp add: ht_inv_def)

lemma handle_table_new_inv: "ht_inv handle_table_new"
proof -
  have "get_unchecked (ht_slab handle_table_new) = Map.empty"
    by (simp add: handle_table_new_def skip_index_zero_get with_capacity_inv with_capacity_get)
  then show ?thesis
    by (simp add: ht_inv_def refcounts_ok_def refs_of_def handle_table_new_def
        skip_index_zero_inv with_capacity_inv) (simp add: skip_index_zero_def with_capacity_def)
qed

lemma allocate_full_correct:
  assumes "ht_inv t" and "unat (bump (ht_slab t)) < 2 ^ 30" and "allocate_full t e = (h, t')"
  shows "ht_inv t'" and "h \<noteq> 0" and "h AND 3 = 0" and "drop_bit 2 h = bump (ht_slab t)"
    and "get_unchecked (ht_slab t') = (get_unchecked (ht_slab t))(drop_bit 2 h \<mapsto> e)"
    and "ht_get t h = None" and "live_fds t' = live_fds t \<union> set_option (he_fd e)"
    and "bump (ht_slab t') = bump (ht_slab t) + 1"
proof -
  let ?b = "bump (ht_slab t)"
  have ne: "?b \<noteq> FREE_END" using assms(2) unat_FREE_END by auto
  have inv: "heap_slab_inv (ht_slab t)" "refcounts_ok (fd_refs t) (fd_refcounts t)" "0 < ?b"
    using assms(1) by (auto simp: ht_inv_def)
  obtain idx g sl where i: "insert_bump (ht_slab t) e = ((idx, g), sl)" by (metis surj_pair)
  note law = hs.ins_law[OF inv(1) ne i] and fresh = hs.ins_fresh[OF inv(1) ne i]
  have t': "h = push_bit 2 idx" "t' = t\<lparr>fd_refcounts := track_fd e (fd_refcounts t), ht_slab := sl\<rparr>"
    using assms(3) i by (auto simp: allocate_full_def)
  have b1: "unat (?b + 1) = unat ?b + 1" using not_FREE_END_unat[OF ne] by (rule unat_inc_u32)
  have refs: "fd_refs t' = (\<lambda>f. fd_refs t f + (if he_fd e = Some f then 1 else 0))"
    using hf.refs_ins[OF inv(1) ne i] by (auto simp: t')
  show "drop_bit 2 h = ?b" using law assms(2) by (simp add: t' handle_index)
  then show "get_unchecked (ht_slab t') = (get_unchecked (ht_slab t))(drop_bit 2 h \<mapsto> e)"
    "ht_get t h = None" "bump (ht_slab t') = ?b + 1"
    using law fresh by (simp_all add: t' ht_get_def)
  show "h AND 3 = 0" by (simp add: t' handle_low_bits)
  show "h \<noteq> 0" using inv(3) assms(2) law by (simp add: t' handle_nonzero)
  have "refcounts_ok (fd_refs t') (fd_refcounts t')"
    unfolding refs using track_fd_ok[OF inv(2) ht_inv_room[OF assms(1) ne]] by (simp add: t')
  moreover have "0 < ?b + 1" using b1 by (simp add: word_less_nat_alt)
  ultimately show "ht_inv t'" using law by (simp add: ht_inv_def t')
  show "live_fds t' = live_fds t \<union> set_option (he_fd e)" by (auto simp: live_fds_def refs)
qed

lemma allocate_eq_full: "allocate t oid = allocate_full t (entry_new oid)"
  by (simp add: allocate_def allocate_full_def track_fd_def entry_new_def Let_def)

lemma ht_close_correct:
  assumes "ht_inv t"
  shows "\<exists>closed t'. ht_close t h = Some ((ht_get t h, closed), t') \<and> ht_inv t' \<and>
           get_unchecked (ht_slab t') = (get_unchecked (ht_slab t))(drop_bit 2 h := None) \<and>
           distinct closed \<and> set closed = live_fds t - live_fds t' \<and>
           bump (ht_slab t') = bump (ht_slab t)"
proof -
  have inv: "heap_slab_inv (ht_slab t)" "refcounts_ok (fd_refs t) (fd_refcounts t)" "0 < bump (ht_slab t)"
    using assms by (auto simp: ht_inv_def)
  from hs.rem_law[OF inv(1), of "drop_bit 2 h"] obtain sl where
    sl: "remove_unchecked (ht_slab t) (drop_bit 2 h) = Some (ht_get t h, sl)" "heap_slab_inv sl"
      "get_unchecked sl = (get_unchecked (ht_slab t))(drop_bit 2 h := None)" "bump sl = bump (ht_slab t)"
    by (auto simp: ht_get_def)
  show ?thesis
  proof (cases "\<exists>e f. ht_get t h = Some e \<and> he_fd e = Some f")
    case True
    then obtain e f where e: "ht_get t h = Some e" "he_fd e = Some f" by auto
    obtain closed rc where rel: "release_fd sl f (fd_refcounts t) = (closed, rc)" by fastforce
    let ?t = "t\<lparr>ht_slab := sl, fd_refcounts := rc\<rparr>"
    have "fd_refs t g = fd_refs ?t g + (if g = f then 1 else 0)" for g
      using hf.refs_rem[OF inv(1), of "drop_bit 2 h" e sl g] sl(1) e by auto
    then have refs: "fd_refs ?t = (\<lambda>g. fd_refs t g - (if g = f then 1 else 0))" "0 < fd_refs t f"
      by (auto simp: fun_eq_iff)
    note rl = release_fd_ok[OF inv(2) refs(2) rel]
    have "set closed = live_fds t - live_fds ?t"
      unfolding rl(2) live_fds_def refs(1) using refs(2) by auto
    moreover have "ht_close t h = Some ((ht_get t h, closed), ?t)"
      using sl(1) e rel by (simp add: ht_close_def)
    moreover have "ht_inv ?t" using sl rl(1) inv(3) refs(1) by (simp add: ht_inv_def)
    ultimately show ?thesis using rl(2) sl(3,4) by (intro exI[of _ closed] exI[of _ ?t]) simp
  next
    case False
    let ?t = "t\<lparr>ht_slab := sl\<rparr>"
    have "fd_refs ?t f = fd_refs t f" for f
    proof (cases "ht_get t h")
      case None
      then show ?thesis using sl(3) by (simp add: ht_get_def fun_upd_idem)
    next
      case (Some e)
      with False sl(1) show ?thesis using hf.refs_rem[OF inv(1), of "drop_bit 2 h" e sl f] by simp
    qed
    then have refs: "fd_refs ?t = fd_refs t" by (rule ext)
    have "ht_close t h = Some ((ht_get t h, []), ?t)"
      using sl(1) False by (auto simp: ht_close_def split: option.splits)
    moreover have "ht_inv ?t" using sl inv refs by (simp add: ht_inv_def)
    moreover have "live_fds ?t = live_fds t" by (simp only: live_fds_def refs)
    ultimately show ?thesis using sl(3,4) by (intro exI[of _ "[]"] exI[of _ ?t]) simp
  qed
qed

lemma ht_get_mut_correct:
  assumes "ht_inv t" and "\<And>e. he_fd (f e) = he_fd e" and "ht_get_mut t h f = (r, t')"
  shows "r = ht_get t h" and "ht_inv t'" and "live_fds t' = live_fds t"
    and "get_unchecked (ht_slab t') = (get_unchecked (ht_slab t))(drop_bit 2 h := map_option f (ht_get t h))"
    and "bump (ht_slab t') = bump (ht_slab t)"
proof -
  have inv: "heap_slab_inv (ht_slab t)" using assms(1) by (simp add: ht_inv_def)
  obtain sl where g: "get_mut_unchecked (ht_slab t) (drop_bit 2 h) f = (r, sl)" and t': "t' = t\<lparr>ht_slab := sl\<rparr>"
    using assms(3) by (auto simp: ht_get_mut_def split: prod.splits)
  note law = hs.upd_law[OF inv g]
  have refs: "fd_refs t' = fd_refs t" using hf.refs_upd[OF inv assms(2) g] by (auto simp: t')
  show "r = ht_get t h" "bump (ht_slab t') = bump (ht_slab t)"
    "get_unchecked (ht_slab t') = (get_unchecked (ht_slab t))(drop_bit 2 h := map_option f (ht_get t h))"
    using law by (simp_all add: ht_get_def t')
  show "ht_inv t'" using assms(1) law refs by (simp add: ht_inv_def t')
  show "live_fds t' = live_fds t" by (simp only: live_fds_def refs)
qed

definition fd_of :: "handle_table \<Rightarrow> u32 \<Rightarrow> fd option" where
  "fd_of t h = Option.bind (ht_get t h) he_fd"

lemma ht_insert_at_core:
  assumes "ht_inv t" and "bump (ht_slab t) \<noteq> FREE_END"
  shows "\<exists>closed t'. ht_insert_at t h e = Some (closed, t') \<and> ht_inv t' \<and>
           get_unchecked (ht_slab t') = (get_unchecked (ht_slab t))(drop_bit 2 h \<mapsto> e) \<and>
           closed = (case fd_of t h of Some f \<Rightarrow> if fd_refs t f = 1 then [f] else [] | None \<Rightarrow> []) \<and>
           fd_refs t' = (\<lambda>g. fd_refs t g - (if fd_of t h = Some g then 1 else 0) + (if he_fd e = Some g then 1 else 0))"
proof -
  let ?i = "drop_bit 2 h" let ?n = "fd_refs t" let ?old = "fd_of t h"
  let ?rel = "case get_unchecked (ht_slab t) ?i of
      Some old \<Rightarrow> (case he_fd old of Some f \<Rightarrow> release_fd (ht_slab t) f (fd_refcounts t) | None \<Rightarrow> ([], fd_refcounts t))
    | None \<Rightarrow> ([], fd_refcounts t)"
  have inv: "heap_slab_inv (ht_slab t)" "refcounts_ok ?n (fd_refcounts t)" "0 < bump (ht_slab t)"
    using assms(1) by (auto simp: ht_inv_def)
  obtain closed rc where rel: "?rel = (closed, rc)" by fastforce
  have pos: "0 < ?n f" if "?old = Some f" for f
    using that unfolding refs_of_pos by (auto simp: fd_of_def ht_get_def bind_eq_Some_conv)
  have rl: "refcounts_ok (\<lambda>g. ?n g - (if ?old = Some g then 1 else 0)) rc \<and>
      closed = (case ?old of Some f \<Rightarrow> if ?n f = 1 then [f] else [] | None \<Rightarrow> [])"
  proof (cases ?old)
    case None
    then show ?thesis using rel inv(2) by (auto simp: fd_of_def ht_get_def split: option.splits)
  next
    case (Some f)
    then have "release_fd (ht_slab t) f (fd_refcounts t) = (closed, rc)"
      using rel by (auto simp: fd_of_def ht_get_def bind_eq_Some_conv)
    note rl = release_fd_ok[OF inv(2) pos[OF Some] this]
    have "(\<lambda>g. ?n g - (if ?old = Some g then 1 else 0)) = (\<lambda>g. ?n g - (if g = f then 1 else 0))"
      using Some by auto
    with rl Some show ?thesis by simp
  qed
  from hs.ins_at_law[OF inv(1) drop_bit_not_FREE_END, of h e] obtain g sl where
    sl: "insert_at (ht_slab t) ?i e = Some (g, sl)" "heap_slab_inv sl"
      "get_unchecked sl = (get_unchecked (ht_slab t))(?i \<mapsto> e)"
      "unat (bump sl) = max (unat (bump (ht_slab t))) (unat ?i + 1)" by auto
  let ?t = "t\<lparr>fd_refcounts := track_fd e rc, ht_slab := sl\<rparr>"
  have eq: "fd_refs ?t g + (if ?old = Some g then 1 else 0) = ?n g + (if he_fd e = Some g then 1 else 0)" for g
    using hf.refs_ins_at[OF inv(1) drop_bit_not_FREE_END sl(1), of g]
    by (auto simp: fd_of_def ht_get_def split: option.splits if_splits)
  have refs: "fd_refs ?t = (\<lambda>g. ?n g - (if ?old = Some g then 1 else 0) + (if he_fd e = Some g then 1 else 0))"
  proof
    fix g
    show "fd_refs ?t g = ?n g - (if ?old = Some g then 1 else 0) + (if he_fd e = Some g then 1 else 0)"
      using eq[of g] pos[of g] by (cases "?old = Some g") simp_all
  qed
  have "?n g - (if ?old = Some g then 1 else 0) + 1 < 2 ^ 32" for g using ht_inv_room[OF assms, of g] by simp
  from track_fd_ok[OF conjunct1[OF rl] this, of e] have "ht_inv ?t"
    using sl(2,4) inv(3) refs by (simp add: ht_inv_def word_less_nat_alt)
  moreover have "ht_insert_at t h e = Some (closed, ?t)"
    using rel sl(1) by (simp add: ht_insert_at_def)
  ultimately show ?thesis using rl sl(3) refs by (intro exI[of _ closed] exI[of _ ?t]) simp
qed

lemma ht_insert_at_correct:
  assumes "ht_inv t" and "bump (ht_slab t) \<noteq> FREE_END" and "fd_of t h = None \<or> fd_of t h \<noteq> he_fd e"
  shows "\<exists>closed t'. ht_insert_at t h e = Some (closed, t') \<and> ht_inv t' \<and>
           get_unchecked (ht_slab t') = (get_unchecked (ht_slab t))(drop_bit 2 h \<mapsto> e) \<and>
           set closed = live_fds t - live_fds t'"
proof -
  from ht_insert_at_core[OF assms(1,2), of h e] obtain closed t' where r:
    "ht_insert_at t h e = Some (closed, t')" "ht_inv t'"
    "get_unchecked (ht_slab t') = (get_unchecked (ht_slab t))(drop_bit 2 h \<mapsto> e)"
    "closed = (case fd_of t h of Some f \<Rightarrow> if fd_refs t f = 1 then [f] else [] | None \<Rightarrow> [])"
    "fd_refs t' = (\<lambda>g. fd_refs t g - (if fd_of t h = Some g then 1 else 0) + (if he_fd e = Some g then 1 else 0))"
    by blast
  have "set closed = live_fds t - live_fds t'"
    unfolding r(4) live_fds_def r(5) using assms(3) by (cases "fd_of t h") auto
  with r show ?thesis by blast
qed

subsection \<open>Process and thread identifiers\<close>

definition ptid_of :: "nat \<Rightarrow> u32" where
  "ptid_of i = of_nat ((i + 8) * 4)"

text \<open>
  Every id in use was issued by the shared counter, processes and threads never share an id,
  and the thread list of a process names threads that exist and belong to it.
\<close>

definition ids_inv :: "server_state \<Rightarrow> bool" where
  "ids_inv st \<longleftrightarrow>
     (\<forall>x \<in> dom (processes st) \<union> dom (srv_threads st). \<exists>i < unat (next_ptid st). x = ptid_of i) \<and>
     dom (processes st) \<inter> dom (srv_threads st) = {} \<and>
     (\<forall>pid p. processes st pid = Some p \<longrightarrow> distinct (threads p) \<and>
        (\<forall>tid \<in> set (threads p). map_option thr_pid (srv_threads st tid) = Some pid))"

lemma ptid_of_unat: "i + 8 < 2 ^ 30 \<Longrightarrow> unat (ptid_of i) = (i + 8) * 4"
  unfolding ptid_of_def by (rule unat_of_nat_u32) simp

lemma ptid_of_inj:
  assumes "i + 8 < 2 ^ 30" and "j + 8 < 2 ^ 30" and "ptid_of i = ptid_of j"
  shows "i = j"
proof -
  have "(i + 8) * 4 = (j + 8) * 4"
    using ptid_of_unat[OF assms(1)] ptid_of_unat[OF assms(2)] assms(3) by metis
  then show ?thesis by simp
qed

lemma alloc_ptid_eq: "alloc_ptid w = (ptid_of (unat w), w + 1)"
  by (simp add: alloc_ptid_def ptid_of_def PTID_OFFSET_def)

lemma server_state_new_ids: "ids_inv server_state_new"
  unfolding ids_inv_def server_state_new_def server_state.simps by simp

lemma alloc_ptid_fresh:
  assumes "ids_inv st" and "unat (next_ptid st) + 8 < 2 ^ 30" and "alloc_ptid (next_ptid st) = (x, nx)"
  shows "x \<notin> dom (processes st)" "x \<notin> dom (srv_threads st)" "unat x mod 4 = 0" "32 \<le> unat x"
    "unat nx = unat (next_ptid st) + 1" "x = ptid_of (unat (next_ptid st))"
proof -
  have x: "x = ptid_of (unat (next_ptid st))" "nx = next_ptid st + 1"
    using assms(3) by (simp_all add: alloc_ptid_eq)
  have "x \<notin> dom (processes st) \<union> dom (srv_threads st)"
  proof
    assume "x \<in> dom (processes st) \<union> dom (srv_threads st)"
    then obtain i where "i < unat (next_ptid st)" "x = ptid_of i" using assms(1) unfolding ids_inv_def by blast
    then show False using ptid_of_inj[of i "unat (next_ptid st)"] assms(2) x by simp
  qed
  then show "x \<notin> dom (processes st)" "x \<notin> dom (srv_threads st)" by auto
  show "x = ptid_of (unat (next_ptid st))" by (fact x(1))
  show "unat x mod 4 = 0" "32 \<le> unat x" using ptid_of_unat[OF assms(2)] x by simp_all
  show "unat nx = unat (next_ptid st) + 1" unfolding x(2) using assms(2) by (intro unat_inc_u32) simp
qed

lemma create_process_ids:
  assumes "ids_inv st" and "unat (next_ptid st) + 8 < 2 ^ 30" and "create_process st = (pid, st')"
  shows "ids_inv st'" and "pid \<notin> dom (processes st) \<union> dom (srv_threads st)"
    and "unat pid mod 4 = 0 \<and> 32 \<le> unat pid" and "processes st' pid = Some (process_new pid)"
proof -
  obtain nx where a: "alloc_ptid (next_ptid st) = (pid, nx)"
    and st': "st' = st\<lparr>next_ptid := nx, processes := (processes st)(pid \<mapsto> process_new pid)\<rparr>"
    using assms(3) by (auto simp: create_process_def split: prod.splits)
  note f = alloc_ptid_fresh[OF assms(1,2) a]
  show "pid \<notin> dom (processes st) \<union> dom (srv_threads st)" "unat pid mod 4 = 0 \<and> 32 \<le> unat pid"
    "processes st' pid = Some (process_new pid)" using f by (auto simp: st')
  have "\<forall>x \<in> dom (processes st') \<union> dom (srv_threads st'). \<exists>i < unat nx. x = ptid_of i"
    using assms(1) f(5,6) unfolding ids_inv_def st' by (auto simp: less_Suc_eq)
  moreover have "\<forall>p q. processes st' p = Some q \<longrightarrow> distinct (threads q) \<and>
      (\<forall>tid \<in> set (threads q). map_option thr_pid (srv_threads st' tid) = Some p)"
    using assms(1) unfolding ids_inv_def st' by (auto simp: process_new_def)
  ultimately show "ids_inv st'" using assms(1) f(2) unfolding ids_inv_def by (auto simp: st')
qed

lemma create_thread_ids:
  assumes "ids_inv st" and "unat (next_ptid st) + 8 < 2 ^ 30" and "create_thread st pid = (tid, st')"
  shows "ids_inv st'" and "tid \<notin> dom (processes st) \<union> dom (srv_threads st)"
    and "unat tid mod 4 = 0 \<and> 32 \<le> unat tid"
    and "srv_threads st' = (srv_threads st)(tid \<mapsto> thread_new pid)"
    and "dom (processes st') = dom (processes st)"
    and "\<And>p. processes st pid = Some p \<Longrightarrow> map_option threads (processes st' pid) = Some (threads p @ [tid])"
proof -
  let ?th = "(srv_threads st)"
  obtain nx where a: "alloc_ptid (next_ptid st) = (tid, nx)" by (cases "alloc_ptid (next_ptid st)") (use assms(3) in \<open>auto simp: create_thread_def Let_def\<close>)
  note f = alloc_ptid_fresh[OF assms(1,2) a]
  have st': "next_ptid st' = nx" "srv_threads st' = ?th(tid \<mapsto> thread_new pid)"
      "processes st' = (case processes st pid of None \<Rightarrow> processes st
         | Some p \<Rightarrow> (processes st)(pid \<mapsto> p\<lparr>threads := threads p @ [tid]\<rparr>))"
    using assms(3) a by (auto simp: create_thread_def Let_def split: option.splits)
  show "tid \<notin> dom (processes st) \<union> dom ?th" "unat tid mod 4 = 0 \<and> 32 \<le> unat tid"
    "srv_threads st' = ?th(tid \<mapsto> thread_new pid)" using f st' by auto
  show "map_option threads (processes st' pid) = Some (threads p @ [tid])" if "processes st pid = Some p" for p
    using that by (simp add: st')
  show d: "dom (processes st') = dom (processes st)" by (auto simp: st' split: option.splits if_splits)
  have 1: "\<forall>x \<in> dom (processes st') \<union> dom (srv_threads st'). \<exists>i < unat nx. x = ptid_of i"
  proof
    fix x assume "x \<in> dom (processes st') \<union> dom (srv_threads st')"
    then have "x = tid \<or> x \<in> dom (processes st) \<union> dom ?th" unfolding d by (auto simp: st' split: if_splits)
    then show "\<exists>i < unat nx. x = ptid_of i"
      using assms(1) f(5,6) unfolding ids_inv_def by (metis add.commute less_Suc_eq plus_1_eq_Suc)
  qed
  have 2: "distinct (threads q) \<and> (\<forall>t \<in> set (threads q). map_option thr_pid (srv_threads st' t) = Some p)"
    if "processes st' p = Some q" for p q
  proof -
    have old: "distinct (threads q') \<and> tid \<notin> set (threads q') \<and>
        (\<forall>t \<in> set (threads q'). map_option thr_pid (?th t) = Some p')" if "processes st p' = Some q'" for p' q'
    proof -
      from assms(1) that have *: "distinct (threads q')"
        "\<forall>t \<in> set (threads q'). map_option thr_pid (?th t) = Some p'" unfolding ids_inv_def by blast+
      moreover from *(2) f(2) have "tid \<notin> set (threads q')" by force
      ultimately show ?thesis by blast
    qed
    show ?thesis
      using that old[of p] by (auto simp: st' thread_new_def split: option.splits if_splits)
  qed
  show "ids_inv st'" unfolding ids_inv_def
    using 1 2 d assms(1) f(1) st' by (auto simp: ids_inv_def)
qed

subsection \<open>A table with one handle\<close>

definition one_handle :: handle_table where
  "one_handle = snd (allocate_full handle_table_new (with_fd 1 5 1 0 0))"

lemma handle_table_new_get: "get_unchecked (ht_slab handle_table_new) = Map.empty"
  by (simp add: handle_table_new_def skip_index_zero_get with_capacity_inv with_capacity_get)

lemma handle_table_new_bump: "bump (ht_slab handle_table_new) = 1"
  by (simp add: handle_table_new_def skip_index_zero_def with_capacity_def)

lemma one_handle_alloc: "allocate_full handle_table_new (with_fd 1 5 1 0 0) = (4, one_handle)"
  unfolding one_handle_def
  by (simp add: allocate_full_def handle_table_new_def skip_index_zero_def with_capacity_def
      insert_bump_def Let_def)

lemma one_handle_facts:
  "ht_inv one_handle" "get_unchecked (ht_slab one_handle) = [1 \<mapsto> with_fd 1 5 1 0 0]"
  "bump (ht_slab one_handle) = 2" "live_fds one_handle = {5}" "fd_refs one_handle 5 = 1"
proof -
  have b: "unat (bump (ht_slab handle_table_new)) < 2 ^ 30" by (simp add: handle_table_new_bump)
  note a = allocate_full_correct[OF handle_table_new_inv b one_handle_alloc]
  show "ht_inv one_handle" "bump (ht_slab one_handle) = 2" using a by (simp_all add: handle_table_new_bump)
  show m: "get_unchecked (ht_slab one_handle) = [1 \<mapsto> with_fd 1 5 1 0 0]"
    using a(5) by (simp add: handle_table_new_get)
  show "fd_refs one_handle 5 = 1" unfolding m by (simp add: refs_of_def with_fd_def)
  show "live_fds one_handle = {5}" unfolding live_fds_iff set_eq_iff m by (simp add: with_fd_def)
qed

subsection \<open>Properties of the handle table and the server state\<close>



text \<open>
  A new handle is non-zero, a multiple of four and was not valid before; afterwards it refers
  to exactly the given entry, every other handle is unchanged and the descriptor counts stay exact.
\<close>

theorem allocate_full_gives_fresh_handle:
  assumes "ht_inv t" and "unat (bump (ht_slab t)) < 2 ^ 30" and "allocate_full t e = (h, t')"
  shows "ht_inv t' \<and> h \<noteq> 0 \<and> h AND 3 = 0 \<and> ht_get t h = None \<and> ht_get t' h = Some e \<and>
         (\<forall>h'. drop_bit 2 h' \<noteq> drop_bit 2 h \<longrightarrow> ht_get t' h' = ht_get t h') \<and>
         live_fds t' = live_fds t \<union> set_option (he_fd e)"
  using allocate_full_correct[OF assms] by (simp add: ht_get_def)

theorem allocate_full_gives_fresh_handle_witness:
  "allocate_full handle_table_new (with_fd 1 5 1 0 0) = (4, one_handle) \<and> ht_inv one_handle \<and>
   ht_get one_handle 4 = Some (with_fd 1 5 1 0 0)"
  using allocate_full_gives_fresh_handle[OF handle_table_new_inv _ one_handle_alloc] one_handle_alloc
  by (simp add: handle_table_new_bump)

text \<open>
  Installing an inherited handle over an existing one closes exactly the descriptors that lose
  their last handle, provided the new entry does not carry the descriptor it replaces.
\<close>

theorem insert_at_closes_exactly_the_last_reference:
  assumes "ht_inv t" and "bump (ht_slab t) \<noteq> FREE_END" and "fd_of t h = None \<or> fd_of t h \<noteq> he_fd e"
  shows "\<exists>closed t'. ht_insert_at t h e = Some (closed, t') \<and> ht_inv t' \<and> ht_get t' h = Some e \<and>
           (\<forall>h'. drop_bit 2 h' \<noteq> drop_bit 2 h \<longrightarrow> ht_get t' h' = ht_get t h') \<and>
           set closed = live_fds t - live_fds t'"
  using ht_insert_at_correct[OF assms] unfolding ht_get_def by auto

theorem insert_at_closes_exactly_the_last_reference_witness:
  "\<exists>closed t'. ht_insert_at one_handle 4 (with_fd 1 6 1 0 0) = Some (closed, t') \<and> ht_inv t' \<and>
     ht_get t' 4 = Some (with_fd 1 6 1 0 0)"
  using insert_at_closes_exactly_the_last_reference[OF one_handle_facts(1), of 4 "with_fd 1 6 1 0 0"]
  by (auto simp: one_handle_facts fd_of_def ht_get_def with_fd_def FREE_END_def)

text \<open>
  When the entry installed over a handle carries the same descriptor and that handle was its only
  user, \<^verbatim>\<open>insert_at\<close> closes the descriptor although the new entry refers to it.
\<close>

theorem insert_at_closes_live_descriptor:
  assumes "ht_inv t" and "bump (ht_slab t) \<noteq> FREE_END" and "fd_of t h = Some f" and "he_fd e = Some f"
    and "fd_refs t f = 1"
  shows "\<exists>t'. ht_insert_at t h e = Some ([f], t') \<and> f \<in> live_fds t'"
  using ht_insert_at_core[OF assms(1,2), of h e] assms(3-5) by (auto simp: live_fds_def)

theorem insert_at_closes_live_descriptor_witness:
  "\<exists>t'. ht_insert_at one_handle 4 (with_fd 2 5 1 0 0) = Some ([5], t') \<and> 5 \<in> live_fds t'"
  using insert_at_closes_live_descriptor[OF one_handle_facts(1) _ _ _ one_handle_facts(5), of 4 "with_fd 2 5 1 0 0"]
  by (simp add: one_handle_facts fd_of_def ht_get_def with_fd_def FREE_END_def)

text \<open>
  Replacing the descriptor of a pipe handle in place leaves a stale count behind: when the kernel
  gives the old descriptor number to a later handle, closing that handle does not close it any more,
  although no handle of the table refers to it.
\<close>

theorem pipe_replace_fd_leaks:
  "\<exists>t1 h t2 t3. pipe_replace_fd one_handle 4 6 = ([5], t1) \<and> allocate_full t1 (with_fd 2 5 1 0 0) = (h, t2) \<and>
     ht_close t2 h = Some ((Some (with_fd 2 5 1 0 0), []), t3) \<and> \<not> any_entry_with_fd (ht_slab t3) 5"
  by (simp add: one_handle_def allocate_full_def handle_table_new_def skip_index_zero_def with_capacity_def
      insert_bump_def pipe_replace_fd_def ht_get_mut_def get_mut_unchecked_def ht_close_def release_fd_def
      remove_unchecked_def remove_inner_def with_fd_def track_fd_def incref_def any_entry_with_fd_def
      slab_iter_def map_filter_simps Let_def)

text \<open>
  Process and thread ids come from one counter: a new id is in use neither as a process nor as a
  thread, is a multiple of four and at least 32 (so \<^verbatim>\<open>(id >> 2) - 1\<close> does not underflow), and the new
  thread is listed exactly once by its process.
\<close>

theorem new_ids_are_fresh:
  assumes "ids_inv st" and "unat (next_ptid st) + 8 < 2 ^ 30"
  shows "(case create_process st of (pid, st') \<Rightarrow> ids_inv st' \<and> 32 \<le> unat pid \<and> unat pid mod 4 = 0 \<and>
            pid \<notin> dom (processes st) \<union> dom (srv_threads st) \<and> processes st' pid = Some (process_new pid)) \<and>
         (case create_thread st pid of (tid, st') \<Rightarrow> ids_inv st' \<and> 32 \<le> unat tid \<and> unat tid mod 4 = 0 \<and>
            tid \<notin> dom (processes st) \<union> dom (srv_threads st) \<and>
            srv_threads st' = (srv_threads st)(tid \<mapsto> thread_new pid) \<and>
            (\<forall>p. processes st pid = Some p \<longrightarrow> map_option threads (processes st' pid) = Some (threads p @ [tid])))"
proof -
  obtain p st1 where p: "create_process st = (p, st1)" by (cases "create_process st")
  obtain t st2 where t: "create_thread st pid = (t, st2)" by (cases "create_thread st pid")
  show ?thesis
    using create_process_ids[OF assms p] create_thread_ids[OF assms t] unfolding p t by auto
qed

theorem new_ids_are_fresh_witness:
  "ids_inv server_state_new \<and> fst (create_process server_state_new) = 32 \<and>
   ids_inv (snd (create_process server_state_new))"
  using new_ids_are_fresh[OF server_state_new_ids] server_state_new_ids
  by (auto simp: create_process_def alloc_ptid_def server_state_new_def PTID_OFFSET_def)

end
