(* ===== verification/Shm.thy ===== *)
theory Shm
  imports Slab Queue
begin

text \<open>
  \<^verbatim>\<open>src/rust/src/triskelion/shm.rs\<close>: one shared-memory region with a header and a fixed-size slot
  per thread.  The bytes of slot \<open>i\<close> are seen as the \<^typ>\<open>thread_queue\<close> that lives there.  The results
  of \<^verbatim>\<open>shm_open\<close>, \<^verbatim>\<open>ftruncate\<close> and \<^verbatim>\<open>mmap\<close> are arguments of \<^verbatim>\<open>create\<close>; slot allocation is a client of
  the interface \<^verbatim>\<open>slot_allocator\<close>.
\<close>

definition SHM_MAGIC :: u32 where "SHM_MAGIC = 0x54524953"
definition SHM_VERSION :: u32 where "SHM_VERSION = 1"
definition MAX_THREADS :: u32 where "MAX_THREADS = 8192"

record shm_header =
  magic :: u32
  version :: u32
  max_threads :: u32
  queue_size :: u32
  next_slot :: u32
  desktop_ready :: u8

definition HEADER_SIZE :: nat where "HEADER_SIZE = 64"
definition THREAD_QUEUE_SIZE :: nat where "THREAD_QUEUE_SIZE = 12480"

record shm_manager =
  shm_hdr :: shm_header
  shm_slots :: "u32 \<Rightarrow> thread_queue"
  shm_fd :: fd
  total_size :: nat
  shm_name :: string
  slot_map :: "u32 \<rightharpoonup> u32"
  shm_slab :: mmap_slab

datatype shm_error = ShmOpenFailed | FtruncateFailed | MmapFailed

definition shm_total_size :: nat where
  "shm_total_size = HEADER_SIZE + unat MAX_THREADS * THREAD_QUEUE_SIZE"

text \<open>
  \<open>mem\<close> is the content of the slots in the fresh mapping.  The left result carries the error and
  the descriptors closed on the way out.
\<close>

definition shm_create ::
    "string \<Rightarrow> fd \<Rightarrow> int \<Rightarrow> bool \<Rightarrow> (u32 \<Rightarrow> thread_queue) \<Rightarrow> (shm_error \<times> fd list) + shm_manager" where
  "shm_create prefix_hash open_ret ftruncate_ret mmap_ok mem =
     (if open_ret < 0 then Inl (ShmOpenFailed, [])
      else if ftruncate_ret \<noteq> 0 then Inl (FtruncateFailed, [open_ret])
      else if \<not> mmap_ok then Inl (MmapFailed, [open_ret])
      else Inr \<lparr>shm_hdr = \<lparr>magic = SHM_MAGIC, version = SHM_VERSION, max_threads = MAX_THREADS,
                           queue_size = of_nat THREAD_QUEUE_SIZE, next_slot = 0, desktop_ready = 0\<rparr>,
                shm_slots = mem, shm_fd = open_ret, total_size = shm_total_size,
                shm_name = ''/triskelion-'' @ prefix_hash, slot_map = Map.empty,
                shm_slab = mmap_new MAX_THREADS\<rparr>)"

definition slot_ptr :: "u32 \<Rightarrow> nat" where
  "slot_ptr slot = HEADER_SIZE + unat slot * THREAD_QUEUE_SIZE"

definition alloc_slot :: "shm_manager \<Rightarrow> u32 \<Rightarrow> (u32 option \<times> shm_manager) option" where
  "alloc_slot s tid =
     (case slot_map s tid of
        Some existing \<Rightarrow> Some (Some existing, s\<lparr>shm_slots := (shm_slots s)(existing := init_at tid)\<rparr>)
      | None \<Rightarrow> do {
          (r, sl) \<leftarrow> mmap_insert (shm_slab s);
          (case r of
             None \<Rightarrow> Some (None, s\<lparr>shm_slab := sl\<rparr>)
           | Some slot \<Rightarrow>
               Some (Some slot, s\<lparr>shm_slab := sl, shm_hdr := (shm_hdr s)\<lparr>next_slot := high_water sl\<rparr>,
                                 shm_slots := (shm_slots s)(slot := init_at tid),
                                 slot_map := (slot_map s)(tid \<mapsto> slot)\<rparr>)) })"

text \<open>\<^verbatim>\<open>write_bytes(ptr, 0, THREAD_QUEUE_SIZE)\<close>: the all-zero queue is \<^term>\<open>init_at 0\<close>.\<close>

definition free_slot :: "shm_manager \<Rightarrow> u32 \<Rightarrow> shm_manager" where
  "free_slot s tid =
     (case slot_map s tid of
        Some slot \<Rightarrow> s\<lparr>slot_map := (slot_map s)(tid := None),
                      shm_slots := (shm_slots s)(slot := init_at 0),
                      shm_slab := snd (mmap_remove (shm_slab s) slot)\<rparr>
      | None \<Rightarrow> s)"

definition get_queue :: "shm_manager \<Rightarrow> u32 \<Rightarrow> thread_queue option" where
  "get_queue s tid = map_option (shm_slots s) (slot_map s tid)"

definition set_desktop_ready :: "shm_manager \<Rightarrow> shm_manager" where
  "set_desktop_ready s = s\<lparr>shm_hdr := (shm_hdr s)\<lparr>desktop_ready := 1\<rparr>\<rparr>"

subsection \<open>Invariant\<close>

definition shm_inv :: "shm_manager \<Rightarrow> bool" where
  "shm_inv s \<longleftrightarrow> mmap_inv (shm_slab s) (ran (slot_map s)) \<and> inj_on (slot_map s) (dom (slot_map s)) \<and>
     m_cap (shm_slab s) = MAX_THREADS \<and> total_size s = shm_total_size \<and>
     (\<forall>tid slot. slot_map s tid = Some slot \<longrightarrow>
        slot < MAX_THREADS \<and> tq_thread_id (shm_slots s slot) = tid)"

lemma slot_ptr_in_region:
  "slot < MAX_THREADS \<Longrightarrow> HEADER_SIZE \<le> slot_ptr slot \<and> slot_ptr slot + THREAD_QUEUE_SIZE \<le> shm_total_size"
  by (simp add: slot_ptr_def shm_total_size_def THREAD_QUEUE_SIZE_def MAX_THREADS_def word_less_nat_alt)

lemma slot_ptr_disjoint:
  assumes "a \<noteq> b"
  shows "slot_ptr a + THREAD_QUEUE_SIZE \<le> slot_ptr b \<or> slot_ptr b + THREAD_QUEUE_SIZE \<le> slot_ptr a"
proof -
  have "unat a \<noteq> unat b" using assms by (simp add: word_unat_eq_iff)
  then consider "unat a + 1 \<le> unat b" | "unat b + 1 \<le> unat a" by linarith
  then show ?thesis
    by cases (auto simp: slot_ptr_def THREAD_QUEUE_SIZE_def)
qed

lemma shm_create_inv: "shm_create p f tr mm mem = Inr s \<Longrightarrow> shm_inv s"
  by (auto simp: shm_create_def shm_inv_def mmap_new_inv mmap_new_def[of MAX_THREADS] split: if_splits)
     (simp add: mmap_new_def[symmetric] mmap_new_inv)

lemma shm_inv_other:
  assumes "shm_inv s" and "slot_map s a = Some x" and "slot_map s b = Some y" and "a \<noteq> b"
  shows "x \<noteq> y"
  using assms inj_map_eq[of "slot_map s" a x b] by (auto simp: shm_inv_def)

lemma alloc_slot_correct:
  assumes "shm_inv s"
  shows "\<exists>r s'. alloc_slot s tid = Some (r, s') \<and> shm_inv s' \<and>
     (case r of
        Some slot \<Rightarrow> slot_map s' = (slot_map s)(tid \<mapsto> slot) \<and> get_queue s' tid = Some (init_at tid) \<and>
                     (\<forall>t. t \<noteq> tid \<longrightarrow> get_queue s' t = get_queue s t)
      | None \<Rightarrow> s' = s \<and> ran (slot_map s) = {i. i < MAX_THREADS})"
proof -
  have inv: "mmap_inv (shm_slab s) (ran (slot_map s))" "inj_on (slot_map s) (dom (slot_map s))"
    "m_cap (shm_slab s) = MAX_THREADS" "total_size s = shm_total_size"
    using assms by (auto simp: shm_inv_def)
  show ?thesis
  proof (cases "slot_map s tid")
    case (Some slot)
    let ?s = "s\<lparr>shm_slots := (shm_slots s)(slot := init_at tid)\<rparr>"
    have o: "slot_map s t \<noteq> Some slot" if "t \<noteq> tid" for t using shm_inv_other[OF assms _ Some that] by blast
    have "shm_inv ?s" using assms Some by (auto simp: shm_inv_def init_at_def dest: inj_map_eq)
    moreover have "get_queue ?s t = get_queue s t" if "t \<noteq> tid" for t
      using o[OF that] by (cases "slot_map s t") (auto simp: get_queue_def)
    ultimately show ?thesis using Some
      by (intro exI[of _ "Some slot"] exI[of _ ?s]) (auto simp: alloc_slot_def get_queue_def map_upd_triv)
  next
    case None
    from ms.alloc_law[OF inv(1)] obtain r sl where
      r: "mmap_insert (shm_slab s) = Some (r, sl)" "m_cap sl = MAX_THREADS" using inv(3) by auto
    show ?thesis
    proof (cases r)
      case rn: None
      then have sl: "sl = shm_slab s" "ran (slot_map s) = {i. i < MAX_THREADS}"
        using ms.alloc_law[OF inv(1)] r(1) inv(3) by auto
      show ?thesis using None r rn assms sl
        by (intro exI[of _ None] exI[of _ s]) (simp add: alloc_slot_def)
    next
      case rs: (Some slot)
      note ow = ms.alloc_owner[OF inv(1,2) None r(1)[unfolded rs]]
      have nr: "slot \<notin> ran (slot_map s)" using ms.alloc_law[OF inv(1)] r(1) rs by auto
      let ?s = "s\<lparr>shm_slab := sl, shm_hdr := (shm_hdr s)\<lparr>next_slot := high_water sl\<rparr>,
                  shm_slots := (shm_slots s)(slot := init_at tid), slot_map := (slot_map s)(tid \<mapsto> slot)\<rparr>"
      have "shm_inv ?s"
        using assms ow r(2) inv(3) nr by (auto simp: shm_inv_def init_at_def dest: ranI)
      moreover have "get_queue ?s t = get_queue s t" if "t \<noteq> tid" for t
        using that nr by (cases "slot_map s t") (auto simp: get_queue_def dest: ranI)
      ultimately show ?thesis using None r rs
        by (intro exI[of _ "Some slot"] exI[of _ ?s]) (auto simp: alloc_slot_def get_queue_def)
    qed
  qed
qed

lemma free_slot_correct:
  assumes "shm_inv s"
  shows "shm_inv (free_slot s tid)" and "slot_map (free_slot s tid) = (slot_map s)(tid := None)"
    and "t \<noteq> tid \<Longrightarrow> get_queue (free_slot s tid) t = get_queue s t"
proof -
  have inv: "mmap_inv (shm_slab s) (ran (slot_map s))" "inj_on (slot_map s) (dom (slot_map s))"
    using assms by (auto simp: shm_inv_def)
  have "shm_inv (free_slot s tid) \<and> slot_map (free_slot s tid) = (slot_map s)(tid := None) \<and>
     (t \<noteq> tid \<longrightarrow> get_queue (free_slot s tid) t = get_queue s t)"
  proof (cases "slot_map s tid")
    case None
    then show ?thesis using assms by (simp add: free_slot_def fun_upd_idem)
  next
    case (Some slot)
    have o: "slot_map s u \<noteq> Some slot" if "u \<noteq> tid" for u using shm_inv_other[OF assms _ Some that] by blast
    from ms.release_owner[OF inv Some] obtain sl where
      "mmap_remove (shm_slab s) slot = (True, sl)" "mmap_inv sl (ran ((slot_map s)(tid := None)))"
      "inj_on ((slot_map s)(tid := None)) (dom ((slot_map s)(tid := None)))" "m_cap sl = m_cap (shm_slab s)"
      by blast
    then have "shm_inv (free_slot s tid)"
      using assms Some o by (auto simp: shm_inv_def free_slot_def)
    moreover have "get_queue (free_slot s tid) t = get_queue s t" if "t \<noteq> tid"
      using o[OF that] that Some by (cases "slot_map s t") (auto simp: get_queue_def free_slot_def)
    ultimately show ?thesis using Some by (simp add: free_slot_def)
  qed
  then show "shm_inv (free_slot s tid)" "slot_map (free_slot s tid) = (slot_map s)(tid := None)"
    "t \<noteq> tid \<Longrightarrow> get_queue (free_slot s tid) t = get_queue s t" by auto
qed

subsection \<open>Property of the shared-memory region\<close>

text \<open>
  C19. Allocating a slot always returns.  On success the thread owns a freshly initialised queue, the
  slot lies inside the region, its bytes are disjoint from those of every other thread's slot and no
  other thread's queue changes; it fails only when all 8192 slots are owned.  Freeing a slot affects
  no other thread, and both keep the ownership map injective.
\<close>

theorem shm_slots_are_exclusive:
  assumes "shm_inv s"
  shows "shm_inv (free_slot s tid) \<and> slot_map (free_slot s tid) tid = None \<and>
    (\<forall>t. t \<noteq> tid \<longrightarrow> get_queue (free_slot s tid) t = get_queue s t) \<and>
    (\<exists>r s'. alloc_slot s tid = Some (r, s') \<and> shm_inv s' \<and>
      (case r of
         None \<Rightarrow> s' = s \<and> ran (slot_map s) = {i. i < MAX_THREADS}
       | Some slot \<Rightarrow>
           get_queue s' tid = Some (init_at tid) \<and>
           slot_ptr slot + THREAD_QUEUE_SIZE \<le> total_size s' \<and>
           (\<forall>t other. t \<noteq> tid \<longrightarrow> slot_map s' t = Some other \<longrightarrow>
              get_queue s' t = get_queue s t \<and>
              (slot_ptr slot + THREAD_QUEUE_SIZE \<le> slot_ptr other \<or>
               slot_ptr other + THREAD_QUEUE_SIZE \<le> slot_ptr slot))))"
proof -
  from alloc_slot_correct[OF assms, of tid] obtain r s' where
    a: "alloc_slot s tid = Some (r, s')" "shm_inv s'" and
    c: "case r of
        Some slot \<Rightarrow> slot_map s' = (slot_map s)(tid \<mapsto> slot) \<and> get_queue s' tid = Some (init_at tid) \<and>
                     (\<forall>t. t \<noteq> tid \<longrightarrow> get_queue s' t = get_queue s t)
      | None \<Rightarrow> s' = s \<and> ran (slot_map s) = {i. i < MAX_THREADS}" by blast
  have "case r of
         None \<Rightarrow> s' = s \<and> ran (slot_map s) = {i. i < MAX_THREADS}
       | Some slot \<Rightarrow>
           get_queue s' tid = Some (init_at tid) \<and> slot_ptr slot + THREAD_QUEUE_SIZE \<le> total_size s' \<and>
           (\<forall>t other. t \<noteq> tid \<longrightarrow> slot_map s' t = Some other \<longrightarrow>
              get_queue s' t = get_queue s t \<and>
              (slot_ptr slot + THREAD_QUEUE_SIZE \<le> slot_ptr other \<or>
               slot_ptr other + THREAD_QUEUE_SIZE \<le> slot_ptr slot))"
  proof (cases r)
    case (Some slot)
    with c have m: "slot_map s' tid = Some slot" by simp
    then have "slot < MAX_THREADS" "total_size s' = shm_total_size" using a(2) by (auto simp: shm_inv_def)
    moreover have "slot \<noteq> other" if "t \<noteq> tid" "slot_map s' t = Some other" for t other
      using shm_inv_other[OF a(2) m that(2)] that(1) by blast
    ultimately show ?thesis
      using Some c slot_ptr_in_region[of slot] slot_ptr_disjoint[of slot] by simp
  qed (use c in simp)
  with a free_slot_correct[OF assms] show ?thesis by auto
qed

theorem shm_slots_are_exclusive_witness:
  "\<exists>s. shm_create ''ab'' 3 0 True (\<lambda>_. init_at 0) = Inr s \<and> shm_inv s \<and>
     (\<exists>r s'. alloc_slot s 32 = Some (r, s') \<and> shm_inv s')"
proof -
  obtain s where s: "shm_create ''ab'' 3 0 True (\<lambda>_. init_at 0) = Inr s" by (simp add: shm_create_def)
  with shm_slots_are_exclusive[OF shm_create_inv[OF s], of 32] shm_create_inv[OF s] show ?thesis by blast
qed

end
