(* ===== verification/SentMessages.thy ===== *)
theory SentMessages
  imports Prelude Complex_Main "HOL-Library.AList"
begin

text \<open>
  \<^verbatim>\<open>src/rust/src/triskelion/sent_messages.rs\<close>: the tracker of cross-process \<^verbatim>\<open>SendMessage\<close> calls and the
  per-message profiles that decide when a send may skip tracking.  The pending map and the profiles
  are maps; the order in which a hash map is iterated is left open by taking the snapshot list as any
  list with the map's content.  The quotient of the two \<^verbatim>\<open>u32\<close> counters is the exact rational: both
  counters are exact as \<^verbatim>\<open>f64\<close>, and two such quotients that differ do so by at least
  $1/(10 \cdot 2^{32})$ around 0.9, far above the rounding error.
\<close>

definition MIN_OBSERVATIONS :: u32 where "MIN_OBSERVATIONS = 8"
definition PROMOTE_THRESHOLD :: rat where "PROMOTE_THRESHOLD = 9 / 10"

record pending_sent_message =
  sender_tid :: u32
  receiver_tid :: u32
  msg_code :: u32
  psm_win :: u32
  psm_wparam :: u64
  psm_lparam :: u64
  psm_msg_type :: u32

record msg_profile =
  fast_votes :: u32
  tracked_votes :: u32
  observations :: u32
  promoted :: bool

definition profile_new :: msg_profile where
  "profile_new = \<lparr>fast_votes = 0, tracked_votes = 0, observations = 0, promoted = False\<rparr>"

definition confidence :: "msg_profile \<Rightarrow> rat" where
  "confidence p =
     (if observations p < MIN_OBSERVATIONS then 0
      else of_nat (unat (fast_votes p)) / of_nat (unat (observations p)))"

definition check_promote :: "msg_profile \<Rightarrow> msg_profile" where
  "check_promote p =
     (if \<not> promoted p \<and> confidence p \<ge> PROMOTE_THRESHOLD then p\<lparr>promoted := True\<rparr> else p)"

definition demote :: "msg_profile \<Rightarrow> msg_profile" where
  "demote p = (if promoted p then p\<lparr>promoted := False, fast_votes := 0\<rparr> else p)"

record sent_messages =
  pending :: "u32 \<rightharpoonup> pending_sent_message list"
  profiles :: "u32 \<rightharpoonup> msg_profile"

definition sent_messages_new :: sent_messages where
  "sent_messages_new = \<lparr>pending = Map.empty, profiles = Map.empty\<rparr>"

definition should_fast_path :: "sent_messages \<Rightarrow> u32 \<Rightarrow> bool" where
  "should_fast_path s c = (case profiles s c of Some p \<Rightarrow> promoted p | None \<Rightarrow> False)"

definition track :: "sent_messages \<Rightarrow> pending_sent_message \<Rightarrow> sent_messages" where
  "track s m =
     s\<lparr>pending := (pending s)(receiver_tid m \<mapsto>
         (case pending s (receiver_tid m) of Some st \<Rightarrow> st | None \<Rightarrow> []) @ [m])\<rparr>"

definition drain_one_with_code :: "sent_messages \<Rightarrow> u32 \<Rightarrow> (u32 \<times> u32) option \<times> sent_messages" where
  "drain_one_with_code s r =
     (case pending s r of
        None \<Rightarrow> (None, s)
      | Some st \<Rightarrow>
          (if st = [] then (None, s)
           else (let m = last st; st' = butlast st in
                 (Some (sender_tid m, msg_code m),
                  s\<lparr>pending := (if st' = [] then (pending s)(r := None) else (pending s)(r \<mapsto> st'))\<rparr>))))"

definition entry_or_new :: "(u32 \<rightharpoonup> msg_profile) \<Rightarrow> u32 \<Rightarrow> msg_profile" where
  "entry_or_new ps c = (case ps c of Some p \<Rightarrow> p | None \<Rightarrow> profile_new)"

definition observe_reply :: "sent_messages \<Rightarrow> u32 \<Rightarrow> u64 \<Rightarrow> sent_messages" where
  "observe_reply s c result =
     (let p = entry_or_new (profiles s) c;
          p1 = p\<lparr>observations := observations p + 1\<rparr>;
          p2 = (if result = 0 then check_promote (p1\<lparr>fast_votes := fast_votes p1 + 1\<rparr>)
                else demote (p1\<lparr>tracked_votes := tracked_votes p1 + 1\<rparr>)) in
      s\<lparr>profiles := (profiles s)(c \<mapsto> p2)\<rparr>)"

text \<open>The loop over the drained envelopes (lines 130--137).\<close>

fun drain_loop :: "pending_sent_message list \<Rightarrow> (u32 \<rightharpoonup> msg_profile) \<Rightarrow> u32 list \<times> (u32 \<rightharpoonup> msg_profile)" where
  "drain_loop [] ps = ([], ps)"
| "drain_loop (m # ms) ps =
     (let p = entry_or_new ps (msg_code m);
          p1 = check_promote (p\<lparr>observations := observations p + 1, fast_votes := fast_votes p + 1\<rparr>);
          (tids, ps') = drain_loop ms (ps(msg_code m \<mapsto> p1)) in
      (sender_tid m # tids, ps'))"

definition drain_all_for_receiver :: "sent_messages \<Rightarrow> u32 \<Rightarrow> u32 list \<times> sent_messages" where
  "drain_all_for_receiver s r =
     (case pending s r of
        None \<Rightarrow> ([], s)
      | Some msgs \<Rightarrow> (let (tids, ps) = drain_loop msgs (profiles s) in
                      (tids, s\<lparr>pending := (pending s)(r := None), profiles := ps\<rparr>)))"

definition peek :: "sent_messages \<Rightarrow> u32 \<Rightarrow> pending_sent_message option" where
  "peek s r = (case pending s r of None \<Rightarrow> None | Some st \<Rightarrow> if st = [] then None else Some (last st))"

definition is_snapshot :: "sent_messages \<Rightarrow> (u32 \<times> msg_profile) list \<Rightarrow> bool" where
  "is_snapshot s xs \<longleftrightarrow> distinct (map fst xs) \<and> map_of xs = profiles s"

fun load_profiles :: "sent_messages \<Rightarrow> (u32 \<times> msg_profile) list \<Rightarrow> sent_messages" where
  "load_profiles s [] = s"
| "load_profiles s ((c, p) # xs) = load_profiles (s\<lparr>profiles := (profiles s)(c \<mapsto> p)\<rparr>) xs"

subsection \<open>Invariants\<close>

definition profile_ok :: "msg_profile \<Rightarrow> bool" where
  "profile_ok p \<longleftrightarrow> unat (fast_votes p) \<le> unat (observations p) \<and>
     (promoted p \<longrightarrow> 8 \<le> unat (observations p) \<and> 9 * unat (observations p) \<le> 10 * unat (fast_votes p))"

definition pending_ok :: "sent_messages \<Rightarrow> bool" where
  "pending_ok s \<longleftrightarrow> (\<forall>r st. pending s r = Some st \<longrightarrow> st \<noteq> [] \<and> (\<forall>m\<in>set st. receiver_tid m = r))"

definition in_flight :: "sent_messages \<Rightarrow> u32 \<Rightarrow> pending_sent_message list" where
  "in_flight s r = (case pending s r of Some st \<Rightarrow> st | None \<Rightarrow> [])"

lemma quotient_threshold:
  assumes "0 < b"
  shows "9 / 10 \<le> (of_nat a / of_nat b :: rat) \<longleftrightarrow> 9 * b \<le> 10 * a"
proof -
  have "9 / 10 \<le> (of_nat a / of_nat b :: rat) \<longleftrightarrow> (of_nat (9 * b) :: rat) \<le> of_nat (10 * a)"
    using assms by (simp add: field_simps)
  then show ?thesis by (simp only: of_nat_le_iff)
qed

lemma confidence_threshold:
  "confidence p \<ge> PROMOTE_THRESHOLD \<longleftrightarrow>
     8 \<le> unat (observations p) \<and> 9 * unat (observations p) \<le> 10 * unat (fast_votes p)"
proof (cases "observations p < MIN_OBSERVATIONS")
  case True
  then show ?thesis by (simp add: confidence_def PROMOTE_THRESHOLD_def MIN_OBSERVATIONS_def word_less_nat_alt)
next
  case False
  then have o: "8 \<le> unat (observations p)" by (simp add: MIN_OBSERVATIONS_def word_less_nat_alt)
  have "confidence p \<ge> PROMOTE_THRESHOLD \<longleftrightarrow>
      9 / 10 \<le> (of_nat (unat (fast_votes p)) / of_nat (unat (observations p)) :: rat)"
    using False by (simp only: confidence_def PROMOTE_THRESHOLD_def if_False)
  also have "\<dots> \<longleftrightarrow> 9 * unat (observations p) \<le> 10 * unat (fast_votes p)"
    by (rule quotient_threshold) (use o in linarith)
  finally show ?thesis using o by simp
qed

lemma check_promote_ok:
  assumes "unat (fast_votes p) \<le> unat (observations p)"
    and "promoted p \<Longrightarrow> 8 \<le> unat (observations p) \<and> 9 * unat (observations p) \<le> 10 * unat (fast_votes p)"
  shows "profile_ok (check_promote p)"
  using assms confidence_threshold[of p] by (auto simp: profile_ok_def check_promote_def)

text \<open>One observation with a zero (or missing) result, and one with a non-zero result.\<close>

lemma vote_fast_ok:
  assumes "profile_ok p" and "unat (observations p) + 1 < 2 ^ 32"
  shows "profile_ok (check_promote (p\<lparr>observations := observations p + 1, fast_votes := fast_votes p + 1\<rparr>))"
proof -
  have o: "unat (observations p + 1) = unat (observations p) + 1" using assms(2) by (rule unat_inc_u32)
  have f: "unat (fast_votes p + 1) = unat (fast_votes p) + 1"
    using assms by (intro unat_inc_u32) (simp add: profile_ok_def)
  show ?thesis by (rule check_promote_ok) (use assms(1) o f in \<open>auto simp: profile_ok_def\<close>)
qed

lemma vote_tracked_ok:
  assumes "profile_ok p" and "unat (observations p) + 1 < 2 ^ 32"
  shows "profile_ok (demote (p\<lparr>observations := observations p + 1, tracked_votes := w\<rparr>))"
proof -
  have "unat (observations p + 1) = unat (observations p) + 1" using assms(2) by (rule unat_inc_u32)
  with assms(1) show ?thesis by (auto simp: profile_ok_def demote_def)
qed

subsection \<open>Histories of replies to one message code\<close>

definition after_replies :: "u32 \<Rightarrow> u64 list \<Rightarrow> sent_messages" where
  "after_replies c rs = fold (\<lambda>r s. observe_reply s c r) rs sent_messages_new"

lemma after_replies_snoc: "after_replies c (rs @ [r]) = observe_reply (after_replies c rs) c r"
  by (simp add: after_replies_def)

lemma after_replies_profile:
  assumes "length rs < 2 ^ 32"
  shows "profile_ok (entry_or_new (profiles (after_replies c rs)) c) \<and>
         unat (observations (entry_or_new (profiles (after_replies c rs)) c)) = length rs \<and>
         unat (fast_votes (entry_or_new (profiles (after_replies c rs)) c)) \<le> length (filter (\<lambda>r. r = 0) rs) \<and>
         (promoted (entry_or_new (profiles (after_replies c rs)) c) \<longrightarrow> rs \<noteq> [] \<and> last rs = 0)"
  using assms
proof (induction rs rule: rev_induct)
  case Nil
  then show ?case
    by (simp add: after_replies_def sent_messages_new_def entry_or_new_def profile_new_def profile_ok_def)
next
  case (snoc r rs)
  let ?p = "entry_or_new (profiles (after_replies c rs)) c"
  have IH: "profile_ok ?p" "unat (observations ?p) = length rs"
    "unat (fast_votes ?p) \<le> length (filter (\<lambda>r. r = 0) rs)" using snoc by auto
  have room: "unat (observations ?p) + 1 < 2 ^ 32" using IH(2) snoc.prems by simp
  have o: "unat (observations ?p + 1) = length rs + 1" using unat_inc_u32[OF room] IH(2) by simp
  have f: "unat (fast_votes ?p + 1) = unat (fast_votes ?p) + 1"
    using IH(1) room by (intro unat_inc_u32) (simp add: profile_ok_def)
  have e: "entry_or_new (profiles (after_replies c (rs @ [r]))) c =
      (if r = 0 then check_promote (?p\<lparr>observations := observations ?p + 1, fast_votes := fast_votes ?p + 1\<rparr>)
       else demote (?p\<lparr>observations := observations ?p + 1, tracked_votes := tracked_votes ?p + 1\<rparr>))"
    unfolding after_replies_snoc observe_reply_def Let_def by (simp add: entry_or_new_def)
  show ?case
  proof (cases "r = 0")
    case True
    show ?thesis
      unfolding e using True vote_fast_ok[OF IH(1) room] o f IH(3) by (simp add: check_promote_def)
  next
    case False
    show ?thesis
      unfolding e using False vote_tracked_ok[OF IH(1) room] o IH(3) by (auto simp: demote_def)
  qed
qed

subsection \<open>Envelopes\<close>

lemma track_in_flight:
  "in_flight (track s m) r = (if r = receiver_tid m then in_flight s r @ [m] else in_flight s r)"
  by (auto simp: in_flight_def track_def split: option.splits)

lemma track_ok: "pending_ok s \<Longrightarrow> pending_ok (track s m)"
  by (cases "pending s (receiver_tid m)") (auto simp: pending_ok_def track_def)

lemma drain_one_correct:
  assumes "pending_ok s" and "drain_one_with_code s r = (x, s')"
  shows "pending_ok s'"
    and "x = (if in_flight s r = [] then None else Some (sender_tid (last (in_flight s r)), msg_code (last (in_flight s r))))"
    and "in_flight s' r' = (if r' = r then butlast (in_flight s r) else in_flight s r')"
    and "profiles s' = profiles s"
proof -
  have "pending_ok s' \<and>
    x = (if in_flight s r = [] then None else Some (sender_tid (last (in_flight s r)), msg_code (last (in_flight s r)))) \<and>
    in_flight s' r' = (if r' = r then butlast (in_flight s r) else in_flight s r') \<and> profiles s' = profiles s"
  proof (cases "pending s r")
    case None
    then show ?thesis using assms by (auto simp: drain_one_with_code_def in_flight_def)
  next
    case (Some st)
    then have st: "st \<noteq> []" "\<forall>m\<in>set st. receiver_tid m = r" using assms(1) by (auto simp: pending_ok_def)
    have s': "s' = s\<lparr>pending := (if butlast st = [] then (pending s)(r := None) else (pending s)(r \<mapsto> butlast st))\<rparr>"
        "x = Some (sender_tid (last st), msg_code (last st))"
      using assms(2) Some st(1) by (auto simp: drain_one_with_code_def Let_def)
    have "pending_ok s'"
      using assms(1) st(2) by (auto simp: pending_ok_def s' dest: in_set_butlastD split: if_splits)
    then show ?thesis using Some st(1) by (auto simp: s' in_flight_def)
  qed
  then show "pending_ok s'" "profiles s' = profiles s"
    "x = (if in_flight s r = [] then None else Some (sender_tid (last (in_flight s r)), msg_code (last (in_flight s r))))"
    "in_flight s' r' = (if r' = r then butlast (in_flight s r) else in_flight s r')" by auto
qed

lemma drain_loop_senders: "fst (drain_loop ms ps) = map sender_tid ms"
  by (induction ms arbitrary: ps) (simp_all add: Let_def split_beta)

lemma drain_all_correct:
  assumes "pending_ok s" and "drain_all_for_receiver s r = (tids, s')"
  shows "tids = map sender_tid (in_flight s r)" and "pending_ok s'"
    and "in_flight s' r' = (if r' = r then [] else in_flight s r')"
  using assms drain_loop_senders[of "in_flight s r" "profiles s"]
  by (auto simp: drain_all_for_receiver_def in_flight_def pending_ok_def split: option.splits prod.splits if_splits)
     blast

lemma load_profiles_map: "profiles (load_profiles s xs) = profiles s ++ map_of (rev xs)"
  by (induction xs arbitrary: s) (auto simp: map_add_assoc[symmetric])

subsection \<open>Properties of the tracker\<close>

text \<open>
  A message code takes the fast path only on evidence: after any history of replies to it, starting
  without a profile, the fast path is on only if at least eight replies were seen, at least nine in ten
  of all of them were zero, and the latest one was zero.
\<close>

theorem fast_path_needs_evidence:
  assumes "length rs < 2 ^ 32" and "should_fast_path (after_replies c rs) c"
  shows "8 \<le> length rs \<and> 9 * length rs \<le> 10 * length (filter (\<lambda>r. r = 0) rs) \<and> last rs = 0"
  using after_replies_profile[OF assms(1), of c] assms(2)
  by (auto simp: should_fast_path_def entry_or_new_def profile_ok_def split: option.splits)

theorem fast_path_needs_evidence_witness:
  "should_fast_path (after_replies 5 [0, 0, 0, 0, 0, 0, 0, 0]) 5 \<and>
   8 \<le> length [0, 0, 0, 0, 0, 0, 0, 0 :: u64]"
proof -
  have f: "should_fast_path (after_replies 5 [0, 0, 0, 0, 0, 0, 0, 0]) 5"
    by (simp add: after_replies_def observe_reply_def sent_messages_new_def entry_or_new_def profile_new_def
        check_promote_def confidence_def should_fast_path_def MIN_OBSERVATIONS_def PROMOTE_THRESHOLD_def Let_def)
  show ?thesis using fast_path_needs_evidence[OF _ f] f by simp
qed

text \<open>
  C18. Envelopes are answered innermost first and exactly once: tracking a message and draining one for
  its receiver returns that message's sender and code and restores every receiver's envelopes; a
  disconnecting receiver releases all its senders, in order, and nobody else's.
\<close>

theorem tracked_message_answered_once:
  assumes "pending_ok s"
  shows "(case drain_one_with_code (track s m) (receiver_tid m) of (x, s') \<Rightarrow>
            x = Some (sender_tid m, msg_code m) \<and> pending_ok s' \<and> in_flight s' = in_flight s) \<and>
         peek (track s m) (receiver_tid m) = Some m \<and>
         (case drain_all_for_receiver s r of (tids, s') \<Rightarrow>
            tids = map sender_tid (in_flight s r) \<and> pending_ok s' \<and> in_flight s' = (in_flight s)(r := []))"
proof -
  obtain x s1 where d: "drain_one_with_code (track s m) (receiver_tid m) = (x, s1)"
    by (cases "drain_one_with_code (track s m) (receiver_tid m)")
  obtain tids s2 where a: "drain_all_for_receiver s r = (tids, s2)" by (cases "drain_all_for_receiver s r")
  have "peek (track s m) (receiver_tid m) = Some m" by (simp add: peek_def track_def)
  moreover have "x = Some (sender_tid m, msg_code m) \<and> pending_ok s1 \<and> in_flight s1 = in_flight s"
    using drain_one_correct(1-3)[OF track_ok[OF assms, of m] d] by (auto simp: track_in_flight)
  moreover have "tids = map sender_tid (in_flight s r) \<and> pending_ok s2 \<and> in_flight s2 = (in_flight s)(r := [])"
    using drain_all_correct[OF assms a] by (auto simp: fun_eq_iff)
  ultimately show ?thesis unfolding d a by simp
qed

theorem tracked_message_answered_once_witness:
  "pending_ok sent_messages_new \<and>
   fst (drain_one_with_code (track sent_messages_new \<lparr>sender_tid = 1, receiver_tid = 2, msg_code = 3, psm_win = 0,
     psm_wparam = 0, psm_lparam = 0, psm_msg_type = 0\<rparr>) 2) = Some (1, 3)"
proof -
  have p: "pending_ok sent_messages_new" by (simp add: pending_ok_def sent_messages_new_def)
  show ?thesis
    using tracked_message_answered_once[OF p, of "\<lparr>sender_tid = 1, receiver_tid = 2, msg_code = 3, psm_win = 0,
     psm_wparam = 0, psm_lparam = 0, psm_msg_type = 0\<rparr>" 0] p by (auto split: prod.splits)
qed

text \<open>Whatever order the profile snapshot is taken in, loading it restores every profile.\<close>

theorem profile_snapshot_roundtrip:
  assumes "is_snapshot s xs"
  shows "profiles (load_profiles sent_messages_new xs) = profiles s"
  using assms by (simp add: load_profiles_map is_snapshot_def sent_messages_new_def map_of_rev_distinct)

theorem profile_snapshot_roundtrip_witness:
  "is_snapshot (after_replies 5 [0]) [(5, \<lparr>fast_votes = 1, tracked_votes = 0, observations = 1, promoted = False\<rparr>)] \<and>
   profiles (load_profiles sent_messages_new
     [(5, \<lparr>fast_votes = 1, tracked_votes = 0, observations = 1, promoted = False\<rparr>)]) = profiles (after_replies 5 [0])"
proof -
  have i: "is_snapshot (after_replies 5 [0]) [(5, \<lparr>fast_votes = 1, tracked_votes = 0, observations = 1, promoted = False\<rparr>)]"
    by (simp add: is_snapshot_def after_replies_def observe_reply_def sent_messages_new_def entry_or_new_def
        profile_new_def check_promote_def confidence_def MIN_OBSERVATIONS_def PROMOTE_THRESHOLD_def Let_def)
  show ?thesis using i profile_snapshot_roundtrip[OF i] by blast
qed

end
