(* ===== verification/SideTables.thy ===== *)
theory SideTables
  imports Prelude "HOL-Library.AList"
begin

text \<open>
  \<^verbatim>\<open>src/rust/src/triskelion/event_loop/side_tables.rs\<close>: the per-handle tables keyed by process and
  handle, and their two purge operations.  The pipe table is an association list because
  \<^verbatim>\<open>purge_pid\<close> closes descriptors in the iteration order of the hash map; every order is covered by
  the lists with the same content.
\<close>

record side_tables =
  pipe_handles :: "((u32 \<times> u32) \<times> fd) list"
  io_wait_handles :: "u32 \<times> u32 \<rightharpoonup> u32"
  fd_sent :: "(u32 \<times> u32) set"
  completion_bindings :: "u32 \<times> u32 \<rightharpoonup> u32 \<times> u64"

definition side_tables_new :: side_tables where
  "side_tables_new = \<lparr>pipe_handles = [], io_wait_handles = Map.empty, fd_sent = {}, completion_bindings = Map.empty\<rparr>"

text \<open>The first result is the cached wait handle, the second the descriptors closed.\<close>

definition purge :: "side_tables \<Rightarrow> u32 \<Rightarrow> u32 \<Rightarrow> (u32 option \<times> fd list) \<times> side_tables" where
  "purge t pid h =
     (let k = (pid, h);
          closed = (case map_of (pipe_handles t) k of Some f \<Rightarrow> [f] | None \<Rightarrow> []);
          wh = io_wait_handles t k in
      ((wh, closed),
       t\<lparr>pipe_handles := AList.delete k (pipe_handles t),
         io_wait_handles := (io_wait_handles t)(k := None),
         fd_sent := fd_sent t - {k},
         completion_bindings := (completion_bindings t)(k := None)\<rparr>))"

text \<open>The loop over the collected keys (lines 74--78).\<close>

fun purge_pipes :: "(u32 \<times> u32) list \<Rightarrow> ((u32 \<times> u32) \<times> fd) list \<Rightarrow> fd list \<times> ((u32 \<times> u32) \<times> fd) list" where
  "purge_pipes [] ph = ([], ph)"
| "purge_pipes (k # ks) ph =
     (case map_of ph k of
        Some f \<Rightarrow> (let (cs, ph') = purge_pipes ks (AList.delete k ph) in (f # cs, ph'))
      | None \<Rightarrow> purge_pipes ks ph)"

definition purge_pid :: "side_tables \<Rightarrow> u32 \<Rightarrow> fd list \<times> side_tables" where
  "purge_pid t pid =
     (let dead = filter (\<lambda>(p, _). p = pid) (map fst (pipe_handles t));
          (closed, ph) = purge_pipes dead (pipe_handles t) in
      (closed,
       t\<lparr>pipe_handles := ph,
         io_wait_handles := (\<lambda>k. if fst k \<noteq> pid then io_wait_handles t k else None),
         fd_sent := {k \<in> fd_sent t. fst k \<noteq> pid},
         completion_bindings := (\<lambda>k. if fst k \<noteq> pid then completion_bindings t k else None)\<rparr>))"

subsection \<open>What is left after a purge\<close>

definition side_keys :: "side_tables \<Rightarrow> (u32 \<times> u32) set" where
  "side_keys t = dom (map_of (pipe_handles t)) \<union> dom (io_wait_handles t) \<union> fd_sent t \<union> dom (completion_bindings t)"

lemma purge_pipes_correct:
  assumes "distinct (map fst ph)" and "distinct ks" and "set ks \<subseteq> dom (map_of ph)"
    and "purge_pipes ks ph = (cs, ph')"
  shows "cs = map (\<lambda>k. the (map_of ph k)) ks \<and> distinct (map fst ph') \<and>
         map_of ph' = (\<lambda>k. if k \<in> set ks then None else map_of ph k)"
  using assms
proof (induction ks arbitrary: ph cs)
  case Nil
  then show ?case by simp
next
  case (Cons k ks)
  from Cons.prems(3) have "k \<in> dom (map_of ph)" by simp
  then obtain f where f: "map_of ph k = Some f" by blast
  from Cons.prems(4) f obtain cs' where r: "purge_pipes ks (AList.delete k ph) = (cs', ph')" "cs = f # cs'"
    by (auto split: prod.splits)
  have "set ks \<subseteq> dom (map_of (AList.delete k ph))"
    using Cons.prems(2,3) by (auto simp: AList.delete_conv')
  with Cons.IH[of "AList.delete k ph" cs'] Cons.prems(1,2) r
  have IH: "cs' = map (\<lambda>k'. the (map_of (AList.delete k ph) k')) ks" "distinct (map fst ph')"
      "map_of ph' = (\<lambda>k'. if k' \<in> set ks then None else map_of (AList.delete k ph) k')"
    by (auto simp: distinct_delete)
  moreover have "k' \<in> set ks \<Longrightarrow> k' \<noteq> k" for k' using Cons.prems(2) by auto
  ultimately show ?case using f r(2) by (auto simp: AList.delete_conv' fun_eq_iff)
qed

lemma purge_keys:
  assumes "purge t pid h = ((wh, closed), t')"
  shows "side_keys t' = side_keys t - {(pid, h)}"
proof (rule set_eqI)
  fix x
  have "t' = snd (purge t pid h)" using assms by simp
  then show "x \<in> side_keys t' \<longleftrightarrow> x \<in> side_keys t - {(pid, h)}"
    by (cases "x = (pid, h)") (simp_all add: purge_def side_keys_def Let_def AList.delete_conv' domIff)
qed

subsection \<open>Property of the side tables\<close>

text \<open>
  Closing a handle removes its entry from all four tables and nothing else, closing its pipe
  descriptor and reporting its wait handle.  A disconnecting process loses exactly its own entries in
  all four tables, and each of its pipe descriptors is closed once, in some order.
\<close>

theorem purge_removes_all_side_state:
  assumes "distinct (map fst (pipe_handles t))"
  shows "(case purge t pid h of ((wh, closed), t') \<Rightarrow>
            side_keys t' = side_keys t - {(pid, h)} \<and> wh = io_wait_handles t (pid, h) \<and>
            closed = (case map_of (pipe_handles t) (pid, h) of Some f \<Rightarrow> [f] | None \<Rightarrow> []) \<and>
            distinct (map fst (pipe_handles t'))) \<and>
         (case purge_pid t pid of (closed, t') \<Rightarrow>
            side_keys t' = {k \<in> side_keys t. fst k \<noteq> pid} \<and>
            closed = map snd (filter (\<lambda>x. fst (fst x) = pid) (pipe_handles t)) \<and>
            distinct (map fst (pipe_handles t')))"
proof -
  let ?dead = "filter (\<lambda>(p, _). p = pid) (map fst (pipe_handles t))"
  obtain cs ph' where pp: "purge_pipes ?dead (pipe_handles t) = (cs, ph')" by (cases "purge_pipes ?dead (pipe_handles t)")
  have "distinct ?dead" "set ?dead \<subseteq> dom (map_of (pipe_handles t))"
    using assms by (auto simp: dom_map_of_conv_image_fst)
  note p = purge_pipes_correct[OF assms this pp]
  have val: "the (map_of (pipe_handles t) (fst x)) = snd x" if "x \<in> set (pipe_handles t)" for x
    using assms that by (cases x) simp
  have "cs = map (\<lambda>x. the (map_of (pipe_handles t) (fst x))) (filter (\<lambda>x. fst (fst x) = pid) (pipe_handles t))"
    using conjunct1[OF p] by (simp add: filter_map comp_def split_beta)
  also have "\<dots> = map snd (filter (\<lambda>x. fst (fst x) = pid) (pipe_handles t))"
    by (rule map_cong) (auto intro: val)
  finally have cs: "cs = map snd (filter (\<lambda>x. fst (fst x) = pid) (pipe_handles t))" .
  have dead: "k \<in> set ?dead \<longleftrightarrow> fst k = pid \<and> k \<in> dom (map_of (pipe_handles t))" for k
    by (auto simp: dom_map_of_conv_image_fst)
  have "case purge_pid t pid of (closed, t') \<Rightarrow> side_keys t' = {k \<in> side_keys t. fst k \<noteq> pid} \<and>
      closed = map snd (filter (\<lambda>x. fst (fst x) = pid) (pipe_handles t)) \<and> distinct (map fst (pipe_handles t'))"
  proof -
    have m: "map_of ph' = (\<lambda>k. if fst k = pid then None else map_of (pipe_handles t) k)"
      unfolding conjunct2[OF conjunct2[OF p]] dead by (rule ext) (simp add: domIff)
    have "purge_pid t pid = (cs, t\<lparr>pipe_handles := ph',
         io_wait_handles := (\<lambda>k. if fst k \<noteq> pid then io_wait_handles t k else None),
         fd_sent := {k \<in> fd_sent t. fst k \<noteq> pid},
         completion_bindings := (\<lambda>k. if fst k \<noteq> pid then completion_bindings t k else None)\<rparr>)" (is "_ = (cs, ?t)")
      unfolding purge_pid_def Let_def pp by simp
    moreover have "side_keys ?t = {k \<in> side_keys t. fst k \<noteq> pid}"
    proof (rule set_eqI)
      fix x
      show "x \<in> side_keys ?t \<longleftrightarrow> x \<in> {k \<in> side_keys t. fst k \<noteq> pid}"
        by (cases "fst x = pid") (simp_all add: side_keys_def m domIff)
    qed
    ultimately show ?thesis using conjunct1[OF conjunct2[OF p]] cs by simp
  qed
  moreover have "distinct (map fst (AList.delete (pid, h) (pipe_handles t)))" using assms by (rule distinct_delete)
  ultimately show ?thesis using purge_keys[of t pid h] by (simp add: purge_def Let_def)
qed

theorem purge_removes_all_side_state_witness:
  "distinct (map fst (pipe_handles (side_tables_new\<lparr>pipe_handles := [((32, 4), 7), ((36, 4), 8)]\<rparr>))) \<and>
   fst (purge_pid (side_tables_new\<lparr>pipe_handles := [((32, 4), 7), ((36, 4), 8)]\<rparr>) 32) = [7]"
  using purge_removes_all_side_state[of "side_tables_new\<lparr>pipe_handles := [((32, 4), 7), ((36, 4), 8)]\<rparr>" 32 4]
  by (simp add: split_beta)

end
