(* ===== verification/Intel.thy ===== *)
theory Intel
  imports SentMessages
begin

text \<open>
  \<^verbatim>\<open>src/rust/src/triskelion/intel.rs\<close>: the learned opcode statistics and their on-disk cache.
  File contents are byte lists; reading a file that does not exist is \<^const>\<open>None\<close>.  The 306-entry arrays
  are lists whose length is part of the well-formedness predicate.  An outer option is the panic of a
  slice access out of range; the properties show that it never happens.
\<close>

definition OPCODE_COUNT :: nat where "OPCODE_COUNT = 306"
definition CACHE_MAGIC :: bytes where "CACHE_MAGIC = [0x41, 0x4D, 0x50, 0x43]"
definition CACHE_VERSION :: u32 where "CACHE_VERSION = 3"
definition CACHE_V2_SIZE :: nat where "CACHE_V2_SIZE = 10496"
definition CACHE_SIZE :: nat where "CACHE_SIZE = 14592"
definition OPCODE_INTEL_OFF :: nat where "OPCODE_INTEL_OFF = 192"
definition LEARNED_OFF :: nat where "LEARNED_OFF = 5088"
definition MSG_PROFILE_OFF :: nat where "MSG_PROFILE_OFF = 10496"
definition MSG_PROFILE_ENTRY :: nat where "MSG_PROFILE_ENTRY = 16"
definition MAX_MSG_PROFILES :: nat where "MAX_MSG_PROFILES = 256"
definition OPCODE_INTEL_ENTRY :: nat where "OPCODE_INTEL_ENTRY = 16"
definition LEARNED_ENTRY :: nat where "LEARNED_ENTRY = 16"

definition HINT_UNKNOWN :: u32 where "HINT_UNKNOWN = 0"
definition HINT_CRITICAL :: u32 where "HINT_CRITICAL = 1"
definition HINT_SAFE_TO_STUB :: u32 where "HINT_SAFE_TO_STUB = 3"
definition HINT_NEVER_CALLED :: u32 where "HINT_NEVER_CALLED = 4"
definition FLAG_HAS_LEARNED :: u32 where "FLAG_HAS_LEARNED = 0x04"
definition FLAG_STABLE :: u32 where "FLAG_STABLE = 0x10"

definition V1_MAGIC :: bytes where "V1_MAGIC = [0x41, 0x4D, 0x50, 0x4C]"
definition V1_HEADER_SIZE :: nat where "V1_HEADER_SIZE = 16"
definition V1_ENTRY_SIZE :: nat where "V1_ENTRY_SIZE = 16"
definition V1_FILE_SIZE :: nat where "V1_FILE_SIZE = V1_HEADER_SIZE + OPCODE_COUNT * V1_ENTRY_SIZE"

definition STABILITY_UNKNOWN :: u8 where "STABILITY_UNKNOWN = 0"
definition STABILITY_STABLE :: u8 where "STABILITY_STABLE = 1"
definition STABILITY_UNSTABLE :: u8 where "STABILITY_UNSTABLE = 2"
definition STABLE_THRESHOLD :: u32 where "STABLE_THRESHOLD = 10"
definition UNSTABLE_THRESHOLD :: u32 where "UNSTABLE_THRESHOLD = 3"

lemmas intel_consts = OPCODE_COUNT_def CACHE_V2_SIZE_def CACHE_SIZE_def OPCODE_INTEL_OFF_def LEARNED_OFF_def
  MSG_PROFILE_OFF_def MSG_PROFILE_ENTRY_def MAX_MSG_PROFILES_def OPCODE_INTEL_ENTRY_def LEARNED_ENTRY_def
  V1_HEADER_SIZE_def V1_ENTRY_SIZE_def V1_FILE_SIZE_def

record opcode_entry =
  call_count :: u32
  stub_count :: u32
  stability :: u8

record intel_manager =
  cache_path :: "string option"
  prior :: "opcode_entry list"
  prior_run_count :: u32
  hints :: "u32 list"
  engine_type :: u32
  cache_flags :: u32
  preserved_buf :: "bytes option"
  loaded_msg_profiles :: "(u32 \<times> msg_profile) list"
  run_calls :: "u32 list"
  run_stubs :: "u32 list"
  post_stub_requests :: "u32 list"
  total_requests :: u64

definition intel_blank :: "string option \<Rightarrow> intel_manager" where
  "intel_blank path =
     \<lparr>cache_path = path,
      prior = replicate OPCODE_COUNT \<lparr>call_count = 0, stub_count = 0, stability = STABILITY_UNKNOWN\<rparr>,
      prior_run_count = 0, hints = replicate OPCODE_COUNT HINT_UNKNOWN, engine_type = 0, cache_flags = 0,
      preserved_buf = None, loaded_msg_profiles = [],
      run_calls = replicate OPCODE_COUNT 0, run_stubs = replicate OPCODE_COUNT 0,
      post_stub_requests = replicate OPCODE_COUNT 0, total_requests = 0\<rparr>"

subsection \<open>Recording\<close>

definition record_call :: "intel_manager \<Rightarrow> nat \<Rightarrow> intel_manager" where
  "record_call m opcode =
     (if opcode < OPCODE_COUNT then
        m\<lparr>run_calls := (run_calls m)[opcode := run_calls m ! opcode + 1],
          total_requests := total_requests m + 1,
          post_stub_requests :=
            map (\<lambda>i. if run_stubs m ! i > 0 \<and> post_stub_requests m ! i < STABLE_THRESHOLD + 1
                      then post_stub_requests m ! i + 1 else post_stub_requests m ! i) [0..<OPCODE_COUNT]\<rparr>
      else m)"

definition record_stub :: "intel_manager \<Rightarrow> nat \<Rightarrow> intel_manager" where
  "record_stub m opcode =
     (if opcode < OPCODE_COUNT then
        m\<lparr>run_stubs := (run_stubs m)[opcode := run_stubs m ! opcode + 1],
          post_stub_requests := (post_stub_requests m)[opcode := 0]\<rparr>
      else m)"

definition should_auto_stub :: "intel_manager \<Rightarrow> nat \<Rightarrow> bool \<Rightarrow> bool" where
  "should_auto_stub m opcode has_vararg_reply =
     (if has_vararg_reply then False
      else if opcode \<ge> OPCODE_COUNT then False
      else if hints m ! opcode = HINT_CRITICAL then False
      else if hints m ! opcode = HINT_SAFE_TO_STUB \<or> hints m ! opcode = HINT_NEVER_CALLED then True
      else stability (prior m ! opcode) \<noteq> STABILITY_UNSTABLE)"

subsection \<open>Flushing\<close>

definition saturating_add :: "u32 \<Rightarrow> u32 \<Rightarrow> u32" where
  "saturating_add a b = (if unat a + unat b < 2 ^ 32 then a + b else - 1)"

definition new_stability :: "intel_manager \<Rightarrow> nat \<Rightarrow> u8" where
  "new_stability m i =
     (if run_stubs m ! i > 0 then
        (if post_stub_requests m ! i \<ge> STABLE_THRESHOLD then STABILITY_STABLE
         else if post_stub_requests m ! i \<le> UNSTABLE_THRESHOLD then
           (if stability (prior m ! i) = STABILITY_STABLE then STABILITY_STABLE else STABILITY_UNSTABLE)
         else stability (prior m ! i))
      else stability (prior m ! i))"

definition learned_entry :: "intel_manager \<Rightarrow> nat \<Rightarrow> opcode_entry" where
  "learned_entry m i = \<lparr>call_count = saturating_add (call_count (prior m ! i)) (run_calls m ! i),
                        stub_count = saturating_add (stub_count (prior m ! i)) (run_stubs m ! i),
                        stability = new_stability m i\<rparr>"

definition write_learned :: "intel_manager \<Rightarrow> nat \<Rightarrow> bytes \<Rightarrow> bytes option" where
  "write_learned m i buf =
     (let off = LEARNED_OFF + i * LEARNED_ENTRY; e = learned_entry m i in do {
        b1 \<leftarrow> put off (u32_to_le (call_count e)) buf;
        b2 \<leftarrow> put (off + 4) (u32_to_le (stub_count e)) b1;
        b3 \<leftarrow> put (off + 8) [stability e] b2;
        put (off + 12) (u32_to_le (run_calls m ! i)) b3 })"

definition profile_flags :: "msg_profile \<Rightarrow> u32" where
  "profile_flags p = observations p OR (if promoted p then 0x80000000 else 0)"

definition write_profile :: "(u32 \<times> msg_profile) list \<Rightarrow> nat \<Rightarrow> bytes \<Rightarrow> bytes option" where
  "write_profile ps i buf =
     (let off = MSG_PROFILE_OFF + i * MSG_PROFILE_ENTRY; (c, p) = ps ! i in do {
        b1 \<leftarrow> put off (u32_to_le c) buf;
        b2 \<leftarrow> put (off + 4) (u32_to_le (fast_votes p)) b1;
        b3 \<leftarrow> put (off + 8) (u32_to_le (tracked_votes p)) b2;
        put (off + 12) (u32_to_le (profile_flags p)) b3 })"

definition flush_flags :: "intel_manager \<Rightarrow> u32" where
  "flush_flags m =
     (let flags = cache_flags m OR FLAG_HAS_LEARNED in
      if prior_run_count m + 1 \<ge> 5 then flags OR FLAG_STABLE else flags)"

definition coverage_pct :: "intel_manager \<Rightarrow> u32" where
  "coverage_pct m =
     (let known = length (filter (\<lambda>i. saturating_add (call_count (prior m ! i)) (run_calls m ! i) > 0)
                          [0..<OPCODE_COUNT]) in
      (of_nat known * 100) div of_nat OPCODE_COUNT)"

definition flush_buf :: "intel_manager \<Rightarrow> u32 \<Rightarrow> (u32 \<times> msg_profile) list \<Rightarrow> bytes option" where
  "flush_buf m now ps =
     (let buf0 = resize CACHE_SIZE 0 (case preserved_buf m of Some b \<Rightarrow> b | None \<Rightarrow> replicate CACHE_SIZE 0);
          run_count = prior_run_count m + 1;
          profile_count = min (length ps) MAX_MSG_PROFILES in do {
        b1 \<leftarrow> put 0 CACHE_MAGIC buf0;
        b2 \<leftarrow> put 4 (u32_to_le CACHE_VERSION) b1;
        b3 \<leftarrow> put 12 (u32_to_le (flush_flags m)) b2;
        b4 \<leftarrow> put 20 (u32_to_le run_count) b3;
        b5 \<leftarrow> put 24 (u32_to_le now) b4;
        b6 \<leftarrow> put 32 (u32_to_le (coverage_pct m)) b5;
        b7 \<leftarrow> for_range 0 OPCODE_COUNT (write_learned m) b6;
        b8 \<leftarrow> for_range 0 profile_count (write_profile ps) b7;
        put 36 (u32_to_le (of_nat profile_count)) b8 })"

text \<open>\<^verbatim>\<open>flush\<close>: the path and content handed to \<^verbatim>\<open>std::fs::write\<close>, if any.\<close>

definition flush :: "intel_manager \<Rightarrow> u32 \<Rightarrow> (u32 \<times> msg_profile) list \<Rightarrow> (string \<times> bytes) option option" where
  "flush m now ps =
     (case cache_path m of
        None \<Rightarrow> Some None
      | Some path \<Rightarrow> map_option (\<lambda>buf. Some (path, buf)) (flush_buf m now ps))"

definition take_msg_profiles :: "intel_manager \<Rightarrow> (u32 \<times> msg_profile) list \<times> intel_manager" where
  "take_msg_profiles m = (loaded_msg_profiles m, m\<lparr>loaded_msg_profiles := []\<rparr>)"

subsection \<open>Loading\<close>

definition read_entry :: "nat \<Rightarrow> bytes \<Rightarrow> opcode_entry option" where
  "read_entry off data = do {
     c \<leftarrow> rd_u32 off data; s \<leftarrow> rd_u32 (off + 4) data; st \<leftarrow> rd_u8 (off + 8) data;
     Some \<lparr>call_count = c, stub_count = s, stability = st\<rparr> }"

definition read_hints :: "bytes \<Rightarrow> u32 list option" where
  "read_hints data = those (map (\<lambda>i. rd_u32 (OPCODE_INTEL_OFF + i * OPCODE_INTEL_ENTRY) data) [0..<OPCODE_COUNT])"

definition load_v2 :: "intel_manager \<Rightarrow> bytes \<Rightarrow> intel_manager option" where
  "load_v2 m data = do {
     flags \<leftarrow> rd_u32 12 data; et \<leftarrow> rd_u32 16 data; rc \<leftarrow> rd_u32 20 data;
     hs \<leftarrow> read_hints data;
     pr \<leftarrow> those (map (\<lambda>i. read_entry (LEARNED_OFF + i * LEARNED_ENTRY) data) [0..<OPCODE_COUNT]);
     Some (m\<lparr>preserved_buf := Some (take (min (length data) CACHE_SIZE) data), cache_flags := flags,
             engine_type := et, prior_run_count := rc, hints := hs, prior := pr\<rparr>) }"

definition load_v1 :: "intel_manager \<Rightarrow> bytes \<Rightarrow> intel_manager option" where
  "load_v1 m data = do {
     rc \<leftarrow> rd_u32 8 data;
     pr \<leftarrow> those (map (\<lambda>i. read_entry (V1_HEADER_SIZE + i * V1_ENTRY_SIZE) data) [0..<OPCODE_COUNT]);
     Some (m\<lparr>prior_run_count := rc, prior := pr\<rparr>) }"

definition read_profile :: "nat \<Rightarrow> bytes \<Rightarrow> (u32 \<times> msg_profile) option" where
  "read_profile off data = do {
     c \<leftarrow> rd_u32 off data; fv \<leftarrow> rd_u32 (off + 4) data; tv \<leftarrow> rd_u32 (off + 8) data; fl \<leftarrow> rd_u32 (off + 12) data;
     Some (c, \<lparr>fast_votes = fv, tracked_votes = tv, observations = fl AND 0x7FFFFFFF,
               promoted = (fl AND 0x80000000 \<noteq> 0)\<rparr>) }"

definition profile_used :: "u32 \<times> msg_profile \<Rightarrow> bool" where
  "profile_used x = (fst x \<noteq> 0 \<or> fast_votes (snd x) \<noteq> 0 \<or> tracked_votes (snd x) \<noteq> 0)"

text \<open>The loop of \<^verbatim>\<open>load_msg_profiles\<close> (lines 367--381), with its early \<^verbatim>\<open>break\<close>.\<close>

fun read_profiles :: "nat \<Rightarrow> nat \<Rightarrow> bytes \<Rightarrow> (u32 \<times> msg_profile) list option" where
  "read_profiles i 0 data = Some []"
| "read_profiles i (Suc n) data =
     (let off = MSG_PROFILE_OFF + i * MSG_PROFILE_ENTRY in
      if off + MSG_PROFILE_ENTRY > length data then Some []
      else do {
        x \<leftarrow> read_profile off data;
        xs \<leftarrow> read_profiles (Suc i) n data;
        Some (if profile_used x then x # xs else xs) })"

definition load_msg_profiles :: "intel_manager \<Rightarrow> bytes \<Rightarrow> intel_manager option" where
  "load_msg_profiles m data = do {
     pc \<leftarrow> rd_u32 36 data;
     xs \<leftarrow> read_profiles 0 (min (unat pc) MAX_MSG_PROFILES) data;
     Some (m\<lparr>loaded_msg_profiles := loaded_msg_profiles m @ xs\<rparr>) }"

text \<open>\<open>file\<close> and \<open>v1_file\<close> are the contents of the two cache files, if readable.\<close>

definition intel_load :: "intel_manager \<Rightarrow> bytes option \<Rightarrow> bytes option \<Rightarrow> intel_manager option" where
  "intel_load m file v1_file =
     (let try_v1 = (case v1_file of
            Some data \<Rightarrow> if length data \<ge> V1_FILE_SIZE \<and> take 4 data = V1_MAGIC then load_v1 m data else Some m
          | None \<Rightarrow> Some m) in
      case cache_path m of
        None \<Rightarrow> Some m
      | Some path \<Rightarrow>
          (case file of
             Some data \<Rightarrow>
               if length data \<ge> CACHE_V2_SIZE \<and> take 4 data = CACHE_MAGIC then do {
                 version \<leftarrow> rd_u32 4 data;
                 (if version = 2 \<or> version = 3 then do {
                    m1 \<leftarrow> load_v2 m data;
                    (if length data \<ge> CACHE_SIZE then load_msg_profiles m1 data else Some m1) }
                  else try_v1) }
               else try_v1
           | None \<Rightarrow> try_v1))"

definition intel_new :: "string option \<Rightarrow> bytes option \<Rightarrow> bytes option \<Rightarrow> intel_manager option" where
  "intel_new path file v1_file = intel_load (intel_blank path) file v1_file"

subsection \<open>Entries of sixteen bytes\<close>

lemma put_total: "off + length bs \<le> length b \<Longrightarrow> \<exists>b'. put off bs b = Some b' \<and> length b' = length b"
  using put_Some_iff[of off bs b] put_length by blast

lemma put_entry16:
  assumes "off + 16 \<le> length b" and "length x1 = 4" and "length x2 = 4" and "length x3 \<le> 4" and "length x4 = 4"
  shows "\<exists>b'. (do { b1 \<leftarrow> put off x1 b; b2 \<leftarrow> put (off + 4) x2 b1; b3 \<leftarrow> put (off + 8) x3 b2;
               put (off + 12) x4 b3 }) = Some b' \<and>
           same_outside off (off + 16) b b' \<and> slice off (off + 4) b' = Some x1 \<and>
           slice (off + 4) (off + 8) b' = Some x2 \<and> slice (off + 8) (off + 8 + length x3) b' = Some x3 \<and>
           slice (off + 12) (off + 16) b' = Some x4"
proof -
  obtain b1 where 1: "put off x1 b = Some b1" "length b1 = length b" using put_total[of off x1 b] assms by auto
  obtain b2 where 2: "put (off + 4) x2 b1 = Some b2" "length b2 = length b" using put_total[of "off + 4" x2 b1] assms 1 by auto
  obtain b3 where 3: "put (off + 8) x3 b2 = Some b3" "length b3 = length b" using put_total[of "off + 8" x3 b2] assms 2 by auto
  obtain b4 where 4: "put (off + 12) x4 b3 = Some b4" "length b4 = length b" using put_total[of "off + 12" x4 b3] assms 3 by auto
  have "same_outside off (off + 16) b b4"
    using same_outside_put[OF 1(1), of off "off + 16"] same_outside_put[OF 2(1), of off "off + 16"]
      same_outside_put[OF 3(1), of off "off + 16"] same_outside_put[OF 4(1), of off "off + 16"] assms
    by (auto intro: same_outside_trans)
  moreover have "slice off (off + 4) b4 = Some x1"
    using slice_put_same[OF 1(1), of "off + 4"] slice_put_other[OF 2(1), of "off + 4" off]
      slice_put_other[OF 3(1), of "off + 4" off] slice_put_other[OF 4(1), of "off + 4" off] assms by simp
  moreover have "slice (off + 4) (off + 8) b4 = Some x2"
    using slice_put_same[OF 2(1), of "off + 8"] slice_put_other[OF 3(1), of "off + 8" "off + 4"]
      slice_put_other[OF 4(1), of "off + 8" "off + 4"] assms by simp
  moreover have "slice (off + 8) (off + 8 + length x3) b4 = Some x3"
    using slice_put_same[OF 3(1) refl] slice_put_other[OF 4(1), of "off + 8 + length x3" "off + 8"] assms by simp
  moreover have "slice (off + 12) (off + 16) b4 = Some x4"
    using slice_put_same[OF 4(1), of "off + 16"] assms by simp
  ultimately show ?thesis using 1 2 3 4 by simp
qed

lemma rd_u8_slice: "slice off (off + 1) b = Some [x] \<Longrightarrow> rd_u8 off b = Some x"
  by (auto simp: slice_def rd_u8_def take_Suc_conv_app_nth split: if_splits)

subsection \<open>The two tables\<close>

definition learned_at :: "intel_manager \<Rightarrow> nat \<Rightarrow> bytes \<Rightarrow> bool" where
  "learned_at m i b \<longleftrightarrow> read_entry (LEARNED_OFF + i * LEARNED_ENTRY) b = Some (learned_entry m i)"

definition profile_at :: "(u32 \<times> msg_profile) list \<Rightarrow> nat \<Rightarrow> bytes \<Rightarrow> bool" where
  "profile_at ps i b \<longleftrightarrow> (let off = MSG_PROFILE_OFF + i * MSG_PROFILE_ENTRY in
     rd_u32 off b = Some (fst (ps ! i)) \<and> rd_u32 (off + 4) b = Some (fast_votes (snd (ps ! i))) \<and>
     rd_u32 (off + 8) b = Some (tracked_votes (snd (ps ! i))) \<and>
     rd_u32 (off + 12) b = Some (profile_flags (snd (ps ! i))))"

lemma write_learned_ok:
  assumes "i < OPCODE_COUNT" and "length b = CACHE_SIZE"
  shows "\<exists>b'. write_learned m i b = Some b' \<and>
    same_outside (LEARNED_OFF + i * LEARNED_ENTRY) (LEARNED_OFF + i * LEARNED_ENTRY + LEARNED_ENTRY) b b' \<and> learned_at m i b'"
proof -
  let ?off = "LEARNED_OFF + i * LEARNED_ENTRY" let ?e = "learned_entry m i"
  have "?off + 16 \<le> length b" using assms by (simp add: intel_consts)
  from put_entry16[OF this, of "u32_to_le (call_count ?e)" "u32_to_le (stub_count ?e)" "[stability ?e]" "u32_to_le (run_calls m ! i)"]
  obtain b' where w: "write_learned m i b = Some b'" "same_outside ?off (?off + 16) b b'"
    and r: "slice ?off (?off + 4) b' = Some (u32_to_le (call_count ?e))"
      "slice (?off + 4) (?off + 8) b' = Some (u32_to_le (stub_count ?e))"
      "slice (?off + 8) (?off + 8 + 1) b' = Some [stability ?e]"
    by (auto simp: write_learned_def Let_def)
  have "learned_at m i b'"
    using rd_u32_slice[OF r(1)] rd_u32_slice[of "?off + 4" b'] r(2) rd_u8_slice[OF r(3)]
    by (simp add: learned_at_def read_entry_def add.assoc)
  with w show ?thesis by (auto simp: LEARNED_ENTRY_def)
qed

interpretation lt: entry_table LEARNED_OFF LEARNED_ENTRY OPCODE_COUNT CACHE_SIZE "write_learned m" "learned_at m" for m
proof unfold_locales
  fix i b lo hi b'
  assume "learned_at m i b" and s: "same_outside lo hi b b'"
    and d: "LEARNED_OFF + i * LEARNED_ENTRY + LEARNED_ENTRY \<le> lo \<or> hi \<le> LEARNED_OFF + i * LEARNED_ENTRY"
  then show "learned_at m i b'"
    using same_outside_rd(2)[OF s, of "LEARNED_OFF + i * LEARNED_ENTRY"]
      same_outside_rd(2)[OF s, of "LEARNED_OFF + i * LEARNED_ENTRY + 4"]
      same_outside_rd(4)[OF s, of "LEARNED_OFF + i * LEARNED_ENTRY + 8"]
    by (auto simp: learned_at_def read_entry_def LEARNED_ENTRY_def)
qed (fact write_learned_ok)

lemma write_profile_ok:
  assumes "i < min (length ps) MAX_MSG_PROFILES" and "length b = CACHE_SIZE"
  shows "\<exists>b'. write_profile ps i b = Some b' \<and>
    same_outside (MSG_PROFILE_OFF + i * MSG_PROFILE_ENTRY) (MSG_PROFILE_OFF + i * MSG_PROFILE_ENTRY + MSG_PROFILE_ENTRY) b b' \<and>
    profile_at ps i b'"
proof -
  let ?off = "MSG_PROFILE_OFF + i * MSG_PROFILE_ENTRY" let ?p = "snd (ps ! i)"
  have "?off + 16 \<le> length b" using assms by (simp add: intel_consts)
  from put_entry16[OF this, of "u32_to_le (fst (ps ! i))" "u32_to_le (fast_votes ?p)" "u32_to_le (tracked_votes ?p)" "u32_to_le (profile_flags ?p)"]
  obtain b' where w: "write_profile ps i b = Some b'" "same_outside ?off (?off + 16) b b'"
    and r: "slice ?off (?off + 4) b' = Some (u32_to_le (fst (ps ! i)))"
      "slice (?off + 4) (?off + 8) b' = Some (u32_to_le (fast_votes ?p))"
      "slice (?off + 8) (?off + 8 + 4) b' = Some (u32_to_le (tracked_votes ?p))"
      "slice (?off + 12) (?off + 16) b' = Some (u32_to_le (profile_flags ?p))"
    by (auto simp: write_profile_def Let_def split_beta)
  have "profile_at ps i b'"
    using rd_u32_slice[OF r(1)] rd_u32_slice[of "?off + 4" b'] rd_u32_slice[of "?off + 8" b'] rd_u32_slice[of "?off + 12" b'] r(2-4)
    by (simp add: profile_at_def Let_def add.assoc)
  with w show ?thesis by (auto simp: MSG_PROFILE_ENTRY_def)
qed

interpretation pt: entry_table MSG_PROFILE_OFF MSG_PROFILE_ENTRY "min (length ps) MAX_MSG_PROFILES" CACHE_SIZE
  "write_profile ps" "profile_at ps" for ps
proof unfold_locales
  fix i b lo hi b'
  assume "profile_at ps i b" and s: "same_outside lo hi b b'"
    and d: "MSG_PROFILE_OFF + i * MSG_PROFILE_ENTRY + MSG_PROFILE_ENTRY \<le> lo \<or> hi \<le> MSG_PROFILE_OFF + i * MSG_PROFILE_ENTRY"
  then show "profile_at ps i b'"
    using same_outside_rd(2)[OF s, of "MSG_PROFILE_OFF + i * MSG_PROFILE_ENTRY"]
      same_outside_rd(2)[OF s, of "MSG_PROFILE_OFF + i * MSG_PROFILE_ENTRY + 4"]
      same_outside_rd(2)[OF s, of "MSG_PROFILE_OFF + i * MSG_PROFILE_ENTRY + 8"]
      same_outside_rd(2)[OF s, of "MSG_PROFILE_OFF + i * MSG_PROFILE_ENTRY + 12"]
    by (auto simp: profile_at_def MSG_PROFILE_ENTRY_def Let_def)
qed (fact write_profile_ok)

subsection \<open>Reading back what was flushed\<close>

definition intel_wf :: "intel_manager \<Rightarrow> bool" where
  "intel_wf m \<longleftrightarrow> length (prior m) = OPCODE_COUNT \<and> length (hints m) = OPCODE_COUNT \<and>
     length (run_calls m) = OPCODE_COUNT \<and> length (run_stubs m) = OPCODE_COUNT \<and>
     length (post_stub_requests m) = OPCODE_COUNT \<and>
     (case preserved_buf m of
        Some b \<Rightarrow> CACHE_V2_SIZE \<le> length b \<and> length b \<le> CACHE_SIZE \<and> read_hints b = Some (hints m)
      | None \<Rightarrow> hints m = replicate OPCODE_COUNT HINT_UNKNOWN)"

definition profile_storable :: "u32 \<times> msg_profile \<Rightarrow> bool" where
  "profile_storable x \<longleftrightarrow> profile_used x \<and> observations (snd x) < 2 ^ 31"

lemma flags_split:
  assumes "(w :: u32) < 2 ^ 31"
  shows "(w OR (if b then 0x80000000 else 0)) AND 0x7FFFFFFF = w"
    and "(w OR (if b then 0x80000000 else 0)) AND 0x80000000 \<noteq> 0 \<longleftrightarrow> b"
proof -
  have t: "take_bit 31 w = w" using assms by (simp add: take_bit_eq_mod mod_word_less)
  have low: "w AND 0x7FFFFFFF = w"
  proof -
    have "(0x7FFFFFFF :: u32) = mask 31" by (simp add: mask_eq_exp_minus_1)
    then show ?thesis using t by (simp only: take_bit_eq_mask)
  qed
  have high: "w AND 0x80000000 = 0"
  proof -
    have "w AND 0x80000000 = (w AND 0x7FFFFFFF) AND 0x80000000" using low by simp
    also have "\<dots> = w AND (0x7FFFFFFF AND 0x80000000)" by (simp only: and.assoc)
    also have "\<dots> = 0" by simp
    finally show ?thesis .
  qed
  let ?t = "if b then 0x80000000 else 0 :: u32"
  have "(w OR ?t) AND 0x7FFFFFFF = (w AND 0x7FFFFFFF) OR (?t AND 0x7FFFFFFF)" by (rule bit.conj_disj_distrib2)
  then show "(w OR ?t) AND 0x7FFFFFFF = w" using low by simp
  have "(w OR ?t) AND 0x80000000 = (w AND 0x80000000) OR (?t AND 0x80000000)" by (rule bit.conj_disj_distrib2)
  then show "(w OR ?t) AND 0x80000000 \<noteq> 0 \<longleftrightarrow> b" using high by simp
qed

lemma profile_at_read:
  assumes "profile_at ps i b" and "profile_storable (ps ! i)"
  shows "read_profile (MSG_PROFILE_OFF + i * MSG_PROFILE_ENTRY) b = Some (ps ! i)"
proof -
  obtain c p where x: "ps ! i = (c, p)" by (cases "ps ! i")
  have "observations p < 2 ^ 31" using assms(2) x by (simp add: profile_storable_def)
  from flags_split[OF this, of "promoted p"] assms(1) show ?thesis
    unfolding x read_profile_def by (simp add: profile_at_def x Let_def profile_flags_def)
qed

lemma read_profiles_back:
  assumes "\<And>j. i \<le> j \<Longrightarrow> j < i + n \<Longrightarrow> profile_at ps j b \<and> profile_storable (ps ! j)"
    and "length b = CACHE_SIZE" and "i + n \<le> MAX_MSG_PROFILES"
  shows "read_profiles i n b = Some (map ((!) ps) [i..<i + n])"
  using assms
proof (induction n arbitrary: i)
  case (Suc n)
  have "read_profile (MSG_PROFILE_OFF + i * MSG_PROFILE_ENTRY) b = Some (ps ! i)"
    using Suc.prems(1)[of i] profile_at_read by simp
  moreover have "profile_used (ps ! i)" using Suc.prems(1)[of i] by (simp add: profile_storable_def)
  moreover have "read_profiles (Suc i) n b = Some (map ((!) ps) [Suc i..<Suc i + n])"
    using Suc.prems by (intro Suc.IH) auto
  moreover have "\<not> MSG_PROFILE_OFF + i * MSG_PROFILE_ENTRY + MSG_PROFILE_ENTRY > length b"
    using Suc.prems(2,3) by (simp add: intel_consts)
  moreover have "[i..<i + Suc n] = i # [Suc i..<Suc i + n]" by (simp add: upt_conv_Cons del: upt_Suc)
  ultimately show ?case by (simp del: upt_Suc)
qed simp

lemma read_hints_same_outside:
  assumes "length b' = CACHE_SIZE"
    and "\<And>i. i < OPCODE_COUNT \<Longrightarrow> rd_u32 (OPCODE_INTEL_OFF + i * OPCODE_INTEL_ENTRY) b' =
                rd_u32 (OPCODE_INTEL_OFF + i * OPCODE_INTEL_ENTRY) b"
  shows "read_hints b' = read_hints b"
  unfolding read_hints_def using assms(2) by (intro arg_cong[of _ _ those] map_cong) auto

definition flush_base :: "intel_manager \<Rightarrow> bytes" where
  "flush_base m = resize CACHE_SIZE 0 (case preserved_buf m of Some b \<Rightarrow> b | None \<Rightarrow> replicate CACHE_SIZE 0)"

lemma read_hints_base:
  assumes "intel_wf m"
  shows "read_hints (flush_base m) = Some (hints m)"
proof (cases "preserved_buf m")
  case None
  have "rd_u32 (OPCODE_INTEL_OFF + i * OPCODE_INTEL_ENTRY) (flush_base m) = Some HINT_UNKNOWN"
    if "i < OPCODE_COUNT" for i
    using that None
    by (simp add: flush_base_def resize_def rd_u32_def slice_def intel_consts HINT_UNKNOWN_def)
       (simp add: u32_from_le_def numeral_eq_Suc)
  then have "read_hints (flush_base m) = Some (map (\<lambda>_. HINT_UNKNOWN) [0..<OPCODE_COUNT])"
    unfolding read_hints_def by (intro those_map_Some) auto
  then show ?thesis using assms None by (simp add: intel_wf_def map_replicate_const)
next
  case (Some pb)
  then have l: "CACHE_V2_SIZE \<le> length pb" "read_hints pb = Some (hints m)" using assms by (auto simp: intel_wf_def)
  have "rd_u32 (OPCODE_INTEL_OFF + i * OPCODE_INTEL_ENTRY) (flush_base m) =
        rd_u32 (OPCODE_INTEL_OFF + i * OPCODE_INTEL_ENTRY) pb" if "i < OPCODE_COUNT" for i
    using that l(1) Some by (simp add: flush_base_def c32.rd_resize intel_consts)
  then have "read_hints (flush_base m) = read_hints pb"
    unfolding read_hints_def by (intro arg_cong[of _ _ those] map_cong) auto
  with l show ?thesis by simp
qed

lemma flush_buf_correct:
  assumes "intel_wf m"
  shows "\<exists>b. flush_buf m now ps = Some b \<and> length b = CACHE_SIZE \<and> take 4 b = CACHE_MAGIC \<and>
    rd_u32 4 b = Some CACHE_VERSION \<and> rd_u32 12 b = Some (flush_flags m) \<and>
    rd_u32 16 b = rd_u32 16 (flush_base m) \<and> rd_u32 20 b = Some (prior_run_count m + 1) \<and>
    rd_u32 36 b = Some (of_nat (min (length ps) MAX_MSG_PROFILES)) \<and> read_hints b = Some (hints m) \<and>
    (\<forall>i < OPCODE_COUNT. learned_at m i b) \<and> (\<forall>i < min (length ps) MAX_MSG_PROFILES. profile_at ps i b)"
proof -
  let ?n = "min (length ps) MAX_MSG_PROFILES"
  have l0: "length (flush_base m) = CACHE_SIZE" by (simp add: flush_base_def)
  obtain b1 where 1: "put 0 CACHE_MAGIC (flush_base m) = Some b1" "length b1 = CACHE_SIZE"
    using put_total[of 0 CACHE_MAGIC "flush_base m"] l0 by (auto simp: CACHE_MAGIC_def CACHE_SIZE_def)
  have hdr: "\<exists>b'. put k (u32_to_le w) b = Some b' \<and> length b' = CACHE_SIZE"
    if "k \<le> 60" "length b = CACHE_SIZE" for k w b
    using put_total[of k "u32_to_le w" b] that by (simp add: CACHE_SIZE_def)
  obtain b2 where 2: "put 4 (u32_to_le CACHE_VERSION) b1 = Some b2" "length b2 = CACHE_SIZE" using hdr[of 4 b1] 1 by auto
  obtain b3 where 3: "put 12 (u32_to_le (flush_flags m)) b2 = Some b3" "length b3 = CACHE_SIZE" using hdr[of 12 b2] 2 by auto
  obtain b4 where 4: "put 20 (u32_to_le (prior_run_count m + 1)) b3 = Some b4" "length b4 = CACHE_SIZE" using hdr[of 20 b3] 3 by auto
  obtain b5 where 5: "put 24 (u32_to_le now) b4 = Some b5" "length b5 = CACHE_SIZE" using hdr[of 24 b4] 4 by auto
  obtain b6 where 6: "put 32 (u32_to_le (coverage_pct m)) b5 = Some b6" "length b6 = CACHE_SIZE" using hdr[of 32 b5] 5 by auto
  obtain b7 where 7: "for_range 0 OPCODE_COUNT (write_learned m) b6 = Some b7"
      "same_outside LEARNED_OFF (LEARNED_OFF + OPCODE_COUNT * LEARNED_ENTRY) b6 b7" "\<forall>i<OPCODE_COUNT. learned_at m i b7"
    using lt.write_all[OF 6(2)] by blast
  have 77: "length b7 = CACHE_SIZE" using same_outside_length[OF 7(2)] 6(2) by simp
  obtain b8 where 8: "for_range 0 ?n (write_profile ps) b7 = Some b8"
      "same_outside MSG_PROFILE_OFF (MSG_PROFILE_OFF + ?n * MSG_PROFILE_ENTRY) b7 b8" "\<forall>i<?n. profile_at ps i b8"
    using pt.write_all[OF 77] by blast
  have 88: "length b8 = CACHE_SIZE" using same_outside_length[OF 8(2)] 77 by simp
  obtain b9 where 9: "put 36 (u32_to_le (of_nat ?n)) b8 = Some b9" "length b9 = CACHE_SIZE" using hdr[of 36 b8] 88 by auto
  have f: "flush_buf m now ps = Some b9"
    unfolding flush_buf_def flush_base_def[symmetric] Let_def using 1 2 3 4 5 6 7 8 9 by simp
  have "same_outside 0 40 (flush_base m) b1" using same_outside_put[OF 1(1), of 0 40] by (simp add: CACHE_MAGIC_def)
  note so = this same_outside_put[OF 2(1), of 0 40, simplified] same_outside_put[OF 3(1), of 0 40, simplified]
    same_outside_put[OF 4(1), of 0 40, simplified] same_outside_put[OF 5(1), of 0 40, simplified]
    same_outside_put[OF 6(1), of 0 40, simplified]
  note h = same_outside_trans[OF same_outside_trans[OF same_outside_trans[OF same_outside_trans[OF
    same_outside_trans[OF so(1,2)] so(3)] so(4)] so(5)] so(6)]
  note p9 = same_outside_put[OF 9(1), of 36 40, simplified]
  have low: "rd_u32 k b9 = rd_u32 k b6" if "k + 4 \<le> 36" for k
    using same_outside_rd(2)[OF p9, of k] same_outside_rd(2)[OF 8(2), of k] same_outside_rd(2)[OF 7(2), of k] that
    by (simp add: intel_consts)
  have r: "rd_u32 4 b9 = Some CACHE_VERSION" "rd_u32 12 b9 = Some (flush_flags m)"
      "rd_u32 16 b9 = rd_u32 16 (flush_base m)" "rd_u32 20 b9 = Some (prior_run_count m + 1)"
    using low c32.rd_put_same[OF 2(1)] c32.rd_put_same[OF 3(1)] c32.rd_put_same[OF 4(1)]
      c32.rd_put_other[OF 1(1), of 16] c32.rd_put_other[OF 2(1), of 16] c32.rd_put_other[OF 3(1)]
      c32.rd_put_other[OF 4(1)] c32.rd_put_other[OF 5(1)] c32.rd_put_other[OF 6(1)]
    by (simp_all add: CACHE_MAGIC_def)
  have "slice 0 4 b9 = Some CACHE_MAGIC"
    using slice_put_same[OF 1(1), of 4] slice_put_other[OF 2(1), of 4 0] slice_put_other[OF 3(1), of 4 0]
      slice_put_other[OF 4(1), of 4 0] slice_put_other[OF 5(1), of 4 0] slice_put_other[OF 6(1), of 4 0]
      same_outside_slice[OF 7(2), of 4 0] same_outside_slice[OF 8(2), of 4 0] slice_put_other[OF 9(1), of 4 0]
    by (simp add: CACHE_MAGIC_def intel_consts)
  then have mg: "take 4 b9 = CACHE_MAGIC" by (simp add: slice_def split: if_splits)
  have "rd_u32 (OPCODE_INTEL_OFF + i * OPCODE_INTEL_ENTRY) b9 = rd_u32 (OPCODE_INTEL_OFF + i * OPCODE_INTEL_ENTRY) (flush_base m)"
    if "i < OPCODE_COUNT" for i
    using that same_outside_rd(2)[OF p9] same_outside_rd(2)[OF 8(2)] same_outside_rd(2)[OF 7(2)] same_outside_rd(2)[OF h]
    by (simp add: intel_consts)
  then have hs: "read_hints b9 = Some (hints m)"
    using read_hints_same_outside[OF 9(2)] read_hints_base[OF assms] by simp
  have la: "\<forall>i < OPCODE_COUNT. learned_at m i b9"
    using 7(3) 8(2) 77 88 p9 lt.entry_stable[OF _ _ 77 8(2)] lt.entry_stable[OF _ _ 88 p9]
    by (simp add: intel_consts)
  have pa: "\<forall>i < ?n. profile_at ps i b9" using 8(3) pt.entry_stable[OF _ _ 88 p9] by (simp add: intel_consts)
  show ?thesis using f 9(2) r mg hs la pa c32.rd_put_same[OF 9(1)] by blast
qed

text \<open>Recording and loading keep the manager well formed, and loading never panics.\<close>

lemma record_call_wf: "intel_wf m \<Longrightarrow> intel_wf (record_call m k)"
  by (auto simp: intel_wf_def record_call_def split: option.splits)

lemma record_stub_wf: "intel_wf m \<Longrightarrow> intel_wf (record_stub m k)"
  by (auto simp: intel_wf_def record_stub_def split: option.splits)

lemma intel_blank_wf: "intel_wf (intel_blank p)"
  by (simp add: intel_wf_def intel_blank_def)

lemma read_entry_total: "off + 9 \<le> length b \<Longrightarrow> \<exists>e. read_entry off b = Some e"
  using c32.rd_total[of off b] c32.rd_total[of "off + 4" b] by (auto simp: read_entry_def rd_u8_def)

lemma read_hints_total: "CACHE_V2_SIZE \<le> length b \<Longrightarrow> \<exists>hs. read_hints b = Some hs \<and> length hs = OPCODE_COUNT"
  unfolding read_hints_def
  using those_total[of "[0..<OPCODE_COUNT]" "\<lambda>i. rd_u32 (OPCODE_INTEL_OFF + i * OPCODE_INTEL_ENTRY) b"]
    c32.rd_total[of _ b] by (simp add: intel_consts)

lemma rd_u32_take: "off + 4 \<le> n \<Longrightarrow> rd_u32 off (take n b) = rd_u32 off b"
  by (auto simp: rd_u32_def slice_def drop_take min_def)

lemma take_wf:
  assumes "read_hints b = Some hs" and "CACHE_V2_SIZE \<le> length b"
  shows "read_hints (take (min (length b) CACHE_SIZE) b) = Some hs"
proof -
  have "rd_u32 (OPCODE_INTEL_OFF + i * OPCODE_INTEL_ENTRY) (take (min (length b) CACHE_SIZE) b) =
        rd_u32 (OPCODE_INTEL_OFF + i * OPCODE_INTEL_ENTRY) b" if "i < OPCODE_COUNT" for i
    using that assms(2) by (intro rd_u32_take) (simp add: intel_consts)
  then have "read_hints (take (min (length b) CACHE_SIZE) b) = read_hints b"
    unfolding read_hints_def by (intro arg_cong[of _ _ those] map_cong) auto
  then show ?thesis using assms(1) by simp
qed

lemma load_v2_ok:
  assumes "intel_wf m" and "CACHE_V2_SIZE \<le> length b"
  shows "\<exists>m'. load_v2 m b = Some m' \<and> intel_wf m' \<and> loaded_msg_profiles m' = loaded_msg_profiles m"
proof -
  obtain fl et rc where h: "rd_u32 12 b = Some fl" "rd_u32 16 b = Some et" "rd_u32 20 b = Some rc"
    using c32.rd_total[of 12 b] c32.rd_total[of 16 b] c32.rd_total[of 20 b] assms(2) by (auto simp: intel_consts)
  obtain hs where hs: "read_hints b = Some hs" "length hs = OPCODE_COUNT" using read_hints_total[OF assms(2)] by blast
  have "\<exists>e. read_entry (LEARNED_OFF + i * LEARNED_ENTRY) b = Some e" if "i \<in> set [0..<OPCODE_COUNT]" for i
    using that assms(2) by (intro read_entry_total) (simp add: intel_consts)
  from those_total[of "[0..<OPCODE_COUNT]" "\<lambda>i. read_entry (LEARNED_OFF + i * LEARNED_ENTRY) b", OF this] obtain es where
    es: "those (map (\<lambda>i. read_entry (LEARNED_OFF + i * LEARNED_ENTRY) b) [0..<OPCODE_COUNT]) = Some es" "length es = OPCODE_COUNT"
    by auto
  show ?thesis
    using h hs es take_wf[OF hs(1) assms(2)] assms by (auto simp: load_v2_def intel_wf_def intel_consts)
qed

lemma load_v1_ok:
  assumes "intel_wf m" and "V1_FILE_SIZE \<le> length b" and "preserved_buf m = None"
  shows "\<exists>m'. load_v1 m b = Some m' \<and> intel_wf m'"
proof -
  obtain rc where h: "rd_u32 8 b = Some rc" using c32.rd_total[of 8 b] assms(2) by (auto simp: intel_consts)
  have "\<exists>e. read_entry (V1_HEADER_SIZE + i * V1_ENTRY_SIZE) b = Some e" if "i \<in> set [0..<OPCODE_COUNT]" for i
    using that assms(2) by (intro read_entry_total) (simp add: intel_consts)
  from those_total[of "[0..<OPCODE_COUNT]" "\<lambda>i. read_entry (V1_HEADER_SIZE + i * V1_ENTRY_SIZE) b", OF this] obtain es where
    es: "those (map (\<lambda>i. read_entry (V1_HEADER_SIZE + i * V1_ENTRY_SIZE) b) [0..<OPCODE_COUNT]) = Some es" "length es = OPCODE_COUNT"
    by auto
  show ?thesis using h es assms by (auto simp: load_v1_def intel_wf_def)
qed

lemma read_profiles_total: "\<exists>xs. read_profiles i n b = Some xs"
proof (induction n arbitrary: i)
  case (Suc n)
  let ?off = "MSG_PROFILE_OFF + i * MSG_PROFILE_ENTRY"
  have "\<exists>x. read_profile ?off b = Some x" if "?off + MSG_PROFILE_ENTRY \<le> length b"
    using that c32.rd_total[of ?off b] c32.rd_total[of "?off + 4" b] c32.rd_total[of "?off + 8" b]
      c32.rd_total[of "?off + 12" b] by (auto simp: read_profile_def MSG_PROFILE_ENTRY_def)
  with Suc[of "Suc i"] show ?case by (auto simp: Let_def not_less)
qed simp

lemma load_msg_profiles_ok:
  assumes "intel_wf m" and "CACHE_SIZE \<le> length b"
  shows "\<exists>m'. load_msg_profiles m b = Some m' \<and> intel_wf m'"
proof -
  obtain pc where "rd_u32 36 b = Some pc" using c32.rd_total[of 36 b] assms(2) by (auto simp: CACHE_SIZE_def)
  moreover obtain xs where "read_profiles 0 (min (unat pc) MAX_MSG_PROFILES) b = Some xs" using read_profiles_total by blast
  ultimately show ?thesis using assms(1) by (auto simp: load_msg_profiles_def intel_wf_def split: option.splits)
qed

lemma record_call_fold:
  assumes "\<forall>k\<in>set ops. k < OPCODE_COUNT" and "intel_wf m" and "i < OPCODE_COUNT" and "run_stubs m ! i > 0"
    and "post_stub_requests m ! i \<le> 11"
  shows "let m' = fold (\<lambda>k m. record_call m k) ops m in
     intel_wf m' \<and> run_stubs m' = run_stubs m \<and> prior m' = prior m \<and> hints m' = hints m \<and>
     unat (post_stub_requests m' ! i) = min 11 (unat (post_stub_requests m ! i) + length ops)"
  using assms
proof (induction ops arbitrary: m)
  case Nil
  then show ?case by (simp add: word_le_nat_alt)
next
  case (Cons k ops)
  let ?m = "record_call m k" let ?p = "post_stub_requests m ! i"
  have st: "run_stubs ?m = run_stubs m" "prior ?m = prior m" "hints ?m = hints m" by (auto simp: record_call_def)
  have p: "post_stub_requests ?m ! i = (if ?p < 11 then ?p + 1 else ?p)"
    using Cons.prems by (simp add: record_call_def STABLE_THRESHOLD_def)
  have u: "unat (post_stub_requests ?m ! i) = min 11 (unat ?p + 1)"
  proof (cases "?p < 11")
    case True
    then have "unat (?p + 1) = unat ?p + 1" by (intro unat_inc_u32) (simp add: word_less_nat_alt)
    then show ?thesis using True p by (simp add: word_less_nat_alt)
  next
    case False
    then have "?p = 11" using Cons.prems(5) by simp
    then show ?thesis using p by simp
  qed
  then have "post_stub_requests ?m ! i \<le> 11" by (simp add: word_le_nat_alt)
  with Cons.IH[of ?m] Cons.prems st record_call_wf[OF Cons.prems(2)] u show ?case by (simp add: Let_def)
qed

lemma flush_then_load:
  assumes "intel_wf m" and "length ps \<le> MAX_MSG_PROFILES" and "\<forall>x\<in>set ps. profile_storable x"
  shows "\<exists>b m'. flush_buf m now ps = Some b \<and> length b = CACHE_SIZE \<and>
    intel_new (Some path) (Some b) v1 = Some m' \<and>
    prior m' = map (learned_entry m) [0..<OPCODE_COUNT] \<and> prior_run_count m' = prior_run_count m + 1 \<and>
    hints m' = hints m \<and> cache_flags m' = flush_flags m \<and> loaded_msg_profiles m' = ps"
proof -
  have n: "min (length ps) MAX_MSG_PROFILES = length ps" using assms(2) by simp
  from flush_buf_correct[OF assms(1), of now ps] obtain b where f: "flush_buf m now ps = Some b" "length b = CACHE_SIZE"
    and mg: "take 4 b = CACHE_MAGIC" and r: "rd_u32 4 b = Some CACHE_VERSION" "rd_u32 12 b = Some (flush_flags m)"
      "rd_u32 20 b = Some (prior_run_count m + 1)" "rd_u32 36 b = Some (of_nat (length ps))"
    and hs: "read_hints b = Some (hints m)" and la: "\<forall>i < OPCODE_COUNT. learned_at m i b"
    and pa: "\<forall>i < length ps. profile_at ps i b" unfolding n by blast
  obtain et where et: "rd_u32 16 b = Some et" using c32.rd_total[of 16 b] f(2) by (auto simp: CACHE_SIZE_def)
  have es: "those (map (\<lambda>i. read_entry (LEARNED_OFF + i * LEARNED_ENTRY) b) [0..<OPCODE_COUNT]) =
      Some (map (learned_entry m) [0..<OPCODE_COUNT])"
    using la by (intro those_map_Some) (simp add: learned_at_def)
  have pc: "unat (of_nat (length ps) :: u32) = length ps"
    using assms(2) by (intro unat_of_nat_u32) (simp add: MAX_MSG_PROFILES_def)
  have "read_profiles 0 (length ps) b = Some (map ((!) ps) [0..<0 + length ps])"
    using pa assms(2,3) f(2) by (intro read_profiles_back) auto
  then have rp: "read_profiles 0 (length ps) b = Some ps" by (simp add: map_nth)
  let ?m1 = "(intel_blank (Some path))\<lparr>preserved_buf := Some (take (min (length b) CACHE_SIZE) b), cache_flags := flush_flags m,
      engine_type := et, prior_run_count := prior_run_count m + 1, hints := hints m,
      prior := map (learned_entry m) [0..<OPCODE_COUNT]\<rparr>"
  have "load_v2 (intel_blank (Some path)) b = Some ?m1" by (simp add: load_v2_def r et hs es)
  moreover have "load_msg_profiles ?m1 b = Some (?m1\<lparr>loaded_msg_profiles := ps\<rparr>)"
    using assms(2) by (simp add: load_msg_profiles_def r pc rp n intel_blank_def)
  ultimately have "intel_new (Some path) (Some b) v1 = Some (?m1\<lparr>loaded_msg_profiles := ps\<rparr>)"
    using f(2) mg r(1) by (simp add: intel_new_def intel_load_def intel_blank_def CACHE_VERSION_def CACHE_V2_SIZE_def CACHE_SIZE_def)
  with f show ?thesis by simp
qed

subsection \<open>Properties of the cache\<close>

text \<open>
  C12. Flushing never panics and writes a file of exactly the cache size; a later start that reads this
  file recovers the merged opcode statistics, one more run, the engine hints, the updated flags and
  every message profile (up to 256 of them, with fewer than $2^{31}$ observations each).
\<close>

theorem intel_cache_roundtrip:
  assumes "intel_wf m" and "length ps \<le> MAX_MSG_PROFILES" and "\<forall>x\<in>set ps. profile_storable x"
  shows "\<exists>b m'. flush_buf m now ps = Some b \<and> length b = CACHE_SIZE \<and>
    intel_new (Some path) (Some b) v1 = Some m' \<and>
    prior m' = map (learned_entry m) [0..<OPCODE_COUNT] \<and> prior_run_count m' = prior_run_count m + 1 \<and>
    hints m' = hints m \<and> cache_flags m' = flush_flags m \<and> loaded_msg_profiles m' = ps"
  using flush_then_load[OF assms] .

theorem intel_cache_roundtrip_witness:
  "\<exists>b m'. flush_buf (intel_blank (Some ''c'')) 7 [(5, \<lparr>fast_votes = 9, tracked_votes = 0, observations = 9, promoted = True\<rparr>)] = Some b \<and>
    intel_new (Some ''c'') (Some b) None = Some m' \<and> prior_run_count m' = 1 \<and>
    loaded_msg_profiles m' = [(5, \<lparr>fast_votes = 9, tracked_votes = 0, observations = 9, promoted = True\<rparr>)]"
proof -
  have r: "prior_run_count (intel_blank (Some ''c'')) + 1 = 1" by (simp add: intel_blank_def)
  show ?thesis
    using intel_cache_roundtrip[OF intel_blank_wf[of "Some ''c''"],
        of "[(5, \<lparr>fast_votes = 9, tracked_votes = 0, observations = 9, promoted = True\<rparr>)]" 7 "''c''" None]
    by (simp add: r profile_storable_def profile_used_def MAX_MSG_PROFILES_def) blast
qed

text \<open>
  Start-up never panics on the cache files: whatever bytes the two files hold (truncated, corrupted,
  of another version), loading returns a well-formed manager.
\<close>

theorem intel_load_never_panics:
  "\<exists>m. intel_new path f v1 = Some m \<and> intel_wf m"
proof -
  let ?b = "intel_blank path"
  have wf: "intel_wf ?b" "preserved_buf ?b = None" by (rule intel_blank_wf) (simp add: intel_blank_def)
  have v1: "\<exists>m. (case v1 of Some data \<Rightarrow>
        if length data \<ge> V1_FILE_SIZE \<and> take 4 data = V1_MAGIC then load_v1 ?b data else Some ?b
      | None \<Rightarrow> Some ?b) = Some m \<and> intel_wf m"
    using wf load_v1_ok[OF wf(1) _ wf(2)] by (cases v1) auto
  have v2: "\<exists>m. (case load_v2 ?b data of None \<Rightarrow> None | Some m1 \<Rightarrow>
        if length data \<ge> CACHE_SIZE then load_msg_profiles m1 data else Some m1) = Some m \<and> intel_wf m"
    if "CACHE_V2_SIZE \<le> length data" for data
    using load_v2_ok[OF wf(1) that] load_msg_profiles_ok by fastforce
  have "\<exists>v. rd_u32 4 data = Some v" if "CACHE_V2_SIZE \<le> length data" for data
    using c32.rd_total[of 4 data] that by (simp add: CACHE_V2_SIZE_def)
  note ver = this
  show ?thesis
  proof (cases "cache_path ?b")
    case None
    then show ?thesis using wf(1) by (simp add: intel_new_def intel_load_def)
  next
    case (Some p)
    show ?thesis
    proof (cases "\<exists>data. f = Some data \<and> CACHE_V2_SIZE \<le> length data \<and> take 4 data = CACHE_MAGIC")
      case True
      then obtain data v m2 where d: "f = Some data" "CACHE_V2_SIZE \<le> length data" "take 4 data = CACHE_MAGIC"
        "rd_u32 4 data = Some v" using ver by blast
      show ?thesis
      proof (cases "v = 2 \<or> v = 3")
        case True
        then have "intel_new path f v1 = (case load_v2 ?b data of None \<Rightarrow> None | Some m1 \<Rightarrow>
            if length data \<ge> CACHE_SIZE then load_msg_profiles m1 data else Some m1)"
          using d Some by (simp add: intel_new_def intel_load_def Option.bind_def split: option.splits)
        with v2[OF d(2)] show ?thesis by presburger
      next
        case False
        with d Some v1 show ?thesis by (simp add: intel_new_def intel_load_def)
      qed
    next
      case False
      with Some v1 show ?thesis by (cases f) (auto simp: intel_new_def intel_load_def)
    qed
  qed
qed

text \<open>
  The stub decision learns from the last run: an opcode whose stub was followed by at most three
  requests before shutdown (and that was not already known stable) is not stubbed in the next run, one
  followed by ten or more requests is, and a vararg reply is never stubbed.
\<close>

theorem auto_stub_learns_from_last_run:
  assumes "intel_wf m" and "k < OPCODE_COUNT" and "run_stubs m ! k + 1 \<noteq> 0"
    and "hints m ! k = HINT_UNKNOWN" and "\<forall>c\<in>set calls. c < OPCODE_COUNT"
    and "m1 = fold (\<lambda>c m. record_call m c) calls (record_stub m k)"
  shows "\<exists>b m'. flush_buf m1 now [] = Some b \<and> intel_new (Some path) (Some b) v1 = Some m' \<and>
    (length calls \<le> 3 \<and> stability (prior m ! k) \<noteq> STABILITY_STABLE \<longrightarrow> \<not> should_auto_stub m' k False) \<and>
    (10 \<le> length calls \<longrightarrow> should_auto_stub m' k False) \<and> \<not> should_auto_stub m' k True"
proof -
  let ?m0 = "record_stub m k"
  have l: "length (run_stubs m) = OPCODE_COUNT" "length (post_stub_requests m) = OPCODE_COUNT"
    using assms(1) by (auto simp: intel_wf_def)
  have m0: "run_stubs ?m0 ! k = run_stubs m ! k + 1" "post_stub_requests ?m0 ! k = 0" "prior ?m0 = prior m" "hints ?m0 = hints m"
    using assms(2) l by (simp_all add: record_stub_def)
  have s0: "run_stubs ?m0 ! k > 0" using assms(3) m0(1) by (simp add: word_neq_0_conv[symmetric] del: word_neq_0_conv)
  from record_call_fold[OF assms(5) record_stub_wf[OF assms(1), of k] assms(2) s0] m0(2)
  have m1: "intel_wf m1" "run_stubs m1 ! k > 0" "prior m1 = prior m" "hints m1 = hints m"
      "unat (post_stub_requests m1 ! k) = min 11 (length calls)"
    using s0 m0 by (simp_all add: Let_def assms(6))
  from flush_then_load[OF m1(1), of "[]" now path v1] obtain b m' where
    b: "flush_buf m1 now [] = Some b" "intel_new (Some path) (Some b) v1 = Some m'"
      "prior m' = map (learned_entry m1) [0..<OPCODE_COUNT]" "hints m' = hints m1" by auto
  have st: "stability (prior m' ! k) = new_stability m1 k" "hints m' ! k = HINT_UNKNOWN"
    using b assms(2,4) m1(4) by (simp_all add: learned_entry_def)
  have "length calls \<le> 3 \<Longrightarrow> post_stub_requests m1 ! k \<le> 3 \<and> \<not> post_stub_requests m1 ! k \<ge> 10"
    "10 \<le> length calls \<Longrightarrow> post_stub_requests m1 ! k \<ge> 10"
    using m1(5) by (auto simp: word_le_nat_alt)
  with b(1,2) st assms(2) m1(2,3) show ?thesis
    by (auto simp: should_auto_stub_def new_stability_def HINT_UNKNOWN_def HINT_CRITICAL_def HINT_SAFE_TO_STUB_def
        HINT_NEVER_CALLED_def STABLE_THRESHOLD_def UNSTABLE_THRESHOLD_def STABILITY_STABLE_def STABILITY_UNSTABLE_def)
qed

theorem auto_stub_learns_from_last_run_witness:
  "\<exists>b m'. flush_buf (fold (\<lambda>c m. record_call m c) [1, 2] (record_stub (intel_blank (Some ''c'')) 5)) 7 [] = Some b \<and>
     intel_new (Some ''c'') (Some b) None = Some m' \<and> \<not> should_auto_stub m' 5 False"
proof -
  let ?b = "intel_blank (Some ''c'')"
  have c: "5 < OPCODE_COUNT" "\<forall>c\<in>set [1, 2]. c < OPCODE_COUNT" by (simp_all add: OPCODE_COUNT_def)
  have f: "run_stubs ?b ! 5 + 1 \<noteq> 0" "hints ?b ! 5 = HINT_UNKNOWN" "stability (prior ?b ! 5) \<noteq> STABILITY_STABLE"
    using c(1) by (simp_all add: intel_blank_def STABILITY_UNKNOWN_def STABILITY_STABLE_def)
  have "length [1, 2 :: nat] \<le> 3" by simp
  with auto_stub_learns_from_last_run[OF intel_blank_wf c(1) f(1,2) c(2) refl, of 7 "''c''" None] f(3)
  show ?thesis by blast
qed

end
