(* ===== verification/Registry.thy ===== *)
theory Registry
  imports Ustring "HOL-Library.List_Lexorder" "HOL-Library.Multiset"
begin

text \<open>
  The in-memory registry tree of \<^verbatim>\<open>triskelion/registry.rs\<close>: keys, values, handles, symbolic links
  and change notifications.  A \<^verbatim>\<open>HashMap<RegName, _>\<close> is an association list looked up by
  the lower-case name; an insertion under an existing name keeps the stored key, as Rust does.
  The tree walk of the code can panic while it looks for similarly named siblings (it slices a
  string at byte 3), so \<open>walk\<close> and its callers return an outer \<open>option\<close> whose \<open>None\<close> is that panic.
  The argument \<open>lc\<close> is \<^verbatim>\<open>str::to_lowercase\<close>.
\<close>

named_theorems reg_defs \<open>definitions of the registry operations\<close>

section \<open>Names and hash maps keyed by them\<close>

record reg_name =
  original :: ustr
  lower :: ustr

type_synonym lower_fun = "ustr \<Rightarrow> ustr"
type_synonym 'v name_map = "(reg_name \<times> 'v) list"
type_synonym path = "reg_name list"

definition reg_name_new :: "lower_fun \<Rightarrow> ustr \<Rightarrow> reg_name" where
  "reg_name_new lc s = \<lparr>original = s, lower = lc s\<rparr>"

definition from_utf16le :: "lower_fun \<Rightarrow> bytes \<Rightarrow> reg_name" where
  "from_utf16le lc bs = reg_name_new lc (trim_end_by (\<lambda>c. c = 0) (utf16le_to_string bs))"

definition same_name :: "reg_name \<Rightarrow> reg_name \<Rightarrow> bool" where
  "same_name a b \<longleftrightarrow> lower a = lower b"

definition same_path :: "path \<Rightarrow> path \<Rightarrow> bool" where
  "same_path p q \<longleftrightarrow> map lower p = map lower q"

fun hm_get :: "reg_name \<Rightarrow> 'v name_map \<Rightarrow> 'v option" where
  "hm_get n [] = None"
| "hm_get n ((k, v) # m) = (if same_name k n then Some v else hm_get n m)"

fun hm_insert :: "reg_name \<Rightarrow> 'v \<Rightarrow> 'v name_map \<Rightarrow> 'v name_map" where
  "hm_insert n v [] = [(n, v)]"
| "hm_insert n v ((k, x) # m) = (if same_name k n then (k, v) # m else (k, x) # hm_insert n v m)"

definition hm_remove :: "reg_name \<Rightarrow> 'v name_map \<Rightarrow> 'v name_map" where
  "hm_remove n m = filter (\<lambda>(k, _). \<not> same_name k n) m"

abbreviation hm_names :: "'v name_map \<Rightarrow> ustr list" where
  "hm_names m \<equiv> map (lower \<circ> fst) m"

section \<open>Keys and values\<close>

record reg_value =
  data_type :: u32
  data :: bytes

datatype reg_key = RegKey (children: "(reg_name \<times> reg_key) list")
  (rvalues: "(reg_name \<times> reg_value) list") (value_names: "reg_name list")

definition key_new :: reg_key where
  "key_new = RegKey [] [] []"

record reg_notify =
  n_path :: path
  n_pid :: u32
  n_event :: u32
  n_subtree :: bool
  n_filter :: u32

record registry =
  root :: reg_key
  open_keys :: "u32 \<Rightarrow> path option"
  next_hkey :: u32
  write_seq :: u64
  user_sid :: ustr
  notify_list :: "reg_notify list"

text \<open>The insertion of a value: its name is appended once, an existing value is replaced.\<close>

definition put_value :: "reg_name \<Rightarrow> reg_value \<Rightarrow> reg_key \<Rightarrow> reg_key" where
  "put_value n v k = RegKey (children k) (hm_insert n v (rvalues k))
     (if hm_get n (rvalues k) = None then value_names k @ [n] else value_names k)"

section \<open>Paths and tree walks\<close>

definition parse_key_path :: "lower_fun \<Rightarrow> bytes \<Rightarrow> path" where
  "parse_key_path lc bs =
     map (reg_name_new lc) (filter (\<lambda>s. s \<noteq> []) (split_on 92 (utf16le_to_string bs)))"

fun walk_mut :: "path \<Rightarrow> reg_key \<Rightarrow> reg_key option" where
  "walk_mut [] k = Some k"
| "walk_mut (s # p) k = (case hm_get s (children k) of None \<Rightarrow> None | Some c \<Rightarrow> walk_mut p c)"

text \<open>\<^verbatim>\<open>walk_mut_create\<close> hands out a mutable node; \<open>f\<close> is what its caller does to that node.\<close>

fun walk_mut_create :: "path \<Rightarrow> (reg_key \<Rightarrow> reg_key) \<Rightarrow> reg_key \<Rightarrow> reg_key" where
  "walk_mut_create [] f k = f k"
| "walk_mut_create (s # p) f k =
     RegKey (hm_insert s (walk_mut_create p f (case hm_get s (children k) of None \<Rightarrow> key_new | Some c \<Rightarrow> c))
               (children k)) (rvalues k) (value_names k)"

text \<open>\<^verbatim>\<open>walk_mut\<close> followed by a change of the node it returns.\<close>

fun walk_mut_update :: "path \<Rightarrow> (reg_key \<Rightarrow> reg_key) \<Rightarrow> reg_key \<Rightarrow> reg_key" where
  "walk_mut_update [] f k = f k"
| "walk_mut_update (s # p) f k = (case hm_get s (children k) of None \<Rightarrow> k
     | Some c \<Rightarrow> RegKey (hm_insert s (walk_mut_update p f c) (children k)) (rvalues k) (value_names k))"

definition link_name :: "lower_fun \<Rightarrow> reg_name" where
  "link_name lc = reg_name_new lc (lit ''symboliclinkvalue'')"

definition link_target :: "lower_fun \<Rightarrow> reg_key \<Rightarrow> path option" where
  "link_target lc k = (case hm_get (link_name lc) (rvalues k) of
      Some v \<Rightarrow> if data_type v = 6 then Some (parse_key_path lc (data v)) else None
    | None \<Rightarrow> None)"

text \<open>One round of \<^verbatim>\<open>follow_symlink\<close>: the path after the first link found on the way, if any.\<close>

fun find_link :: "lower_fun \<Rightarrow> reg_key \<Rightarrow> path \<Rightarrow> path option" where
  "find_link lc k [] = None"
| "find_link lc k (s # p) = (case hm_get s (children k) of
      None \<Rightarrow> None
    | Some c \<Rightarrow> (case link_target lc c of
          Some t \<Rightarrow> if t \<noteq> [] then Some (t @ p) else find_link lc c p
        | None \<Rightarrow> find_link lc c p))"

fun follow_rounds :: "nat \<Rightarrow> lower_fun \<Rightarrow> reg_key \<Rightarrow> path \<Rightarrow> path" where
  "follow_rounds 0 lc k cur = cur"
| "follow_rounds (Suc n) lc k cur = (case find_link lc k cur of
      None \<Rightarrow> cur | Some cur' \<Rightarrow> follow_rounds n lc k cur')"

definition follow_symlink :: "lower_fun \<Rightarrow> reg_key \<Rightarrow> path \<Rightarrow> path" where
  "follow_symlink lc k p = follow_rounds 8 lc k p"

text \<open>
  The descent of \<^verbatim>\<open>walk\<close>.  On a missing segment it slices the first three bytes of the
  segment once per sibling; that slice panics inside a multi-byte character.
\<close>

definition near_match_panics :: "reg_name \<Rightarrow> reg_key \<Rightarrow> bool" where
  "near_match_panics s k \<longleftrightarrow>
     children k \<noteq> [] \<and> str_prefix (min (utf8_len (lower s)) 3) (lower s) = None"

fun walk_down :: "path \<Rightarrow> reg_key \<Rightarrow> reg_key option option" where
  "walk_down [] k = Some (Some k)"
| "walk_down (s # p) k = (case hm_get s (children k) of
      Some c \<Rightarrow> walk_down p c
    | None \<Rightarrow> if near_match_panics s k then None else Some None)"

text \<open>\<open>d\<close> is the value of the static \<^verbatim>\<open>DEPTH\<close> counter, zero at every outermost call.\<close>

function walk_at :: "nat \<Rightarrow> lower_fun \<Rightarrow> reg_key \<Rightarrow> path \<Rightarrow> reg_key option option" where
  "walk_at d lc k p = do {
     res \<leftarrow> walk_down p k;
     case res of None \<Rightarrow> Some None
     | Some node \<Rightarrow> (case link_target lc node of
           None \<Rightarrow> Some (Some node)
         | Some t \<Rightarrow>
             if t = [] \<or> same_path t p \<or> \<not> d < 4 then Some (Some node)
             else do {
               r \<leftarrow> walk_at (d + 1) lc k (follow_symlink lc k t);
               Some (case r of None \<Rightarrow> Some node | Some n \<Rightarrow> Some n) }) }"
  by pat_completeness auto
termination by (relation "measure (\<lambda>(d, _). 4 - d)") auto

declare walk_at.simps [simp del]

definition walk :: "lower_fun \<Rightarrow> reg_key \<Rightarrow> path \<Rightarrow> reg_key option option" where
  "walk lc k p = walk_at 0 lc k p"

section \<open>The operations\<close>

text \<open>The struct literal of \<^verbatim>\<open>Registry::new\<close>, before the runtime keys and the prefix files are loaded.\<close>

definition registry_blank :: "ustr \<Rightarrow> registry" where
  "registry_blank sid = \<lparr>root = key_new, open_keys = (\<lambda>_. None), next_hkey = 1, write_seq = 1,
     user_sid = sid, notify_list = []\<rparr>"

definition resolve_parent :: "registry \<Rightarrow> u32 \<Rightarrow> path" where
  "resolve_parent r parent = (if parent = 0 then [] else case open_keys r parent of None \<Rightarrow> [] | Some p \<Rightarrow> p)"

definition new_hkey :: "registry \<Rightarrow> path \<Rightarrow> registry" where
  "new_hkey r p = r\<lparr>next_hkey := next_hkey r + 1, open_keys := (open_keys r)(next_hkey r \<mapsto> p)\<rparr>"

definition create_key :: "lower_fun \<Rightarrow> registry \<Rightarrow> u32 \<Rightarrow> bytes \<Rightarrow> ((u32 \<times> bool) \<times> registry) option" where
  "create_key lc r parent name = do {
     let path = follow_symlink lc (root r) (resolve_parent r parent @ parse_key_path lc name);
     found \<leftarrow> walk lc (root r) path;
     let r' = r\<lparr>write_seq := write_seq r + 1, root := walk_mut_create path id (root r)\<rparr>;
     Some ((next_hkey r, found = None), new_hkey r' path) }"

definition open_key :: "lower_fun \<Rightarrow> registry \<Rightarrow> u32 \<Rightarrow> bytes \<Rightarrow> (u32 option \<times> registry) option" where
  "open_key lc r parent name = do {
     let path = follow_symlink lc (root r) (resolve_parent r parent @ parse_key_path lc name);
     found \<leftarrow> walk lc (root r) path;
     Some (if found \<noteq> None then (Some (next_hkey r), new_hkey r path) else (None, r)) }"

definition handle_node :: "lower_fun \<Rightarrow> registry \<Rightarrow> u32 \<Rightarrow> reg_key option option" where
  "handle_node lc r hkey = (case open_keys r hkey of None \<Rightarrow> Some None | Some p \<Rightarrow> walk lc (root r) p)"

definition get_value :: "lower_fun \<Rightarrow> registry \<Rightarrow> u32 \<Rightarrow> bytes \<Rightarrow> (u32 \<times> bytes) option option" where
  "get_value lc r hkey name = do {
     node \<leftarrow> handle_node lc r hkey;
     Some (do { k \<leftarrow> node; v \<leftarrow> hm_get (from_utf16le lc name) (rvalues k); Some (data_type v, data v) }) }"

definition write_counter :: "registry \<Rightarrow> u64" where
  "write_counter r = write_seq r"

definition set_value :: "lower_fun \<Rightarrow> registry \<Rightarrow> u32 \<Rightarrow> bytes \<Rightarrow> u32 \<Rightarrow> bytes \<Rightarrow> registry" where
  "set_value lc r hkey name ty d =
     (let r = r\<lparr>write_seq := write_seq r + 1\<rparr> in
      case open_keys r hkey of None \<Rightarrow> r
      | Some p \<Rightarrow> r\<lparr>root := walk_mut_create p
                       (put_value (from_utf16le lc name) \<lparr>data_type = ty, data = d\<rparr>) (root r)\<rparr>)"

definition drop_value :: "reg_name \<Rightarrow> reg_key \<Rightarrow> reg_key" where
  "drop_value n k = RegKey (children k) (hm_remove n (rvalues k)) (filter (\<lambda>m. \<not> same_name m n) (value_names k))"

definition delete_value :: "lower_fun \<Rightarrow> registry \<Rightarrow> u32 \<Rightarrow> bytes \<Rightarrow> bool \<times> registry" where
  "delete_value lc r hkey name =
     (case open_keys r hkey of None \<Rightarrow> (False, r)
      | Some p \<Rightarrow> let n = from_utf16le lc name in
          (case walk_mut p (root r) of None \<Rightarrow> (False, r)
           | Some k \<Rightarrow> if hm_get n (rvalues k) = None then (False, r)
               else (True, r\<lparr>root := walk_mut_update p (drop_value n) (root r)\<rparr>)))"

definition max_or_zero :: "u32 list \<Rightarrow> u32" where
  "max_or_zero xs = foldr max xs 0"

definition query_key :: "lower_fun \<Rightarrow> registry \<Rightarrow> u32 \<Rightarrow> (u32 \<times> u32 \<times> u32 \<times> u32) option option" where
  "query_key lc r hkey = do {
     node \<leftarrow> handle_node lc r hkey;
     Some (do { k \<leftarrow> node;
       Some (of_nat (length (children k)), of_nat (length (rvalues k)),
             max_or_zero (map (\<lambda>n. of_nat (length (encode_utf16 (original n)) * 2)) (value_names k)),
             max_or_zero (map (\<lambda>(_, v). of_nat (length (data v))) (rvalues k))) }) }"

definition nth_opt :: "'a list \<Rightarrow> nat \<Rightarrow> 'a option" where
  "nth_opt xs i = (if i < length xs then Some (xs ! i) else None)"

definition enum_key :: "lower_fun \<Rightarrow> registry \<Rightarrow> u32 \<Rightarrow> nat \<Rightarrow> (bytes \<times> u32 \<times> u32) option option" where
  "enum_key lc r hkey index = do {
     node \<leftarrow> handle_node lc r hkey;
     Some (do { k \<leftarrow> node;
       n \<leftarrow> nth_opt (sort_key lower (map fst (children k))) index;
       c \<leftarrow> hm_get n (children k);
       Some (utf16le_of (original n), of_nat (length (children c)), of_nat (length (rvalues c))) }) }"

definition enum_value :: "lower_fun \<Rightarrow> registry \<Rightarrow> u32 \<Rightarrow> nat \<Rightarrow> (bytes \<times> u32 \<times> bytes) option option" where
  "enum_value lc r hkey index = do {
     node \<leftarrow> handle_node lc r hkey;
     Some (do { k \<leftarrow> node;
       n \<leftarrow> nth_opt (value_names k) index;
       v \<leftarrow> hm_get n (rvalues k);
       Some (utf16le_of (original n), data_type v, data v) }) }"

definition drop_child :: "reg_name \<Rightarrow> reg_key \<Rightarrow> reg_key" where
  "drop_child n k = RegKey (hm_remove n (children k)) (rvalues k) (value_names k)"

definition delete_key :: "lower_fun \<Rightarrow> registry \<Rightarrow> u32 \<Rightarrow> (bool \<times> registry) option" where
  "delete_key lc r hkey = (case open_keys r hkey of
      None \<Rightarrow> Some (False, r)
    | Some p \<Rightarrow> if p = [] then Some (False, r) else do {
        found \<leftarrow> walk lc (root r) p;
        Some (case found of None \<Rightarrow> (False, r)
          | Some k \<Rightarrow> if children k \<noteq> [] then (False, r)
              else if 2 \<le> length p then
                (if walk_mut (butlast p) (root r) = None then (False, r)
                 else (True, r\<lparr>root := walk_mut_update (butlast p) (drop_child (last p)) (root r)\<rparr>))
              else (True, r\<lparr>root := drop_child (hd p) (root r)\<rparr>)) })"

definition get_handle_path :: "registry \<Rightarrow> u32 \<Rightarrow> ustr option" where
  "get_handle_path r hkey = map_option (\<lambda>p. join_with [92] (map original p)) (open_keys r hkey)"

section \<open>Change notifications\<close>

definition register_notify :: "registry \<Rightarrow> u32 \<Rightarrow> u32 \<Rightarrow> u32 \<Rightarrow> bool \<Rightarrow> u32 \<Rightarrow> bool \<times> registry" where
  "register_notify r hkey pid ev sub filt = (case open_keys r hkey of
      Some p \<Rightarrow> (True, r\<lparr>notify_list := notify_list r @
                   [\<lparr>n_path = p, n_pid = pid, n_event = ev, n_subtree = sub, n_filter = filt\<rparr>]\<rparr>)
    | None \<Rightarrow> (False, r))"

definition remove_notifications_for_pid :: "registry \<Rightarrow> u32 \<Rightarrow> registry" where
  "remove_notifications_for_pid r pid = r\<lparr>notify_list := filter (\<lambda>n. n_pid n \<noteq> pid) (notify_list r)\<rparr>"

definition notify_matches :: "path \<Rightarrow> u32 \<Rightarrow> reg_notify \<Rightarrow> bool" where
  "notify_matches changed change n =
     (if same_path (n_path n) changed then n_filter n AND change \<noteq> 0
      else if n_subtree n \<and> prefix (map lower (n_path n)) (map lower changed) then n_filter n AND change \<noteq> 0
      else False)"

definition collect_notifications :: "registry \<Rightarrow> u32 \<Rightarrow> u32 \<Rightarrow> (u32 \<times> u32) list \<times> registry" where
  "collect_notifications r hkey change = (case open_keys r hkey of
      None \<Rightarrow> ([], r)
    | Some p \<Rightarrow> (map (\<lambda>n. (n_pid n, n_event n)) (filter (notify_matches p change) (notify_list r)),
                  r\<lparr>notify_list := filter (\<lambda>n. \<not> notify_matches p change n) (notify_list r)\<rparr>))"

definition parse_objattr_name :: "bytes \<Rightarrow> u32 \<times> bytes" where
  "parse_objattr_name va =
     (if length va < 16 then (0, [])
      else let rootdir = u32_from_le (take 4 va);
               sd_len = unat (u32_from_le (take 4 (drop 8 va)));
               name_len = unat (u32_from_le (take 4 (drop 12 va)));
               name_start = 16 + sd_len;
               name_end = min (name_start + name_len) (length va) in
           if name_start \<le> length va then (rootdir, take (name_end - name_start) (drop name_start va))
           else (rootdir, []))"

section \<open>Facts on name maps\<close>

lemma same_name_refl [simp]: "same_name a a"
  by (simp add: same_name_def)

lemma same_path_refl [simp]: "same_path p p"
  by (simp add: same_path_def)

lemma same_path_simps [simp]:
  "same_path [] q \<longleftrightarrow> q = []" "same_path p [] \<longleftrightarrow> p = []"
  "same_path (a # p) (b # q) \<longleftrightarrow> same_name a b \<and> same_path p q"
  by (auto simp: same_path_def same_name_def)

lemma hm_get_cong: "same_name a b \<Longrightarrow> hm_get a m = hm_get b m"
  by (induction m) (auto simp: same_name_def)

lemma hm_get_insert [simp]: "hm_get a (hm_insert n v m) = (if same_name n a then Some v else hm_get a m)"
  by (induction m) (auto simp: same_name_def)

lemma hm_get_remove [simp]: "hm_get a (hm_remove n m) = (if same_name n a then None else hm_get a m)"
  by (induction m) (auto simp: same_name_def hm_remove_def)

lemma hm_get_None_iff: "hm_get n m = None \<longleftrightarrow> lower n \<notin> set (hm_names m)"
  by (induction m) (auto simp: same_name_def split: if_splits)

lemma hm_get_in: "hm_get n m = Some v \<Longrightarrow> \<exists>k. (k, v) \<in> set m \<and> same_name k n"
  by (induction m) (auto split: if_splits)

lemma hm_get_of_member: "distinct (hm_names m) \<Longrightarrow> (k, v) \<in> set m \<Longrightarrow> hm_get k m = Some v"
  by (induction m) (force simp: same_name_def)+

lemma hm_names_insert:
  "hm_names (hm_insert n v m) = (if hm_get n m = None then hm_names m @ [lower n] else hm_names m)"
  by (induction m) (auto simp: same_name_def split: if_splits)

lemma hm_names_remove: "hm_names (hm_remove n m) = filter (\<lambda>l. l \<noteq> lower n) (hm_names m)"
  by (induction m) (auto simp: hm_remove_def same_name_def)

lemma hm_distinct_insert [simp]: "distinct (hm_names m) \<Longrightarrow> distinct (hm_names (hm_insert n v m))"
  by (subst hm_names_insert) (simp add: hm_get_None_iff)

lemma hm_distinct_remove [simp]: "distinct (hm_names m) \<Longrightarrow> distinct (hm_names (hm_remove n m))"
  by (subst hm_names_remove) simp

lemma hm_insert_members: "(k, x) \<in> set (hm_insert n v m) \<Longrightarrow> x = v \<or> (k, x) \<in> set m"
  by (induction m) (auto split: if_splits)

lemma hm_insert_same: "hm_get n m = Some v \<Longrightarrow> hm_insert n v m = m"
  by (induction m) (auto split: if_splits)

section \<open>Well-formed keys\<close>

text \<open>
  Names are unique up to case, and \<open>value_names\<close>, the enumeration order, lists exactly the names of the
  stored values.
\<close>

definition node_ok :: "reg_key \<Rightarrow> bool" where
  "node_ok k \<longleftrightarrow> distinct (hm_names (children k)) \<and> distinct (hm_names (rvalues k)) \<and>
     distinct (map lower (value_names k)) \<and> set (map lower (value_names k)) = set (hm_names (rvalues k))"

fun wf_key :: "reg_key \<Rightarrow> bool" where
  "wf_key (RegKey cs vs ns) \<longleftrightarrow> node_ok (RegKey cs vs ns) \<and> (\<forall>c\<in>set cs. wf_key (snd c))"

definition wf_registry :: "registry \<Rightarrow> bool" where
  "wf_registry r \<longleftrightarrow> wf_key (root r)"

lemma wf_key_iff: "wf_key k \<longleftrightarrow> node_ok k \<and> (\<forall>c\<in>set (children k). wf_key (snd c))"
  by (cases k) simp

lemma wf_child: "wf_key k \<Longrightarrow> hm_get s (children k) = Some c \<Longrightarrow> wf_key c"
  using hm_get_in[of s "children k" c] by (fastforce simp: wf_key_iff[of k])

lemma wf_key_new [simp]: "wf_key key_new"
  by (simp add: key_new_def node_ok_def)

lemma wf_walk_mut: "wf_key k \<Longrightarrow> walk_mut p k = Some n \<Longrightarrow> wf_key n"
  by (induction p arbitrary: k) (auto split: option.splits dest: wf_child)

lemma wf_set_child: "wf_key k \<Longrightarrow> wf_key c \<Longrightarrow> wf_key (RegKey (hm_insert s c (children k)) (rvalues k) (value_names k))"
  by (auto simp: wf_key_iff[of k] node_ok_def simp del: map_map dest!: hm_insert_members)

lemma wf_put_value: "wf_key k \<Longrightarrow> wf_key (put_value n v k)"
  by (auto simp: wf_key_iff[of k] put_value_def node_ok_def hm_names_insert hm_get_None_iff)

lemma wf_drop_value: "wf_key k \<Longrightarrow> wf_key (drop_value n k)"
proof -
  assume w: "wf_key k"
  have m: "map lower (filter (\<lambda>m. \<not> same_name m n) ns) = filter (\<lambda>l. l \<noteq> lower n) (map lower ns)" for ns
    by (induction ns) (auto simp: same_name_def)
  from w show ?thesis
    by (auto simp: wf_key_iff[of k] drop_value_def node_ok_def hm_names_remove m)
qed

lemma wf_drop_child: "wf_key k \<Longrightarrow> wf_key (drop_child n k)"
  by (auto simp: wf_key_iff[of k] drop_child_def node_ok_def hm_names_remove) (auto simp: hm_remove_def)

section \<open>Editing a node\<close>

definition stored :: "reg_key \<Rightarrow> path \<Rightarrow> reg_name \<Rightarrow> reg_value option" where
  "stored k q m = Option.bind (walk_mut q k) (\<lambda>n. hm_get m (rvalues n))"

definition key_exists :: "reg_key \<Rightarrow> path \<Rightarrow> bool" where
  "key_exists k q \<longleftrightarrow> walk_mut q k \<noteq> None"

lemma walk_mut_cong: "same_path p q \<Longrightarrow> walk_mut p k = walk_mut q k"
proof (induction p arbitrary: q k)
  case (Cons a p)
  then obtain b q' where q: "q = b # q'" "same_name a b" "same_path p q'"
    by (cases q) auto
  with Cons.IH[OF q(3)] hm_get_cong[OF q(2), of "children k"] show ?case by (simp split: option.splits)
qed simp

lemma walk_mut_append: "walk_mut (p @ q) k = Option.bind (walk_mut p k) (walk_mut q)"
  by (induction p arbitrary: k) (auto split: option.splits)

lemma stored_Cons: "stored k (s # q) m = Option.bind (hm_get s (children k)) (\<lambda>c. stored c q m)"
  by (auto simp: stored_def split: option.splits)

lemma stored_Nil [simp]: "stored k [] m = hm_get m (rvalues k)"
  by (simp add: stored_def)

lemma stored_new [simp]: "stored key_new q m = None"
  by (cases q) (auto simp: key_new_def stored_Cons)

lemma stored_children_cong:
  "children k' = children k \<Longrightarrow> q \<noteq> [] \<Longrightarrow> stored k' q m = stored k q m"
  by (cases q) (auto simp: stored_Cons)

lemma key_exists_simps [simp]:
  "key_exists k []" "key_exists k (s # q) \<longleftrightarrow> (\<exists>c. hm_get s (children k) = Some c \<and> key_exists c q)"
  by (auto simp: key_exists_def split: option.splits)

lemma same_name_trans_sym: "same_name a b \<Longrightarrow> same_name a c \<longleftrightarrow> same_name b c"
  by (simp add: same_name_def)

lemma same_name_sym: "same_name a b \<longleftrightarrow> same_name b a"
  by (auto simp: same_name_def)

text \<open>
  The contract of an operation that edits one node in place: the node named by the path is the only
  one whose values change, it becomes \<open>f\<close> of what it was, and well-formedness survives.
\<close>

locale node_editor =
  fixes edit :: "path \<Rightarrow> (reg_key \<Rightarrow> reg_key) \<Rightarrow> reg_key \<Rightarrow> reg_key"
  assumes edit_target: "walk_mut p k = Some n \<Longrightarrow> walk_mut p (edit p f k) = Some (f n)"
    and edit_frame: "(\<And>c. children (f c) = children c) \<Longrightarrow> \<not> same_path q p \<Longrightarrow>
      stored (edit p f k) q m = stored k q m"
    and edit_wf: "wf_key k \<Longrightarrow> (\<And>c. wf_key c \<Longrightarrow> wf_key (f c)) \<Longrightarrow> wf_key (edit p f k)"
begin

lemma edit_stored:
  assumes "\<And>c. children (f c) = children c" and "walk_mut p k = Some n"
  shows "stored (edit p f k) q m = (if same_path q p then hm_get m (rvalues (f n)) else stored k q m)"
proof (cases "same_path q p")
  case True
  then show ?thesis using edit_target[OF assms(2), of f] walk_mut_cong[of q p "edit p f k"]
    by (simp add: stored_def)
qed (use edit_frame assms(1) in simp)

lemma edit_put_value:
  assumes "walk_mut p k = Some n"
  shows "stored (edit p (put_value a v) k) q m =
    (if same_path q p \<and> same_name a m then Some v else stored k q m)"
  using edit_stored[of "put_value a v", OF _ assms] walk_mut_cong[of q p k] assms
  by (auto simp: put_value_def stored_def)

lemma edit_drop_value:
  assumes "walk_mut p k = Some n"
  shows "stored (edit p (drop_value a) k) q m =
    (if same_path q p \<and> same_name a m then None else stored k q m)"
  using edit_stored[of "drop_value a", OF _ assms] walk_mut_cong[of q p k] assms
  by (auto simp: drop_value_def stored_def)

end

lemma create_target: "walk_mut p (walk_mut_create p f k) = Some (f (case walk_mut p k of None \<Rightarrow> key_new | Some n \<Rightarrow> n))"
proof (induction p arbitrary: k)
  case (Cons s p)
  show ?case
  proof (cases "hm_get s (children k)")
    case None
    have "walk_mut p key_new = (if p = [] then Some key_new else None)" by (cases p) (auto simp: key_new_def)
    with None Cons[of key_new] show ?thesis by (cases p) auto
  qed (use Cons in simp)
qed simp

lemma create_frame:
  assumes "\<And>c. children (f c) = children c" and "\<not> same_path q p"
  shows "stored (walk_mut_create p f k) q m = stored k q m"
  using assms(2)
proof (induction p arbitrary: q k)
  case Nil
  then show ?case using stored_children_cong[OF assms(1)] by simp
next
  case (Cons s p)
  show ?case
  proof (cases q)
    case (Cons t q')
    show ?thesis
    proof (cases "same_name s t")
      case True
      then have "\<not> same_path q' p" using Cons.prems Cons by (simp add: same_name_sym)
      with Cons.IH True Cons hm_get_cong[OF True, of "children k"] show ?thesis
        by (auto simp: stored_Cons split: option.splits)
    qed (simp add: Cons stored_Cons)
  qed simp
qed

lemma create_wf: "wf_key k \<Longrightarrow> (\<And>c. wf_key c \<Longrightarrow> wf_key (f c)) \<Longrightarrow> wf_key (walk_mut_create p f k)"
proof (induction p arbitrary: k)
  case (Cons s p)
  then have "wf_key (case hm_get s (children k) of None \<Rightarrow> key_new | Some c \<Rightarrow> c)"
    using wf_child[OF Cons.prems(1)] by (auto split: option.splits)
  with Cons show ?case by (simp add: wf_set_child del: wf_key.simps)
qed simp

interpretation ce: node_editor walk_mut_create
  by unfold_locales (auto simp: create_target create_frame create_wf)

lemma update_target: "walk_mut p k = Some n \<Longrightarrow> walk_mut p (walk_mut_update p f k) = Some (f n)"
  by (induction p arbitrary: k) (auto split: option.splits)

lemma update_frame:
  assumes "\<And>c. children (f c) = children c" and "\<not> same_path q p"
  shows "stored (walk_mut_update p f k) q m = stored k q m"
  using assms(2)
proof (induction p arbitrary: q k)
  case Nil
  then show ?case using stored_children_cong[OF assms(1)] by simp
next
  case (Cons s p)
  show ?case
  proof (cases q)
    case (Cons t q')
    show ?thesis
    proof (cases "same_name s t")
      case True
      then have "\<not> same_path q' p" using Cons.prems Cons by (simp add: same_name_sym)
      with Cons.IH True Cons hm_get_cong[OF True, of "children k"] show ?thesis
        by (auto simp: stored_Cons split: option.splits)
    qed (auto simp: Cons stored_Cons split: option.splits)
  qed (auto split: option.splits)
qed

lemma update_wf: "wf_key k \<Longrightarrow> (\<And>c. wf_key c \<Longrightarrow> wf_key (f c)) \<Longrightarrow> wf_key (walk_mut_update p f k)"
  by (induction p arbitrary: k)
    (auto intro!: wf_set_child intro: wf_child simp del: wf_key.simps split: option.splits)

interpretation ue: node_editor walk_mut_update
  by unfold_locales (auto simp: update_target update_frame update_wf)

lemmas node_edits = ce.edit_put_value ue.edit_drop_value

lemma create_exists:
  assumes "\<And>c. children (f c) = children c"
  shows "key_exists (walk_mut_create p f k) q \<longleftrightarrow> key_exists k q \<or> prefix (map lower q) (map lower p)"
proof (induction p arbitrary: q k)
  case Nil
  show ?case by (cases q) (auto simp: assms)
next
  case (Cons s p)
  show ?case
  proof (cases q)
    case (Cons t q')
    have new: "key_exists key_new q' \<longleftrightarrow> q' = []" by (cases q') (auto simp: key_new_def)
    show ?thesis
    proof (cases "same_name s t")
      case True
      from Cons.IH True Cons hm_get_cong[OF True, of "children k"] new show ?thesis
        by (auto simp: same_name_def split: option.splits)
    qed (auto simp: Cons same_name_def)
  qed simp
qed

lemma create_stored_put:
  "stored (walk_mut_create p (put_value a v) k) q m =
    (if same_path q p \<and> same_name a m then Some v else stored k q m)"
proof (cases "same_path q p")
  case True
  then show ?thesis
    using walk_mut_cong[OF True, of "walk_mut_create p (put_value a v) k"] walk_mut_cong[OF True, of k]
    by (auto simp: stored_def create_target put_value_def key_new_def split: option.splits)
qed (simp add: create_frame put_value_def)

section \<open>Walking\<close>

lemma walk_down_found: "walk_down p k = Some (Some n) \<longleftrightarrow> walk_mut p k = Some n"
  by (induction p arbitrary: k) (auto split: option.splits)

lemma walk_down_missing: "walk_down p k = Some None \<Longrightarrow> walk_mut p k = None"
  by (induction p arbitrary: k) (auto split: option.splits if_splits)

lemma walk_plain:
  assumes "walk_mut p k = Some n" and "link_target lc n = None"
  shows "walk lc k p = Some (Some n)"
  unfolding walk_def by (subst walk_at.simps) (simp add: assms walk_down_found[THEN iffD2, OF assms(1)])

lemma walk_found_exists: "walk lc k p = Some (Some n) \<Longrightarrow> key_exists k p"
  unfolding walk_def key_exists_def
  by (subst (asm) walk_at.simps) (auto simp: bind_eq_Some_conv walk_down_found split: option.splits)

lemma walk_missing: "walk lc k p = Some None \<longleftrightarrow> walk_down p k = Some None"
  unfolding walk_def
  by (subst walk_at.simps) (auto simp: bind_eq_Some_conv split: option.splits)

section \<open>Setting, reading and deleting values\<close>

lemma set_value_root:
  "open_keys r h = Some p \<Longrightarrow> root (set_value lc r h name ty d) =
     walk_mut_create p (put_value (from_utf16le lc name) \<lparr>data_type = ty, data = d\<rparr>) (root r)"
  by (simp add: set_value_def)

lemma set_value_other [simp]:
  "open_keys (set_value lc r h name ty d) = open_keys r"
  "next_hkey (set_value lc r h name ty d) = next_hkey r"
  "notify_list (set_value lc r h name ty d) = notify_list r"
  by (simp_all add: set_value_def Let_def split: option.splits)

text \<open>
  Setting a value through an open handle stores exactly that value under its name in the handle's key
  and changes no other value anywhere in the tree; it brings into existence the key's path and no other
  key; and it bumps the write counter.
\<close>

theorem set_value_changes_one_value:
  assumes "open_keys r h = Some p" and "r' = set_value lc r h name ty d"
  shows "(\<forall>q m. stored (root r') q m =
            (if same_path q p \<and> same_name (from_utf16le lc name) m then Some \<lparr>data_type = ty, data = d\<rparr>
             else stored (root r) q m)) \<and>
         (\<forall>q. key_exists (root r') q \<longleftrightarrow> key_exists (root r) q \<or> prefix (map lower q) (map lower p)) \<and>
         write_counter r' = write_counter r + 1"
proof -
  have "children (put_value n v c) = children c" for n v c by (simp add: put_value_def)
  then show ?thesis using assms
    by (simp add: set_value_root create_stored_put create_exists) (simp add: set_value_def write_counter_def)
qed

text \<open>
  A value read back through the handle it was set through is the value set, provided the key is
  not a symbolic link and the write does not make it one.
\<close>

theorem get_after_set:
  assumes "open_keys r h = Some p"
    and "\<And>n. walk_mut p (root r) = Some n \<Longrightarrow> link_target lc n = None"
    and "\<not> (same_name (from_utf16le lc name) (link_name lc) \<and> ty = 6)"
  shows "get_value lc (set_value lc r h name ty d) h name = Some (Some (ty, d))"
proof -
  let ?n = "case walk_mut p (root r) of None \<Rightarrow> key_new | Some n \<Rightarrow> n"
  let ?v = "\<lparr>data_type = ty, data = d\<rparr>"
  let ?m = "put_value (from_utf16le lc name) ?v ?n"
  have w: "walk_mut p (root (set_value lc r h name ty d)) = Some ?m"
    by (simp add: set_value_root[OF assms(1)] create_target)
  have "link_target lc ?n = None"
    using assms(2) by (auto simp: link_target_def key_new_def split: option.splits)
  then have "link_target lc ?m = None"
    using assms(3) by (auto simp: link_target_def put_value_def split: option.splits if_splits)
  from walk_plain[OF w this] show ?thesis
    by (simp add: get_value_def handle_node_def assms(1) put_value_def)
qed

text \<open>A small registry used by the witnesses: two keys made with \<^verbatim>\<open>create_key\<close>.\<close>

definition wide :: "string list \<Rightarrow> bytes" where
  "wide ss = utf16le_of (backslashed ss)"

definition sample :: registry where
  "sample = (case create_key ascii_lower (registry_blank []) 0 (wide ['''', ''A'', ''B'']) of
     Some (_, r) \<Rightarrow> (case create_key ascii_lower r 0 (wide ['''', ''C'']) of Some (_, r') \<Rightarrow> r' | None \<Rightarrow> r)
   | None \<Rightarrow> registry_blank [])"

definition nm :: "string \<Rightarrow> reg_name" where
  "nm s = reg_name_new ascii_lower (lit s)"

lemma sample_open:
  "open_keys sample 1 = Some [nm ''A'', nm ''B''] \<and> open_keys sample 2 = Some [nm ''C''] \<and>
   next_hkey sample = 3 \<and> root sample = RegKey [(nm ''A'', RegKey [(nm ''B'', key_new)] [] []), (nm ''C'', key_new)] [] []"
  by code_simp

theorem set_value_changes_one_value_witness:
  "stored (root (set_value ascii_lower sample 2 (wide [''x'']) 4 [1, 0, 0, 0])) [nm ''c''] (nm ''X'') =
     Some \<lparr>data_type = 4, data = [1, 0, 0, 0]\<rparr>"
proof -
  have o: "open_keys sample 2 = Some [nm ''C'']" using sample_open by simp
  have "same_path [nm ''c''] [nm ''C'']" "same_name (from_utf16le ascii_lower (wide [''x''])) (nm ''X'')"
    by code_simp+
  with set_value_changes_one_value[OF o refl] show ?thesis by simp
qed

theorem get_after_set_witness:
  "get_value ascii_lower (set_value ascii_lower sample 2 (wide [''x'']) 4 [1, 0, 0, 0]) 2 (wide [''x'']) =
     Some (Some (4, [1, 0, 0, 0]))"
proof (rule get_after_set[where p = "[nm ''C'']"])
  show "open_keys sample 2 = Some [nm ''C'']" using sample_open by simp
  show "link_target ascii_lower n = None" if "walk_mut [nm ''C''] (root sample) = Some n" for n
  proof -
    have "walk_mut [nm ''C''] (root sample) = Some key_new" by code_simp
    with that show ?thesis by (simp add: key_new_def link_target_def)
  qed
qed simp

section \<open>Deleting keys\<close>

lemma delete_key_root:
  assumes "open_keys r h = Some p" and "delete_key lc r h = Some (True, r')"
  shows "p \<noteq> [] \<and> r' = r\<lparr>root := walk_mut_update (butlast p) (drop_child (last p)) (root r)\<rparr>"
proof -
  have "walk_mut_update (butlast p) f k = f k" if "length p = 1" for f k
    using that by (cases p) auto
  moreover have "length p = 1 \<Longrightarrow> last p = hd p" by (cases p) auto
  moreover have "p \<noteq> [] \<Longrightarrow> \<not> 2 \<le> length p \<Longrightarrow> length p = 1" by (cases p; cases "tl p") auto
  ultimately show ?thesis using assms
    by (auto simp: delete_key_def bind_eq_Some_conv split: if_splits option.splits)
qed

lemma drop_gone: "\<not> key_exists (walk_mut_update b (drop_child s) k) (b @ [s])"
  by (induction b arbitrary: k) (auto simp: drop_child_def split: option.splits)

lemma drop_frame:
  "\<not> prefix (map lower (b @ [s])) (map lower q) \<Longrightarrow>
     stored (walk_mut_update b (drop_child s) k) q m = stored k q m \<and>
     (key_exists (walk_mut_update b (drop_child s) k) q \<longleftrightarrow> key_exists k q)"
proof (induction b arbitrary: q k)
  case Nil
  then show ?case by (cases q) (auto simp: drop_child_def stored_Cons same_name_def)
next
  case (Cons a b)
  show ?case
  proof (cases q)
    case (Cons t q')
    show ?thesis
    proof (cases "same_name a t")
      case True
      then have "\<not> prefix (map lower (b @ [s])) (map lower q')"
        using Cons.prems Cons by (simp add: same_name_def)
      with Cons.IH True Cons hm_get_cong[OF True, of "children k"] show ?thesis
        by (auto simp: stored_Cons split: option.splits)
    qed (auto simp: Cons stored_Cons split: option.splits)
  qed (auto split: option.splits)
qed

text \<open>
  A successful key deletion removes the key the handle names, together with everything below it, and
  leaves every key and value that is not below it as it was.
\<close>

theorem delete_key_removes_subtree:
  assumes "open_keys r h = Some p" and "delete_key lc r h = Some (True, r')"
  shows "\<not> key_exists (root r') p \<and>
    (\<forall>q. \<not> prefix (map lower p) (map lower q) \<longrightarrow>
       (key_exists (root r') q \<longleftrightarrow> key_exists (root r) q) \<and> (\<forall>m. stored (root r') q m = stored (root r) q m))"
proof -
  obtain b s where p: "p = b @ [s]" and r': "root r' = walk_mut_update b (drop_child s) (root r)"
    using delete_key_root[OF assms] by (cases p rule: rev_cases) auto
  from drop_gone[of b s "root r"] drop_frame[of b s] show ?thesis by (simp add: p r')
qed

lemma delete_sample: "map_option fst (delete_key ascii_lower sample 2) = Some True"
  by code_simp

theorem delete_key_removes_subtree_witness:
  "\<exists>r'. delete_key ascii_lower sample 2 = Some (True, r') \<and> \<not> key_exists (root r') [nm ''C''] \<and>
     key_exists (root r') [nm ''A'', nm ''B'']"
proof -
  obtain r' where d: "delete_key ascii_lower sample 2 = Some (True, r')" using delete_sample by auto
  have o: "open_keys sample 2 = Some [nm ''C'']" using sample_open by simp
  have "\<not> prefix (map lower [nm ''C'']) (map lower [nm ''A'', nm ''B''])" by code_simp
  moreover have "key_exists (root sample) [nm ''A'', nm ''B'']" by code_simp
  ultimately show ?thesis using delete_key_removes_subtree[OF o d] d by blast
qed

text \<open>
  Handles outlive the key they name: after a successful deletion, setting a value through the same
  handle creates the deleted key again.
\<close>

theorem stale_handle_recreates_key:
  assumes "open_keys r h = Some p" and "delete_key lc r h = Some (True, r')"
  shows "\<not> key_exists (root r') p \<and> key_exists (root (set_value lc r' h name ty d)) p"
proof -
  obtain b s where p: "p = b @ [s]" and r': "r' = r\<lparr>root := walk_mut_update b (drop_child s) (root r)\<rparr>"
    using delete_key_root[OF assms] by (cases p rule: rev_cases) auto
  have "open_keys r' h = Some p" using assms(1) r' by simp
  then have "key_exists (root (set_value lc r' h name ty d)) p"
    by (simp add: set_value_root create_exists put_value_def)
  with drop_gone[of b s "root r"] show ?thesis by (simp add: p r')
qed

theorem stale_handle_recreates_key_witness:
  "\<exists>r'. delete_key ascii_lower sample 2 = Some (True, r') \<and>
     key_exists (root (set_value ascii_lower r' 2 (wide [''x'']) 4 [1, 0, 0, 0])) [nm ''C'']"
proof -
  obtain r' where d: "delete_key ascii_lower sample 2 = Some (True, r')" using delete_sample by auto
  have o: "open_keys sample 2 = Some [nm ''C'']" using sample_open by simp
  from stale_handle_recreates_key[OF o d] d show ?thesis by blast
qed

text \<open>
  The subkey check of a deletion looks at the target of a symbolic link, not at the key itself: a key that
  has been turned into a link to a childless key is deleted together with its own subkey.
\<close>

definition linked_sample :: registry where
  "linked_sample = (case open_key ascii_lower sample 0 (wide ['''', ''A'']) of
     Some (Some h, r) \<Rightarrow> set_value ascii_lower r h (wide [''SymbolicLinkValue'']) 6 (wide ['''', ''C''])
   | _ \<Rightarrow> sample)"

theorem delete_key_ignores_own_subkeys:
  "open_keys linked_sample 3 = Some [nm ''A''] \<and> key_exists (root linked_sample) [nm ''A'', nm ''B''] \<and>
   (\<exists>r'. delete_key ascii_lower linked_sample 3 = Some (True, r') \<and>
         \<not> key_exists (root r') [nm ''A'', nm ''B''])"
proof -
  have "map_option (\<lambda>(b, r'). (b, key_exists (root r') [nm ''A'', nm ''B'']))
      (delete_key ascii_lower linked_sample 3) = Some (True, False)" by code_simp
  then have "\<exists>r'. delete_key ascii_lower linked_sample 3 = Some (True, r') \<and>
         \<not> key_exists (root r') [nm ''A'', nm ''B'']" by auto
  moreover have "open_keys linked_sample 3 = Some [nm ''A'']" by code_simp
  moreover have "key_exists (root linked_sample) [nm ''A'', nm ''B'']" by code_simp
  ultimately show ?thesis by blast
qed

section \<open>Symbolic links\<close>

lemma follow_rounds_free:
  "find_link lc k (follow_rounds n lc k p) = None \<or>
   ((\<lambda>x. Option.bind x (find_link lc k)) ^^ n) (Some p) = Some (follow_rounds n lc k p)"
proof (induction n arbitrary: p)
  case (Suc n)
  then show ?case
    by (cases "find_link lc k p") (auto simp: funpow_Suc_right simp del: funpow.simps)
qed simp

lemma follow_free_id: "find_link lc k p = None \<Longrightarrow> follow_symlink lc k p = p"
  by (simp add: follow_symlink_def numeral_eq_Suc)

text \<open>
  Link resolution always ends, and it ends either at a path with no further link on it (so resolving the
  result again changes nothing) or after exactly eight substitutions.
\<close>

theorem follow_symlink_resolves:
  "follow_symlink lc k (follow_symlink lc k p) = follow_symlink lc k p \<and> find_link lc k (follow_symlink lc k p) = None \<or>
   ((\<lambda>x. Option.bind x (find_link lc k)) ^^ 8) (Some p) = Some (follow_symlink lc k p)"
  using follow_rounds_free[of lc k 8 p, folded follow_symlink_def] follow_free_id[of lc k "follow_symlink lc k p"]
  by blast

lemma find_link_at:
  assumes "walk_mut p k = Some n" and "link_target lc n = Some t" and "t \<noteq> []" and "find_link lc k p = Some (t @ [])"
  shows "find_link lc k (p @ q) = Some (t @ q)"
  using assms
proof (induction p arbitrary: k)
  case (Cons s p)
  then obtain c where c: "hm_get s (children k) = Some c" "walk_mut p c = Some n" by (auto split: option.splits)
  show ?case
  proof (cases "link_target lc c = None \<or> link_target lc c = Some []")
    case True
    with Cons c show ?thesis by (auto split: if_splits)
  next
    case False
    then obtain t' where "link_target lc c = Some t'" "t' \<noteq> []" by auto
    with Cons.prems c show ?thesis by auto
  qed
qed simp

section \<open>Panics\<close>

lemma walk_down_ascii:
  "\<forall>s\<in>set p. is_ascii (lower s) \<Longrightarrow> walk_down p k \<noteq> None"
  by (induction p arbitrary: k) (auto simp: near_match_panics_def ascii_prefix split: option.splits)

definition links_ascii :: "lower_fun \<Rightarrow> reg_key \<Rightarrow> bool" where
  "links_ascii lc k \<longleftrightarrow> (\<forall>p n t. walk_mut p k = Some n \<longrightarrow> link_target lc n = Some t \<longrightarrow>
     (\<forall>s\<in>set t. is_ascii (lower s)))"

lemma find_link_ascii:
  assumes "\<And>q n t. walk_mut q k = Some n \<Longrightarrow> link_target lc n = Some t \<Longrightarrow> \<forall>s\<in>set t. is_ascii (lower s)"
    and "\<forall>s\<in>set p. is_ascii (lower s)" and "find_link lc k p = Some p'"
  shows "\<forall>s\<in>set p'. is_ascii (lower s)"
  using assms
proof (induction p arbitrary: k)
  case (Cons a p)
  then obtain c where c: "hm_get a (children k) = Some c" by (auto split: option.splits)
  have sub: "\<forall>s\<in>set t. is_ascii (lower s)" if "walk_mut q c = Some n" "link_target lc n = Some t" for q n t
    using Cons.prems(1)[of "a # q" n t] that c by simp
  show ?case
  proof (cases "link_target lc c = None \<or> link_target lc c = Some []")
    case True
    then have "find_link lc c p = Some p'" using Cons.prems(3) c by auto
    with Cons.IH[of c] sub Cons.prems(2) show ?thesis by simp
  next
    case False
    then obtain t where t: "link_target lc c = Some t" "t \<noteq> []" by auto
    with Cons.prems(2,3) c sub[of "[]" c t] show ?thesis by auto
  qed
qed simp

lemma follow_ascii:
  assumes "links_ascii lc k" and "\<forall>s\<in>set p. is_ascii (lower s)"
  shows "\<forall>s\<in>set (follow_symlink lc k p). is_ascii (lower s)"
proof -
  have "\<forall>s\<in>set (follow_rounds n lc k p). is_ascii (lower s)" for n
    using assms(2)
  proof (induction n arbitrary: p)
    case (Suc n)
    show ?case
    proof (cases "find_link lc k p")
      case (Some p')
      have "\<forall>s\<in>set p'. is_ascii (lower s)"
        by (rule find_link_ascii[OF _ Suc.prems Some]) (use assms(1) in \<open>simp add: links_ascii_def\<close>)
      with Suc.IH Some show ?thesis by simp
    qed (use Suc in simp)
  qed simp
  then show ?thesis by (simp add: follow_symlink_def)
qed

lemma walk_at_ascii:
  assumes "links_ascii lc k"
  shows "\<forall>s\<in>set p. is_ascii (lower s) \<Longrightarrow> walk_at d lc k p \<noteq> None"
proof (induction "4 - d" arbitrary: d p)
  case 0
  then show ?case using walk_down_ascii[OF 0(2), of k]
    by (subst walk_at.simps) (auto split: option.splits)
next
  case (Suc x)
  have *: "walk_at (Suc d) lc k (follow_symlink lc k t) \<noteq> None"
    if "walk_mut p k = Some n" "link_target lc n = Some t" for n t
  proof (rule Suc.hyps(1))
    show "x = 4 - Suc d" using Suc.hyps(2) by simp
    have "\<forall>s\<in>set t. is_ascii (lower s)" using assms that by (simp add: links_ascii_def)
    then show "\<forall>s\<in>set (follow_symlink lc k t). is_ascii (lower s)" by (rule follow_ascii[OF assms])
  qed
  obtain res where res: "walk_down p k = Some res" using walk_down_ascii[OF Suc.prems, of k] by blast
  show ?case
  proof (cases res)
    case (Some n)
    then have "walk_mut p k = Some n" using res by (simp add: walk_down_found)
    with *[of n] res Some show ?thesis
      by (subst walk_at.simps) (auto simp: bind_eq_None_conv split: option.splits)
  qed (use res in \<open>subst walk_at.simps, simp\<close>)
qed

text \<open>
  Opening or creating a key never panics while every path segment the walk can meet, the ones of link targets
  included, is ASCII.
\<close>

theorem open_key_no_panic:
  assumes "links_ascii lc (root r)" and "\<forall>s\<in>set (resolve_parent r h @ parse_key_path lc name). is_ascii (lower s)"
  shows "open_key lc r h name \<noteq> None \<and> create_key lc r h name \<noteq> None"
  using walk_at_ascii[OF assms(1) follow_ascii[OF assms], of 0]
  by (auto simp: open_key_def create_key_def walk_def Let_def)

lemma sample_no_values: "walk_mut p (root sample) = Some n \<Longrightarrow> rvalues n = []"
proof -
  assume "walk_mut p (root sample) = Some n"
  moreover have "walk_mut q key_new = Some n \<Longrightarrow> rvalues n = []" for q by (cases q) (auto simp: key_new_def)
  ultimately show ?thesis using conjunct2[OF conjunct2[OF conjunct2[OF sample_open]]]
    by (cases p; cases "tl p") (auto simp: key_new_def split: if_splits option.splits)
qed

theorem open_key_no_panic_witness:
  "open_key ascii_lower sample 2 (wide [''missing'']) \<noteq> None"
proof -
  have "links_ascii ascii_lower (root sample)"
    unfolding links_ascii_def using sample_no_values by (simp add: link_target_def split: option.splits)
  moreover have "\<forall>s\<in>set (resolve_parent sample 2 @ parse_key_path ascii_lower (wide [''missing''])). is_ascii (lower s)"
    by code_simp
  ultimately show ?thesis using open_key_no_panic by blast
qed

text \<open>
  A client can panic
 the server by opening a key that does not exist: the diagnostics of a failed walk slice
  the missing name at byte three, which is inside the second character of a name of two-byte characters.
\<close>

theorem open_key_can_panic:
  "open_key ascii_lower sample 0 (utf16le_of [92, 0xE9, 0xE9]) = None"
  by code_simp

section \<open>The invariant\<close>

text \<open>The requests that change the registry, as one step relation; panicking calls make no step.\<close>

inductive reg_step :: "lower_fun \<Rightarrow> registry \<Rightarrow> registry \<Rightarrow> bool" for lc where
  step_create: "create_key lc r h name = Some (x, r') \<Longrightarrow> reg_step lc r r'"
| step_open: "open_key lc r h name = Some (x, r') \<Longrightarrow> reg_step lc r r'"
| step_set: "reg_step lc r (set_value lc r h name ty d)"
| step_delete_value: "delete_value lc r h name = (b, r') \<Longrightarrow> reg_step lc r r'"
| step_delete_key: "delete_key lc r h = Some (b, r') \<Longrightarrow> reg_step lc r r'"
| step_register: "register_notify r h pid ev sub filt = (b, r') \<Longrightarrow> reg_step lc r r'"
| step_remove: "reg_step lc r (remove_notifications_for_pid r pid)"
| step_collect: "collect_notifications r h change = (fired, r') \<Longrightarrow> reg_step lc r r'"

inductive_cases reg_stepE: "reg_step lc r r'"

lemma new_hkey_simps [simp]:
  "root (new_hkey r p) = root r" "notify_list (new_hkey r p) = notify_list r"
  "open_keys (new_hkey r p) h = (if h = next_hkey r then Some p else open_keys r h)"
  "next_hkey (new_hkey r p) = next_hkey r + 1"
  by (simp_all add: new_hkey_def)

lemma delete_key_cases:
  assumes "delete_key lc r h = Some (b, r')"
  obtains "r' = r" "\<not> b" | p where "b" "open_keys r h = Some p"
    "r' = r\<lparr>root := walk_mut_update (butlast p) (drop_child (last p)) (root r)\<rparr>"
proof (cases b)
  case True
  with assms obtain p where "open_keys r h = Some p"
    by (auto simp: delete_key_def split: option.splits)
  with True assms that(2) delete_key_root[of r h p lc r'] show ?thesis by simp
next
  case False
  with assms have "r' = r"
    by (auto simp: delete_key_def bind_eq_Some_conv split: option.splits if_splits)
  with False that(1) show ?thesis by simp
qed

lemma step_root_cases:
  assumes "reg_step lc r r'"
  obtains "root r' = root r" | p where "root r' = walk_mut_create p id (root r)"
    | p n v where "root r' = walk_mut_create p (put_value n v) (root r)"
    | p n where "root r' = walk_mut_update p (drop_value n) (root r)"
    | p n where "root r' = walk_mut_update p (drop_child n) (root r)"
  using assms
proof (cases rule: reg_step.cases)
  case (step_create h name x)
  then show ?thesis using that(2) by (auto simp: create_key_def Let_def bind_eq_Some_conv)
next
  case (step_open h name x)
  then show ?thesis using that(1) by (auto simp: open_key_def Let_def bind_eq_Some_conv split: if_splits)
next
  case (step_set h name ty d)
  then show ?thesis using that(1,3) by (cases "open_keys r h") (auto simp: set_value_def Let_def)
next
  case (step_delete_value h name b)
  then show ?thesis using that(1,4) by (auto simp: delete_value_def Let_def split: option.splits if_splits)
next
  case (step_delete_key h b)
  then show ?thesis using that(1,5) by (elim delete_key_cases) auto
next
  case (step_register h pid ev sub filt b)
  then show ?thesis using that(1) by (auto simp: register_notify_def split: option.splits)
next
  case (step_remove pid)
  then show ?thesis using that(1) by (simp add: remove_notifications_for_pid_def)
next
  case (step_collect h change fired)
  then show ?thesis using that(1) by (auto simp: collect_notifications_def split: option.splits)
qed

lemma step_wf:
  assumes "reg_step lc r r'" and "wf_registry r"
  shows "wf_registry r'"
proof -
  note wf = assms(2)[unfolded wf_registry_def]
  from assms(1) show ?thesis unfolding wf_registry_def
  proof (cases rule: step_root_cases)
    case 1
    then show "wf_key (root r')" using wf by simp
  next
    case (2 p)
    then show "wf_key (root r')" using create_wf[OF wf, of id] by simp
  next
    case (3 p n v)
    then show "wf_key (root r')" using create_wf[OF wf wf_put_value] by simp
  next
    case (4 p n)
    then show "wf_key (root r')" using update_wf[OF wf wf_drop_value] by simp
  next
    case (5 p n)
    then show "wf_key (root r')" using update_wf[OF wf wf_drop_child] by simp
  qed
qed



section \<open>Enumeration\<close>

lemma walk_at_step:
  assumes "walk_at d lc k p = Some (Some n)"
  shows "walk_mut p k = Some n \<or> (\<exists>q. d < 4 \<and> walk_at (Suc d) lc k q = Some (Some n))"
proof -
  from assms obtain m where m: "walk_down p k = Some (Some m)"
    by (subst (asm) walk_at.simps) (auto simp: bind_eq_Some_conv split: option.splits)
  then have w: "walk_mut p k = Some m" by (simp add: walk_down_found)
  show ?thesis
  proof (cases "link_target lc m")
    case None
    with m w assms show ?thesis by (subst (asm) walk_at.simps) simp
  next
    case (Some t)
    with m w assms show ?thesis
      by (subst (asm) walk_at.simps) (auto simp: bind_eq_Some_conv split: if_splits option.splits)
  qed
qed

lemma walk_at_reaches: "walk_at d lc k p = Some (Some n) \<Longrightarrow> \<exists>q. walk_mut q k = Some n"
proof (induction "4 - d" arbitrary: d p)
  case 0
  then show ?case using walk_at_step[OF 0(2)] by auto
next
  case (Suc x)
  from walk_at_step[OF Suc.prems] show ?case
  proof (elim disjE exE conjE)
    fix q assume "walk_at (Suc d) lc k q = Some (Some n)"
    then show ?thesis using Suc.hyps(2) by (intro Suc.hyps(1)[of "Suc d" q]) simp_all
  qed blast
qed

lemma handle_node_wf: "wf_registry r \<Longrightarrow> handle_node lc r h = Some (Some k) \<Longrightarrow> wf_key k"
proof -
  assume wf: "wf_registry r" and "handle_node lc r h = Some (Some k)"
  then obtain p where "walk_at 0 lc (root r) p = Some (Some k)"
    by (auto simp: handle_node_def walk_def split: option.splits)
  then obtain q where "walk_mut q (root r) = Some k" using walk_at_reaches by blast
  with wf show "wf_key k" unfolding wf_registry_def by (rule wf_walk_mut)
qed

lemma node_ok_lengths: "node_ok k \<Longrightarrow> length (value_names k) = length (rvalues k)"
proof -
  assume "node_ok k"
  then have "card (set (map lower (value_names k))) = card (set (hm_names (rvalues k)))"
    "distinct (map lower (value_names k))" "distinct (hm_names (rvalues k))" by (simp_all add: node_ok_def)
  then have "length (map lower (value_names k)) = length (hm_names (rvalues k))"
    by (simp only: distinct_card)
  then show ?thesis by simp
qed

lemma node_ok_get: "node_ok k \<Longrightarrow> n \<in> set (value_names k) \<Longrightarrow> \<exists>v. hm_get n (rvalues k) = Some v"
proof -
  assume ok: "node_ok k" and "n \<in> set (value_names k)"
  then have "lower n \<in> set (map lower (value_names k))" by simp
  also have "\<dots> = set (hm_names (rvalues k))" using ok by (simp only: node_ok_def)
  finally have "hm_get n (rvalues k) \<noteq> None" by (simp only: hm_get_None_iff not_not)
  then show ?thesis by (simp only: not_None_eq)
qed

lemma enum_value_at:
  "handle_node lc r h = Some (Some k) \<Longrightarrow> enum_value lc r h i =
     Some (Option.bind (nth_opt (value_names k) i) (\<lambda>n. map_option (\<lambda>v. (utf16le_of (original n), data_type v, data v))
       (hm_get n (rvalues k))))"
  by (simp add: enum_value_def map_conv_bind_option comp_def)

lemma value_index:
  assumes "node_ok k" and "hm_get m (rvalues k) = Some v"
  shows "\<exists>i < length (value_names k). same_name (value_names k ! i) m"
proof -
  have "lower m \<in> set (hm_names (rvalues k))"
    using hm_get_None_iff[of m "rvalues k"] assms(2) by simp
  also have "\<dots> = set (map lower (value_names k))" using assms(1) by (simp only: node_ok_def)
  finally show ?thesis by (auto simp: in_set_conv_nth same_name_def)
qed

lemma value_index_unique:
  assumes "node_ok k" and "i < length (value_names k)" and "j < length (value_names k)"
    and "same_name (value_names k ! i) m" and "same_name (value_names k ! j) m"
  shows "i = j"
proof -
  have "distinct (map lower (value_names k))" using assms(1) by (simp only: node_ok_def)
  from nth_eq_iff_index_eq[OF this, of i j] assms(2-) show ?thesis by (simp add: same_name_def)
qed

text \<open>
  Enumerating the values of a key visits each of its values exactly once: the valid indices are those below
  the number of values, and every stored value appears at exactly one of them, under its own name.
\<close>

theorem enum_value_complete:
  assumes "wf_registry r" and "handle_node lc r h = Some (Some k)"
  shows "(\<forall>i. enum_value lc r h i = Some None \<longleftrightarrow> length (rvalues k) \<le> i) \<and>
    (\<forall>m v. hm_get m (rvalues k) = Some v \<longrightarrow>
       (\<exists>!i. \<exists>n. nth_opt (value_names k) i = Some n \<and> same_name n m \<and>
          enum_value lc r h i = Some (Some (utf16le_of (original n), data_type v, data v))))"
proof (intro conjI allI impI)
  have ok: "node_ok k" by (rule wf_key_iff[THEN iffD1, OF handle_node_wf[OF assms], THEN conjunct1])
  show "enum_value lc r h i = Some None \<longleftrightarrow> length (rvalues k) \<le> i" for i
  proof (cases "i < length (rvalues k)")
    case True
    then have "i < length (value_names k)" by (simp only: node_ok_lengths[OF ok])
    with node_ok_get[OF ok nth_mem[OF this]] True show ?thesis
      by (auto simp: enum_value_at[OF assms(2)] nth_opt_def)
  qed (simp add: enum_value_at[OF assms(2)] nth_opt_def node_ok_lengths[OF ok])
next
  have ok: "node_ok k" by (rule wf_key_iff[THEN iffD1, OF handle_node_wf[OF assms], THEN conjunct1])
  fix m v assume g: "hm_get m (rvalues k) = Some v"
  obtain i where i: "i < length (value_names k)" "same_name (value_names k ! i) m"
    using value_index[OF ok g] by blast
  have "nth_opt (value_names k) i = Some (value_names k ! i) \<and> same_name (value_names k ! i) m \<and>
      enum_value lc r h i = Some (Some (utf16le_of (original (value_names k ! i)), data_type v, data v))"
    using i g hm_get_cong[OF i(2), of "rvalues k"] by (simp add: enum_value_at[OF assms(2)] nth_opt_def)
  moreover have "j = i" if "nth_opt (value_names k) j = Some n" "same_name n m" for j n
    using that i by (intro value_index_unique[OF ok _ i(1) _ i(2)]) (auto simp: nth_opt_def split: if_splits)
  ultimately show "\<exists>!i. \<exists>n. nth_opt (value_names k) i = Some n \<and> same_name n m \<and>
      enum_value lc r h i = Some (Some (utf16le_of (original n), data_type v, data v))" by blast
qed

definition valued_sample :: registry where
  "valued_sample = set_value ascii_lower sample 2 (wide [''x'']) 4 [1, 0, 0, 0]"

lemma valued_sample_root:
  "root valued_sample = RegKey [(nm ''A'', RegKey [(nm ''B'', key_new)] [] []),
     (nm ''C'', RegKey [] [(nm ''x'', \<lparr>data_type = 4, data = [1, 0, 0, 0]\<rparr>)] [nm ''x''])] [] []"
  by code_simp

theorem enum_value_complete_witness:
  "enum_value ascii_lower valued_sample 2 1 = Some None \<and>
   enum_value ascii_lower valued_sample 2 0 \<noteq> Some None"
proof -
  have wf: "wf_registry valued_sample"
    unfolding wf_registry_def by code_simp
  have hn: "handle_node ascii_lower valued_sample 2 =
      Some (Some (RegKey [] [(nm ''x'', \<lparr>data_type = 4, data = [1, 0, 0, 0]\<rparr>)] [nm ''x'']))" by code_simp
  from enum_value_complete[OF wf hn] show ?thesis by simp
qed



section \<open>Notifications\<close>

lemma collect_list:
  "open_keys r h = Some q \<Longrightarrow> collect_notifications r h change =
     (map (\<lambda>n. (n_pid n, n_event n)) (filter (notify_matches q change) (notify_list r)),
      r\<lparr>notify_list := filter (\<lambda>n. \<not> notify_matches q change n) (notify_list r)\<rparr>)"
  by (simp add: collect_notifications_def)

text \<open>
  A registered notification fires on the next matching change, of the watched key itself or of a key below it
  when the subtree is watched, and of a kind its filter selects; it fires after the earlier registrations that
  match, and once: a second identical change fires nothing.
\<close>

theorem notification_fires_once:
  assumes "open_keys r w = Some p" and "open_keys r h = Some q"
    and "register_notify r w pid ev sub filt = (ok, r1)" and "collect_notifications r1 h change = (fired, r2)"
  shows "ok \<and> fired = fst (collect_notifications r h change) @
      (if (same_path p q \<or> sub \<and> prefix (map lower p) (map lower q)) \<and> filt AND change \<noteq> 0 then [(pid, ev)] else []) \<and>
    fst (collect_notifications r2 h change) = [] \<and> root r2 = root r"
proof -
  have r1: "ok" "r1 = r\<lparr>notify_list := notify_list r @
      [\<lparr>n_path = p, n_pid = pid, n_event = ev, n_subtree = sub, n_filter = filt\<rparr>]\<rparr>"
    using assms(1,3) by (auto simp: register_notify_def)
  have o1: "open_keys r1 h = Some q" using assms(2) r1 by simp
  from assms(4) have f: "fired = map (\<lambda>n. (n_pid n, n_event n)) (filter (notify_matches q change) (notify_list r1))"
    and r2: "r2 = r1\<lparr>notify_list := filter (\<lambda>n. \<not> notify_matches q change n) (notify_list r1)\<rparr>"
    by (simp_all add: collect_list[OF o1])
  have "open_keys r2 h = Some q" using o1 r2 by simp
  then have "fst (collect_notifications r2 h change) = []" by (simp add: collect_list r2 filter_empty_conv)
  moreover have "notify_matches q change \<lparr>n_path = p, n_pid = pid, n_event = ev, n_subtree = sub, n_filter = filt\<rparr> \<longleftrightarrow>
      (same_path p q \<or> sub \<and> prefix (map lower p) (map lower q)) \<and> filt AND change \<noteq> 0"
    by (auto simp: notify_matches_def)
  ultimately show ?thesis by (simp add: f r2 r1 collect_list[OF assms(2)])
qed

theorem notification_fires_once_witness:
  "\<exists>r1 r2. register_notify sample 2 7 9 False 4 = (True, r1) \<and> collect_notifications r1 2 4 = ([(7, 9)], r2)"
proof -
  obtain ok r1 where a: "register_notify sample 2 7 9 False 4 = (ok, r1)" by (cases "register_notify sample 2 7 9 False 4")
  obtain f r2 where b: "collect_notifications r1 2 4 = (f, r2)" by (cases "collect_notifications r1 2 4")
  have o: "open_keys sample 2 = Some [nm ''C'']" using sample_open by simp
  have "fst (collect_notifications sample 2 4) = []" by code_simp
  with notification_fires_once[OF o o a b] a b show ?thesis by simp
qed

end
