(* ===== verification/RegFile.thy ===== *)
theory RegFile
  imports Registry
begin

text \<open>
  The registry files of a Wine prefix: the parser behind \<^verbatim>\<open>load_reg_file\<close> and the writer behind
  \<^verbatim>\<open>save_to_prefix\<close> in \<^verbatim>\<open>triskelion/registry.rs\<close>.  An outer \<open>None\<close> is a panic of the parser, which
  slices lines at byte positions.  The text of a file is an argument of loading and the result of saving;
  reading and writing the file itself is left to the caller.
\<close>

section \<open>Lexical helpers\<close>

fun quoted_name_loop :: "ustr \<Rightarrow> ustr \<Rightarrow> (ustr \<times> ustr) option" where
  "quoted_name_loop name [] = None"
| "quoted_name_loop name (c # s) =
     (if c = 92 then (case s of [] \<Rightarrow> None
        | e # s' \<Rightarrow> if e = 92 \<or> e = 34 then quoted_name_loop (name @ [e]) s' else quoted_name_loop (name @ [92, e]) s')
      else if c = 34 then Some (name, s)
      else quoted_name_loop (name @ [c]) s)"

definition parse_quoted_name :: "ustr \<Rightarrow> (ustr \<times> ustr) option" where
  "parse_quoted_name line = quoted_name_loop [] (tl line)"

definition unescape_char :: "uchar \<Rightarrow> ustr" where
  "unescape_char e = (if e = 92 then [92] else if e = 34 then [34] else if e = 48 then [0]
     else if e = 97 then [7] else if e = 98 then [8] else if e = 116 then [9] else if e = 110 then [10]
     else if e = 114 then [13] else if e = 101 then [27] else [92, e])"

fun unescape_reg_string :: "ustr \<Rightarrow> ustr" where
  "unescape_reg_string [] = []"
| "unescape_reg_string [c] = [c]"
| "unescape_reg_string (c # e # s) =
     (if c = 92 then unescape_char e @ unescape_reg_string s else c # unescape_reg_string (e # s))"

definition str_to_utf16le_null :: "ustr \<Rightarrow> bytes" where
  "str_to_utf16le_null s = u16s_to_le (encode_utf16 s @ [0])"

definition parse_hex_bytes :: "ustr \<Rightarrow> bytes" where
  "parse_hex_bytes s = List.map_filter
     (\<lambda>b. let b = str_trim b in if b = [] then None else map_option of_nat (from_hex 256 b)) (split_on 44 s)"

text \<open>\<^verbatim>\<open>key_path.split("\\\\")\<close>: a pair of backslashes separates key names.\<close>

fun split_pairs :: "ustr \<Rightarrow> ustr list" where
  "split_pairs [] = [[]]"
| "split_pairs [c] = [[c]]"
| "split_pairs (c # d # s) =
     (if c = 92 \<and> d = 92 then [] # split_pairs s
      else case split_pairs (d # s) of p # ps \<Rightarrow> (c # p) # ps | [] \<Rightarrow> [[c]])"

section \<open>Parsing a value line\<close>

text \<open>\<^verbatim>\<open>&rest[1..rest.len() - 1]\<close> on a string that starts with a one-byte character.\<close>

definition inner_slice :: "ustr \<Rightarrow> ustr option" where
  "inner_slice rest = (if utf8_len rest - 1 < 1 then None else map_option tl (str_prefix (utf8_len rest - 1) rest))"

definition trim_quotes :: "ustr \<Rightarrow> ustr" where
  "trim_quotes s = trim_end_by (\<lambda>c. c = 34) (dropWhile (\<lambda>c. c = 34) s)"

definition parse_name_part :: "ustr \<Rightarrow> (ustr \<times> ustr) option" where
  "parse_name_part line =
     (if prefix (lit ''@='') line then Some ([], drop 2 line)
      else if prefix [34] line then
        (case parse_quoted_name line of
           Some (name, rem) \<Rightarrow> if prefix (lit ''='') rem then Some (name, drop 1 rem) else None
         | None \<Rightarrow> None)
      else None)"

definition parse_data_part :: "ustr \<Rightarrow> (u32 \<times> bytes) option option" where
  "parse_data_part rest =
     (if prefix [34] rest then
        map_option (\<lambda>s. Some (1, str_to_utf16le_null (unescape_reg_string s))) (inner_slice rest)
      else Some (case strip_prefix (lit ''dword:'') rest of
        Some h \<Rightarrow> Some (4, u32_to_le (case from_hex (2 ^ 32) (str_trim h) of Some v \<Rightarrow> of_nat v | None \<Rightarrow> 0))
      | None \<Rightarrow> (case strip_prefix (lit ''hex:'') rest of
        Some h \<Rightarrow> Some (3, parse_hex_bytes h)
      | None \<Rightarrow> (case strip_prefix (lit ''str(2):'') rest of
        Some s \<Rightarrow> Some (2, str_to_utf16le_null (unescape_reg_string (trim_quotes s)))
      | None \<Rightarrow> (case strip_prefix (lit ''str(6):'') rest of
        Some s \<Rightarrow> Some (6, utf16le_of (unescape_reg_string (trim_quotes s)))
      | None \<Rightarrow> (case strip_prefix (lit ''hex('') rest of
        Some h \<Rightarrow> (case split_once (lit ''):'') h of
            Some (t, d) \<Rightarrow> Some (case from_hex (2 ^ 32) t of Some v \<Rightarrow> of_nat v | None \<Rightarrow> 3, parse_hex_bytes d)
          | None \<Rightarrow> None)
      | None \<Rightarrow> None))))))"

definition parse_reg_value :: "lower_fun \<Rightarrow> ustr \<Rightarrow> path \<Rightarrow> reg_key \<Rightarrow> (bool \<times> reg_key) option" where
  "parse_reg_value lc line cur k =
     (if cur = [] then Some (False, k)
      else case parse_name_part line of None \<Rightarrow> Some (False, k)
      | Some (name, rest) \<Rightarrow> do {
          d \<leftarrow> parse_data_part rest;
          Some (case d of None \<Rightarrow> (False, k)
            | Some (ty, bs) \<Rightarrow> (True, walk_mut_create cur
                 (put_value (reg_name_new lc name) \<lparr>data_type = ty, data = bs\<rparr>) k)) })"

section \<open>Loading a file\<close>

record load_state =
  l_root :: reg_key
  l_path :: path
  l_cont :: ustr
  l_keys :: u32
  l_values :: u32

definition split_path :: "lower_fun \<Rightarrow> ustr \<Rightarrow> path" where
  "split_path lc s = map (reg_name_new lc) (filter (\<lambda>x. x \<noteq> []) (split_on 92 s))"

definition load_value :: "lower_fun \<Rightarrow> ustr \<Rightarrow> load_state \<Rightarrow> load_state option" where
  "load_value lc line st = do {
     (set, k) \<leftarrow> parse_reg_value lc line (l_path st) (l_root st);
     Some (st\<lparr>l_root := k, l_values := (if set then l_values st + 1 else l_values st)\<rparr>) }"

definition load_header :: "lower_fun \<Rightarrow> path \<Rightarrow> ustr \<Rightarrow> load_state \<Rightarrow> load_state" where
  "load_header lc pre t st = (case split_once [93] t of
      None \<Rightarrow> st
    | Some (h, _) \<Rightarrow>
        let segs = map (reg_name_new lc) (filter (\<lambda>x. x \<noteq> []) (split_pairs (tl h)));
            p = follow_symlink lc (l_root st) (pre @ segs) in
        st\<lparr>l_path := p, l_root := walk_mut_create p id (l_root st), l_keys := l_keys st + 1\<rparr>)"

definition load_line :: "lower_fun \<Rightarrow> path \<Rightarrow> load_state \<Rightarrow> ustr \<Rightarrow> load_state option" where
  "load_line lc pre st line = (let t = str_trim line in
     if l_cont st \<noteq> [] then
       (if t \<noteq> [] \<and> last t = 92 then Some (st\<lparr>l_cont := l_cont st @ butlast t\<rparr>)
        else load_value lc (l_cont st @ t) (st\<lparr>l_cont := []\<rparr>))
     else if t = [] \<or> prefix [59] t \<or> prefix [35] t \<or> prefix (lit ''WINE REGISTRY'') t then Some st
     else if prefix [91] t then Some (load_header lc pre t st)
     else if last t = 92 then Some (st\<lparr>l_cont := butlast t\<rparr>)
     else load_value lc t st)"

fun load_lines :: "lower_fun \<Rightarrow> path \<Rightarrow> ustr list \<Rightarrow> load_state \<Rightarrow> load_state option" where
  "load_lines lc pre [] st = Some st"
| "load_lines lc pre (l # ls) st = do { st' \<leftarrow> load_line lc pre st l; load_lines lc pre ls st' }"

definition load_reg_file :: "lower_fun \<Rightarrow> reg_key \<Rightarrow> ustr \<Rightarrow> ustr \<Rightarrow> ((u32 \<times> u32) \<times> reg_key) option" where
  "load_reg_file lc k content root_prefix = do {
     st \<leftarrow> load_lines lc (split_path lc root_prefix) (str_lines content)
            \<lparr>l_root = k, l_path = [], l_cont = [], l_keys = 0, l_values = 0\<rparr>;
     Some ((l_keys st, l_values st), l_root st) }"

text \<open>The three files of a prefix; a file that cannot be read (\<open>None\<close>) is skipped.\<close>

definition prefix_files :: "ustr \<Rightarrow> (string \<times> ustr) list" where
  "prefix_files sid = [(''system.reg'', backslashed [''Registry'', ''Machine'']),
     (''user.reg'', backslashed [''Registry'', ''User'', ''''] @ sid),
     (''userdef.reg'', backslashed [''Registry'', ''User'', ''.Default''])]"

fun load_files :: "lower_fun \<Rightarrow> (string \<Rightarrow> ustr option) \<Rightarrow> (string \<times> ustr) list \<Rightarrow> reg_key \<Rightarrow> reg_key option" where
  "load_files lc fs [] k = Some k"
| "load_files lc fs ((f, pre) # r) k = (case fs f of
      None \<Rightarrow> load_files lc fs r k
    | Some content \<Rightarrow> do { (_, k') \<leftarrow> load_reg_file lc k content pre; load_files lc fs r k' })"

definition load_prefix_registry :: "lower_fun \<Rightarrow> (string \<Rightarrow> ustr option) \<Rightarrow> ustr \<Rightarrow> registry \<Rightarrow> registry option" where
  "load_prefix_registry lc fs sid r = do {
     k \<leftarrow> load_files lc fs (prefix_files sid) (root r);
     _ \<leftarrow> walk lc k (map (reg_name_new lc \<circ> lit) [''registry'', ''machine'', ''system'', ''controlset001'', ''control'',
            ''class'', ''{4d36e968-e325-11ce-bfc1-08002be10318}'']);
     Some (r\<lparr>root := k\<rparr>) }"

section \<open>Saving a file\<close>

definition escape :: "ustr \<Rightarrow> ustr" where
  "escape s = replace_char 34 [92, 34] (replace_char 92 [92, 92] s)"

definition name_text :: "reg_name \<Rightarrow> ustr" where
  "name_text n = (if original n = [] \<or> original n = lit ''@'' then lit ''@''
     else [34] @ escape (original n) @ [34])"

definition stored_text :: "bytes \<Rightarrow> ustr" where
  "stored_text bs = trim_end_by (\<lambda>c. c = 0) (utf16le_to_string bs)"

definition hex_text :: "bytes \<Rightarrow> ustr" where
  "hex_text bs = join_with [44] (map (\<lambda>b. pad_left 2 48 (to_hex (unat b))) bs)"

definition data_text :: "reg_value \<Rightarrow> ustr option" where
  "data_text v =
     (if data_type v = 1 then Some ([34] @ escape (stored_text (data v)) @ [34])
      else if data_type v = 2 then Some (lit ''str(2):'' @ [34] @ escape (stored_text (data v)) @ [34])
      else if data_type v = 4 then
        (if 4 \<le> length (data v) then Some (lit ''dword:'' @ pad_left 8 48 (to_hex (unat (u32_from_le (take 4 (data v))))))
         else None)
      else Some (lit ''hex('' @ to_hex (unat (data_type v)) @ lit ''):'' @ hex_text (data v)))"

definition value_line :: "reg_name \<Rightarrow> reg_value \<Rightarrow> ustr" where
  "value_line n v = (case data_text v of Some t \<Rightarrow> name_text n @ lit ''='' @ t @ [10] | None \<Rightarrow> [])"

definition skipped_path :: "lower_fun \<Rightarrow> ustr \<Rightarrow> bool" where
  "skipped_path lc p \<longleftrightarrow> str_contains (lit ''currentcontrolset'') (lc p) \<and> str_contains (lit ''services'') (lc p)"

definition child_path :: "ustr \<Rightarrow> reg_name \<Rightarrow> ustr" where
  "child_path p n = (if p = [] then original n else p @ [92, 92] @ original n)"

definition value_lines :: "reg_key \<Rightarrow> ustr" where
  "value_lines k = concat (map (\<lambda>n. case hm_get n (rvalues k) of Some v \<Rightarrow> value_line n v | None \<Rightarrow> []) (value_names k))"

lemma child_size: "(n, c) \<in> set cs \<Longrightarrow> size c < Suc (size_list (size_prod (\<lambda>x. 0) size) cs)"
  by (induction cs) auto

function write_key :: "lower_fun \<Rightarrow> ustr \<Rightarrow> reg_key \<Rightarrow> ustr" where
  "write_key lc p (RegKey cs vs ns) =
     (if skipped_path lc p then []
      else lit ''['' @ p @ lit ''] 1773790329'' @ [10] @ value_lines (RegKey cs vs ns) @ [10] @
        concat (map (\<lambda>(n, c). write_key lc (child_path p n) c) (sort_key (lower \<circ> fst) cs)))"
  by pat_completeness auto

termination by (relation "measure (\<lambda>(_, _, k). size k)") (auto intro: child_size)

fun count_keys :: "reg_key \<Rightarrow> nat" where
  "count_keys (RegKey cs vs ns) = 1 + sum_list (map (\<lambda>c. count_keys (snd c)) cs)"

definition file_header :: "ustr \<Rightarrow> ustr" where
  "file_header root_prefix = lit ''WINE REGISTRY Version 2'' @ [10] @ lit '';; All keys relative to '' @
     (case split_once (lit ''Registry'' @ [92]) root_prefix of
        Some (a, b) \<Rightarrow> a @ lit ''REGISTRY'' @ [92, 92] @ b | None \<Rightarrow> root_prefix) @ [10, 10] @
     lit ''#arch=win64'' @ [10, 10]"

text \<open>What \<^verbatim>\<open>save_to_prefix\<close> writes to one file; \<open>None\<close> when the file is left alone.\<close>

definition save_file :: "lower_fun \<Rightarrow> reg_key \<Rightarrow> ustr \<Rightarrow> ustr option" where
  "save_file lc k root_prefix = (case walk_mut (split_path lc root_prefix) k of
      None \<Rightarrow> None
    | Some n \<Rightarrow> if count_keys n \<le> 1 then None
        else Some (file_header root_prefix @
          concat (map (\<lambda>(m, c). write_key lc (original m) c) (sort_key (lower \<circ> fst) (children n)))))"

definition save_to_prefix :: "lower_fun \<Rightarrow> registry \<Rightarrow> ustr \<Rightarrow> (string \<times> ustr) list" where
  "save_to_prefix lc r sid =
     List.map_filter (\<lambda>(f, pre). map_option (Pair f) (save_file lc (root r) pre)) (prefix_files sid)"

section \<open>Reading back what was written\<close>

lemma escape_simps [simp]:
  "escape [] = []"
  "escape (c # s) = (if c = 92 then [92, 92] else if c = 34 then [92, 34] else [c]) @ escape s"
  by (simp_all add: escape_def replace_char_def)

lemma escape_append: "escape (a @ b) = escape a @ escape b"
  by (induction a) auto

lemma quoted_name_escape: "quoted_name_loop acc (escape n @ 34 # rest) = Some (acc @ n, rest)"
  by (induction n arbitrary: acc) auto

lemma unescape_plain: "c \<noteq> 92 \<Longrightarrow> unescape_reg_string (c # s) = c # unescape_reg_string s"
  by (cases s) auto

lemma unescape_escape_append: "unescape_reg_string (escape s @ t) = s @ unescape_reg_string t"
  by (induction s) (auto simp: unescape_plain unescape_char_def)

lemma unescape_escape [simp]: "unescape_reg_string (escape s) = s"
  using unescape_escape_append[of s "[]"] by simp

lemma str_prefix_append: "str_prefix (utf8_len s) (s @ t) = Some s"
proof (induction s)
  case Nil
  then show ?case by (cases t) (simp_all add: utf8_len_def)
next
  case (Cons c s)
  have "0 < len_utf8 c" by (simp add: len_utf8_def)
  with Cons show ?case by (simp add: utf8_len_def)
qed

lemma inner_slice_quoted: "inner_slice (34 # s @ [34]) = Some s"
proof -
  have n: "utf8_len (34 # s @ [34]) - 1 = utf8_len (34 # s)" "1 \<le> utf8_len (34 # s)"
    by (simp_all add: utf8_len_def len_utf8_def)
  from str_prefix_append[of "34 # s" "[34]"] show ?thesis
    unfolding inner_slice_def n(1) using n(2) by simp
qed

lemma hd_escape: "s \<noteq> [] \<Longrightarrow> hd (escape s) \<noteq> 34"
  by (cases s) auto

lemma escape_Nil_iff [simp]: "escape s = [] \<longleftrightarrow> s = []"
  by (cases s) auto

lemma dropWhile_escape: "dropWhile (\<lambda>c. c = 34) (34 # escape s @ [34]) = (if s = [] then [] else escape s @ [34])"
  using hd_escape[of s] by (cases "escape s") auto

lemma last_escape: "s \<noteq> [] \<Longrightarrow> last s \<noteq> 34 \<Longrightarrow> last (escape s) \<noteq> 34"
  by (cases s rule: rev_cases) (auto simp: escape_append)

lemma trim_quotes_escape:
  "s = [] \<or> last s \<noteq> 34 \<Longrightarrow> trim_quotes (34 # escape s @ [34]) = escape s"
  unfolding trim_quotes_def dropWhile_escape using last_escape[of s] by (auto simp: trim_end_id)

lemma trim_quotes_lost: "trim_quotes (34 # escape (a @ [34]) @ [34]) = escape a @ [92]"
  unfolding trim_quotes_def dropWhile_escape
  by (simp add: escape_append) (simp add: trim_end_by_def)

lemma hex_byte: "from_hex 256 (pad_left 2 48 (to_hex (unat (b :: u8)))) = Some (unat b)"
  using unsigned_less[of b] by (intro from_hex_pad) simp

lemma hex_byte_trim: "str_trim (pad_left 2 48 (to_hex n)) = pad_left 2 48 (to_hex n)"
proof (rule str_trim_id)
  let ?s = "pad_left 2 48 (to_hex n)"
  have "?s \<noteq> []" by (simp add: pad_left_def)
  then have "hd ?s \<in> set ?s" "last ?s \<in> set ?s" by simp_all
  then show "?s = [] \<or> \<not> is_whitespace (hd ?s) \<and> \<not> is_whitespace (last ?s)"
    using hex_not_whitespace[of _ 2 n] by blast
qed

lemma parse_hex_text [codec_simps]: "parse_hex_bytes (hex_text bs) = bs"
proof (cases "bs = []")
  case True
  then show ?thesis by (simp add: parse_hex_bytes_def hex_text_def map_filter_simps str_trim_def trim_end_by_def)
next
  case False
  let ?h = "\<lambda>b :: u8. pad_left 2 48 (to_hex (unat b))"
  have "\<forall>x\<in>set (map ?h bs). 44 \<notin> set x" using pad_hex_chars[of 44 2] by auto
  then have "split_on 44 (hex_text bs) = map ?h bs"
    unfolding hex_text_def using False by (intro split_on_join) auto
  moreover have "?h b \<noteq> []" for b by (simp add: pad_left_def)
  then have "List.map_filter (\<lambda>b. let b = str_trim b in if b = [] then None else map_option of_nat (from_hex 256 b)) (map ?h bs) = bs"
    by (induction bs) (simp_all add: map_filter_simps hex_byte_trim hex_byte)
  ultimately show ?thesis by (simp add: parse_hex_bytes_def)
qed

lemma lits [simp]:
  "lit ''dword:'' = [100, 119, 111, 114, 100, 58]" "lit ''hex:'' = [104, 101, 120, 58]"
  "lit ''hex('' = [104, 101, 120, 40]" "lit ''str(2):'' = [115, 116, 114, 40, 50, 41, 58]"
  "lit ''str(6):'' = [115, 116, 114, 40, 54, 41, 58]" "lit ''):'' = [41, 58]" "lit ''='' = [61]"
  "lit ''@='' = [64, 61]" "lit ''@'' = [64]" "lit ''['' = [91]"
  by (simp_all add: lit_def)

text \<open>
  A value survives being written and read again when its text is what the parser will rebuild: a
  zero-terminated string for the string types, four bytes for a number.
\<close>

definition savable :: "reg_value \<Rightarrow> bool" where
  "savable v \<longleftrightarrow>
     (data_type v \<in> {1, 2} \<longrightarrow> data v = str_to_utf16le_null (stored_text (data v))) \<and>
     (data_type v = 2 \<longrightarrow> stored_text (data v) = [] \<or> last (stored_text (data v)) \<noteq> 34) \<and>
     (data_type v = 4 \<longrightarrow> length (data v) = 4)"

lemma data_roundtrip:
  assumes "savable v" and "data_text v = Some t"
  shows "parse_data_part t = Some (Some (data_type v, data v))"
proof -
  consider (sz) "data_type v = 1" | (expand) "data_type v = 2" | (dword) "data_type v = 4"
    | (other) "data_type v \<notin> {1, 2, 4}" by blast
  then show ?thesis
  proof cases
    case sz
    then have "t = 34 # escape (stored_text (data v)) @ [34]" using assms by (simp add: data_text_def)
    with sz assms(1) show ?thesis by (simp add: parse_data_part_def inner_slice_quoted savable_def)
  next
    case expand
    then have "t = lit ''str(2):'' @ 34 # escape (stored_text (data v)) @ [34]" using assms by (simp add: data_text_def)
    with expand assms(1) show ?thesis
      by (simp add: parse_data_part_def strip_prefix_def savable_def trim_quotes_escape)
  next
    case dword
    let ?w = "u32_from_le (data v)" and ?s = "pad_left 8 48 (to_hex (unat (u32_from_le (data v))))"
    have len: "length (data v) = 4" using dword assms(1) by (simp add: savable_def)
    then have t: "t = lit ''dword:'' @ ?s" using assms(2) dword by (simp add: data_text_def)
    have "?s \<noteq> []" by (simp add: pad_left_def)
    then have "str_trim ?s = ?s" using hex_not_whitespace[of _ 8 "unat ?w"] by (intro str_trim_id) simp
    moreover have "from_hex (2 ^ 32) ?s = Some (unat ?w)" using unat_u32_lt[of ?w] by (intro from_hex_pad) simp
    ultimately show ?thesis using t dword len
      by (simp add: parse_data_part_def strip_prefix_def u32_le_inverse)
  next
    case other
    let ?s = "to_hex (unat (data_type v))"
    have t: "t = lit ''hex('' @ ?s @ lit ''):'' @ hex_text (data v)" using assms(2) other by (simp add: data_text_def)
    have "41 \<notin> set ?s" using to_hex_chars[of 41 "unat (data_type v)"] by auto
    then have "split_once [41, 58] (?s @ [41, 58] @ hex_text (data v)) = Some (?s, hex_text (data v))"
      by (intro split_once_hd) simp_all
    moreover have "from_hex (2 ^ 32) ?s = Some (unat (data_type v))"
      using unat_u32_lt[of "data_type v"] by (intro from_hex_to_hex) simp
    ultimately show ?thesis using t by (simp add: parse_data_part_def strip_prefix_def parse_hex_text)
  qed
qed

lemma name_roundtrip:
  "original n \<noteq> lit ''@'' \<Longrightarrow> parse_name_part (name_text n @ lit ''='' @ t) = Some (original n, t)"
  by (auto simp: parse_name_part_def name_text_def parse_quoted_name_def quoted_name_escape)



text \<open>
  An expandable string that ends in a double quote does not survive: the parser strips every trailing quote,
  the escaped one included, so the text comes back with a backslash in place of its final quote.
\<close>

theorem expand_sz_loses_final_quote:
  assumes "data_type v = 2" and "stored_text (data v) = a @ [34]"
  shows "Option.bind (data_text v) parse_data_part = Some (Some (2, str_to_utf16le_null (a @ [92])))"
proof -
  have "data_text v = Some (lit ''str(2):'' @ 34 # escape (a @ [34]) @ [34])"
    using assms by (simp add: data_text_def)
  then show ?thesis using unescape_escape_append[of a "[92]"]
    by (simp add: parse_data_part_def strip_prefix_def trim_quotes_lost[simplified])
qed

theorem expand_sz_loses_final_quote_witness:
  "Option.bind (data_text \<lparr>data_type = 2, data = utf16le_of (lit ''%x'' @ [34])\<rparr>) parse_data_part =
     Some (Some (2, str_to_utf16le_null (lit ''%x'' @ [92])))"
proof (rule expand_sz_loses_final_quote)
  show "stored_text (data \<lparr>data_type = 2, data = utf16le_of (lit ''%x'' @ [34])\<rparr>) = lit ''%x'' @ [34]" by code_simp
qed simp

text \<open>
  A value line whose text after the equals sign is a lone double quote panics the loader, whatever key it is
  under.
\<close>

theorem unterminated_value_panics:
  "cur \<noteq> [] \<Longrightarrow> parse_reg_value lc (name_text n @ lit ''='' @ [34]) cur k = None"
proof -
  assume cur: "cur \<noteq> []"
  have s: "parse_data_part [34] = None"
    by (simp add: parse_data_part_def inner_slice_def utf8_len_def len_utf8_def)
  show ?thesis
  proof (cases "original n = lit ''@''")
    case True
    then show ?thesis using cur s by (simp add: parse_reg_value_def name_text_def parse_name_part_def)
  next
    case False
    with name_roundtrip[OF False, of "[34]"] cur s show ?thesis by (simp add: parse_reg_value_def)
  qed
qed

theorem unterminated_value_panics_witness:
  "parse_reg_value ascii_lower (name_text (nm ''a'') @ lit ''='' @ [34]) [nm ''K''] key_new = None"
  by (rule unterminated_value_panics) simp

end
