(* ===== verification/Display.thy ===== *)
theory Display
  imports Ustring
begin

text \<open>
  The display description that \<^verbatim>\<open>parallax\<close> hands to \<^verbatim>\<open>triskelion\<close> through a shared memory segment: the
  writer of \<^verbatim>\<open>parallax/display_info.rs\<close>, the reader of \<^verbatim>\<open>triskelion/display.rs\<close> and the values derived from it.
  The segment is a byte list of its fixed size; a raw pointer access outside it would be an access outside
  the mapping, and is \<open>None\<close> here.  The environment variables the writer looks at are arguments.
\<close>

section \<open>Constants and data\<close>

definition SHM_MAGIC :: u32 where "SHM_MAGIC = 0x5359424C"
definition SHM_VERSION :: u32 where "SHM_VERSION = 1"
definition MAX_CONNECTORS :: nat where "MAX_CONNECTORS = 8"
definition MAX_MODES_PER_CONNECTOR :: nat where "MAX_MODES_PER_CONNECTOR = 64"
definition HEADER_SIZE :: nat where "HEADER_SIZE = 64"
definition GPU_ENTRY_SIZE :: nat where "GPU_ENTRY_SIZE = 256"
definition MODE_ENTRY_SIZE :: nat where "MODE_ENTRY_SIZE = 16"
definition CONNECTOR_HEADER_SIZE :: nat where "CONNECTOR_HEADER_SIZE = 128"
definition CONNECTOR_ENTRY_SIZE :: nat where
  "CONNECTOR_ENTRY_SIZE = CONNECTOR_HEADER_SIZE + MAX_MODES_PER_CONNECTOR * MODE_ENTRY_SIZE"
definition SHM_SIZE :: nat where "SHM_SIZE = 16384"

lemmas display_consts = SHM_MAGIC_def SHM_VERSION_def MAX_CONNECTORS_def MAX_MODES_PER_CONNECTOR_def
  HEADER_SIZE_def GPU_ENTRY_SIZE_def MODE_ENTRY_SIZE_def CONNECTOR_HEADER_SIZE_def CONNECTOR_ENTRY_SIZE_def SHM_SIZE_def

record gpu_info =
  gi_driver :: ustr
  gi_pci_vendor :: u32
  gi_pci_device :: u32
  gi_pci_subsys_vendor :: u32
  gi_pci_subsys_device :: u32
  gi_pci_revision :: u32
  gi_pci_bus_id :: ustr
  gi_gpu_name :: ustr
  gi_vram_bytes :: u64

record mode_info =
  mi_width :: u32
  mi_height :: u32
  mi_refresh :: u32
  mi_flags :: u32
  mi_mode_type :: u32

record connector_info =
  ci_name :: ustr
  ci_connector_id :: u32
  ci_connected :: bool
  ci_connector_type :: u32
  ci_connector_type_id :: u32
  ci_mm_width :: u32
  ci_mm_height :: u32
  ci_edid :: bytes
  ci_modes :: "mode_info list"
  ci_current_mode :: "mode_info option"

record display_hardware =
  gpus :: "gpu_info list"
  hw_connectors :: "connector_info list"

record gpu_data =
  pci_vendor :: u32
  pci_device :: u32
  pci_subsys_vendor :: u32
  pci_subsys_device :: u32
  pci_revision :: u32
  driver :: ustr
  bus_id :: ustr
  gpu_name :: ustr
  vram_bytes :: u64

record mode_data =
  md_width :: u32
  md_height :: u32
  md_refresh :: u32

record connector_data =
  cd_name :: ustr
  cd_connector_type :: u32
  cd_mm_width :: u32
  cd_mm_height :: u32
  cd_edid :: bytes
  cd_modes :: "mode_data list"
  cd_current_mode_index :: nat
  current_width :: u32
  current_height :: u32
  current_refresh :: u32

record display_data =
  gpu :: gpu_data
  connectors :: "connector_data list"
  driver_choice :: u8
  dd_session_type :: u32

section \<open>The writer\<close>

text \<open>The environment: \<^verbatim>\<open>WAYLAND_DISPLAY\<close> and \<^verbatim>\<open>DISPLAY\<close> set, and the value of \<^verbatim>\<open>QUARK_DISPLAY_DRIVER\<close>.\<close>

record display_env =
  has_wayland :: bool
  has_x11 :: bool
  quark_display_driver :: "ustr option"

definition session_of :: "display_env \<Rightarrow> u32" where
  "session_of e = (if has_wayland e then 2 else if has_x11 e then 1 else 0)"

definition choose_driver :: "display_env \<Rightarrow> u32 \<Rightarrow> u8" where
  "choose_driver e gpu_vendor =
     (if quark_display_driver e = Some (lit ''winex11.drv'') \<or> quark_display_driver e = Some (lit ''x11'') then 1
      else if quark_display_driver e = Some (lit ''winewayland.drv'') \<or> quark_display_driver e = Some (lit ''wayland'') then 2
      else if gpu_vendor = 0x10de then 1
      else if session_of e = 1 then 1
      else if session_of e = 2 then 2
      else 1)"

definition write_gpu :: "gpu_info \<Rightarrow> bytes \<Rightarrow> bytes option" where
  "write_gpu g b = do {
     b \<leftarrow> put HEADER_SIZE (u32_to_le (gi_pci_vendor g)) b;
     b \<leftarrow> put (HEADER_SIZE + 4) (u32_to_le (gi_pci_device g)) b;
     b \<leftarrow> put (HEADER_SIZE + 8) (u32_to_le (gi_pci_subsys_vendor g)) b;
     b \<leftarrow> put (HEADER_SIZE + 12) (u32_to_le (gi_pci_subsys_device g)) b;
     b \<leftarrow> put (HEADER_SIZE + 16) (u32_to_le (gi_pci_revision g)) b;
     b \<leftarrow> put (HEADER_SIZE + 20) (take 63 (as_bytes (gi_driver g))) b;
     b \<leftarrow> put (HEADER_SIZE + 84) (take 63 (as_bytes (gi_pci_bus_id g))) b;
     b \<leftarrow> put (HEADER_SIZE + 148) (take 63 (as_bytes (gi_gpu_name g))) b;
     put (HEADER_SIZE + 212) (u64_to_le (gi_vram_bytes g)) b }"

definition write_mode :: "nat \<Rightarrow> mode_info list \<Rightarrow> nat \<Rightarrow> bytes \<Rightarrow> bytes option" where
  "write_mode base modes j b = do {
     let mode_base = base + CONNECTOR_HEADER_SIZE + j * MODE_ENTRY_SIZE;
     b \<leftarrow> put mode_base (u32_to_le (mi_width (modes ! j))) b;
     b \<leftarrow> put (mode_base + 4) (u32_to_le (mi_height (modes ! j))) b;
     b \<leftarrow> put (mode_base + 8) (u32_to_le (mi_refresh (modes ! j))) b;
     put (mode_base + 12) (u32_to_le (mi_flags (modes ! j))) b }"

fun position :: "('a \<Rightarrow> bool) \<Rightarrow> 'a list \<Rightarrow> nat option" where
  "position p [] = None"
| "position p (x # xs) = (if p x then Some 0 else map_option Suc (position p xs))"

definition current_mode_index :: "connector_info \<Rightarrow> u32" where
  "current_mode_index c =
     (case Option.bind (ci_current_mode c) (\<lambda>cur. position (\<lambda>m. mi_width m = mi_width cur \<and>
              mi_height m = mi_height cur \<and> mi_refresh m = mi_refresh cur) (ci_modes c)) of
        Some i \<Rightarrow> of_nat i | None \<Rightarrow> 0xFFFFFFFF)"

definition write_connector_header :: "nat \<Rightarrow> connector_info \<Rightarrow> bytes \<Rightarrow> bytes option" where
  "write_connector_header base c b = do {
     b \<leftarrow> put base (u32_to_le (ci_connector_id c)) b;
     b \<leftarrow> put (base + 4) (u32_to_le (ci_connector_type c)) b;
     b \<leftarrow> put (base + 8) (u32_to_le (ci_connector_type_id c)) b;
     b \<leftarrow> put (base + 12) (u32_to_le (ci_mm_width c)) b;
     b \<leftarrow> put (base + 16) (u32_to_le (ci_mm_height c)) b;
     b \<leftarrow> put (base + 20) (u32_to_le (of_nat (min (length (ci_modes c)) MAX_MODES_PER_CONNECTOR))) b;
     b \<leftarrow> put (base + 24) (u32_to_le (current_mode_index c)) b;
     b \<leftarrow> put (base + 28) (u32_to_le (of_nat (min (length (ci_edid c)) 128))) b;
     b \<leftarrow> put (base + 32) (take 31 (as_bytes (ci_name c))) b;
     put (base + 64) (take 128 (ci_edid c)) b }"

definition write_connector :: "connector_info list \<Rightarrow> nat \<Rightarrow> bytes \<Rightarrow> bytes option" where
  "write_connector cs index b = do {
     let c = cs ! index;
     let base = HEADER_SIZE + GPU_ENTRY_SIZE + index * CONNECTOR_ENTRY_SIZE;
     b \<leftarrow> write_connector_header base c b;
     for_range 0 (min (length (ci_modes c)) MAX_MODES_PER_CONNECTOR) (write_mode base (ci_modes c)) b }"

definition connected_outputs :: "display_hardware \<Rightarrow> connector_info list" where
  "connected_outputs hw = take MAX_CONNECTORS (filter ci_connected (hw_connectors hw))"

definition write_header :: "display_env \<Rightarrow> display_hardware \<Rightarrow> bytes \<Rightarrow> bytes option" where
  "write_header e hw b = do {
     b \<leftarrow> put 0 (u32_to_le SHM_MAGIC) b;
     b \<leftarrow> put 4 (u32_to_le SHM_VERSION) b;
     b \<leftarrow> put 8 (u32_to_le (of_nat (min (length (gpus hw)) 1))) b;
     b \<leftarrow> put 12 (u32_to_le (of_nat (min (length (filter ci_connected (hw_connectors hw))) MAX_CONNECTORS))) b;
     b \<leftarrow> put 24 (u32_to_le (session_of e)) b;
     b \<leftarrow> put 20 [choose_driver e (case gpus hw of [] \<Rightarrow> 0 | g # _ \<Rightarrow> gi_pci_vendor g)] b;
     put 16 (u32_to_le 1) b }"

definition write_hardware :: "display_env \<Rightarrow> display_hardware \<Rightarrow> bytes \<Rightarrow> bytes option" where
  "write_hardware e hw b = do {
     b \<leftarrow> write_header e hw b;
     b \<leftarrow> (case gpus hw of [] \<Rightarrow> Some b | g # _ \<Rightarrow> write_gpu g b);
     let conns = connected_outputs hw;
     b \<leftarrow> for_range 0 (length conns) (write_connector conns) b;
     put 16 (u32_to_le 2) b }"

text \<open>The freshly created segment, zeroed by \<^verbatim>\<open>create\<close>.\<close>

definition blank_shm :: bytes where
  "blank_shm = replicate SHM_SIZE 0"

section \<open>The reader\<close>

definition read_cstr :: "nat \<Rightarrow> nat \<Rightarrow> bytes \<Rightarrow> ustr option" where
  "read_cstr off max_len b = map_option (\<lambda>s. from_utf8_lossy (takeWhile (\<lambda>x. x \<noteq> 0) s)) (slice off (off + max_len) b)"

definition read_mode :: "bytes \<Rightarrow> nat \<Rightarrow> nat \<Rightarrow> mode_data option" where
  "read_mode b base j = do {
     let mode_base = base + CONNECTOR_HEADER_SIZE + j * MODE_ENTRY_SIZE;
     w \<leftarrow> rd_u32 mode_base b;
     h \<leftarrow> rd_u32 (mode_base + 4) b;
     r \<leftarrow> rd_u32 (mode_base + 8) b;
     Some \<lparr>md_width = w, md_height = h, md_refresh = r\<rparr> }"

definition pick_current :: "nat \<Rightarrow> mode_data list \<Rightarrow> u32 \<times> u32 \<times> u32" where
  "pick_current idx modes =
     (if idx < length modes then (md_width (modes ! idx), md_height (modes ! idx), md_refresh (modes ! idx))
      else if modes \<noteq> [] then (md_width (modes ! 0), md_height (modes ! 0), md_refresh (modes ! 0))
      else (1920, 1080, 60))"

definition read_connector :: "bytes \<Rightarrow> nat \<Rightarrow> connector_data option" where
  "read_connector b i = do {
     let base = HEADER_SIZE + GPU_ENTRY_SIZE + i * CONNECTOR_ENTRY_SIZE;
     ty \<leftarrow> rd_u32 (base + 4) b;
     mw \<leftarrow> rd_u32 (base + 12) b;
     mh \<leftarrow> rd_u32 (base + 16) b;
     mc \<leftarrow> rd_u32 (base + 20) b;
     idx \<leftarrow> rd_u32 (base + 24) b;
     el \<leftarrow> rd_u32 (base + 28) b;
     name \<leftarrow> read_cstr (base + 32) 31 b;
     edid \<leftarrow> slice (base + 64) (base + 64 + min (unat el) 128) b;
     modes \<leftarrow> those (map (read_mode b base) [0..<min (unat mc) MAX_MODES_PER_CONNECTOR]);
     let (w, h, r) = pick_current (unat idx) modes;
     Some \<lparr>cd_name = name, cd_connector_type = ty, cd_mm_width = mw, cd_mm_height = mh, cd_edid = edid,
           cd_modes = modes, cd_current_mode_index = unat idx,
           current_width = w, current_height = h, current_refresh = r\<rparr> }"

definition read_gpu :: "bytes \<Rightarrow> gpu_data option" where
  "read_gpu b = do {
     v \<leftarrow> rd_u32 HEADER_SIZE b;
     d \<leftarrow> rd_u32 (HEADER_SIZE + 4) b;
     sv \<leftarrow> rd_u32 (HEADER_SIZE + 8) b;
     sd \<leftarrow> rd_u32 (HEADER_SIZE + 12) b;
     rev \<leftarrow> rd_u32 (HEADER_SIZE + 16) b;
     drv \<leftarrow> read_cstr (HEADER_SIZE + 20) 63 b;
     bus \<leftarrow> read_cstr (HEADER_SIZE + 84) 63 b;
     name \<leftarrow> read_cstr (HEADER_SIZE + 148) 63 b;
     vram \<leftarrow> rd_u64 (HEADER_SIZE + 212) b;
     Some \<lparr>pci_vendor = v, pci_device = d, pci_subsys_vendor = sv, pci_subsys_device = sd, pci_revision = rev,
           driver = drv, bus_id = bus, gpu_name = name, vram_bytes = vram\<rparr> }"

definition parse_shm :: "bytes \<Rightarrow> display_data option option" where
  "parse_shm b = do {
     magic \<leftarrow> rd_u32 0 b;
     if magic \<noteq> SHM_MAGIC then Some None else do {
     gpu_count \<leftarrow> rd_u32 8 b;
     connector_count \<leftarrow> rd_u32 12 b;
     choice \<leftarrow> rd_u8 20 b;
     session \<leftarrow> rd_u32 24 b;
     if gpu_count = 0 then Some None else do {
     g \<leftarrow> read_gpu b;
     cs \<leftarrow> those (map (read_connector b) [0..<min (unat connector_count) 8]);
     Some (Some \<lparr>gpu = g, connectors = cs, driver_choice = choice, dd_session_type = session\<rparr>) } } }"

section \<open>Derived values\<close>

definition primary_resolution :: "display_data \<Rightarrow> u32 \<times> u32" where
  "primary_resolution d = (case connectors d of [] \<Rightarrow> (1920, 1080) | c # _ \<Rightarrow> (current_width c, current_height c))"

definition display_driver :: "display_data \<Rightarrow> ustr \<times> ustr" where
  "display_driver d = (if driver_choice d = 2 then (lit ''wayland'', lit ''winewayland.drv'')
     else (lit ''x11'', lit ''winex11.drv''))"

definition gpu_guid :: "display_data \<Rightarrow> ustr" where
  "gpu_guid d = pad_left 4 48 (to_hex (unat (pci_vendor (gpu d)))) @ pad_left 4 48 (to_hex (unat (pci_device (gpu d)))) @
     lit ''-0000-0000-0000-000000000000''"

definition edid_manufacturer :: "bytes \<Rightarrow> ustr" where
  "edid_manufacturer edid = (if length edid < 10 then lit ''UNK''
     else let raw = push_bit 8 (ucast (edid ! 8) :: u16) OR ucast (edid ! 9);
              c1 = (ucast (drop_bit 10 raw AND 0x1F) :: u8) + 65 - 1;
              c2 = (ucast (drop_bit 5 raw AND 0x1F) :: u8) + 65 - 1;
              c3 = (ucast (raw AND 0x1F) :: u8) + 65 - 1
          in [uint c1, uint c2, uint c3])"

definition edid_product :: "bytes \<Rightarrow> u16" where
  "edid_product edid = (if length edid < 12 then 0 else ucast (edid ! 10) OR push_bit 8 (ucast (edid ! 11)))"

section \<open>The reader stays inside the segment\<close>

lemma read_cstr_total: "off + n \<le> length b \<Longrightarrow> \<exists>s. read_cstr off n b = Some s"
  by (simp add: read_cstr_def slice_def)

lemma read_mode_total:
  "i < 8 \<Longrightarrow> j < 64 \<Longrightarrow> length b = SHM_SIZE \<Longrightarrow>
     \<exists>m. read_mode b (HEADER_SIZE + GPU_ENTRY_SIZE + i * CONNECTOR_ENTRY_SIZE) j = Some m"
proof -
  let ?o = "HEADER_SIZE + GPU_ENTRY_SIZE + i * CONNECTOR_ENTRY_SIZE + CONNECTOR_HEADER_SIZE + j * MODE_ENTRY_SIZE"
  assume "i < 8" "j < 64" "length b = SHM_SIZE"
  then have "?o + 12 \<le> length b" by (simp add: display_consts)
  then show ?thesis using c32.rd_total[of ?o b] c32.rd_total[of "?o + 4" b] c32.rd_total[of "?o + 8" b]
    by (auto simp: read_mode_def Let_def)
qed

lemma read_connector_total:
  assumes "i < 8" and "length b = SHM_SIZE"
  shows "\<exists>c. read_connector b i = Some c"
proof -
  let ?base = "HEADER_SIZE + GPU_ENTRY_SIZE + i * CONNECTOR_ENTRY_SIZE"
  have len: "?base + 192 \<le> length b" using assms by (simp add: display_consts)
  obtain ty mw mh mc idx el where rd: "rd_u32 (?base + 4) b = Some ty" "rd_u32 (?base + 12) b = Some mw"
    "rd_u32 (?base + 16) b = Some mh" "rd_u32 (?base + 20) b = Some mc" "rd_u32 (?base + 24) b = Some idx"
    "rd_u32 (?base + 28) b = Some el"
    using len c32.rd_total[of "?base + 4" b] c32.rd_total[of "?base + 12" b] c32.rd_total[of "?base + 16" b]
      c32.rd_total[of "?base + 20" b] c32.rd_total[of "?base + 24" b] c32.rd_total[of "?base + 28" b] by auto
  obtain name where name: "read_cstr (?base + 32) 31 b = Some name" using len read_cstr_total[of "?base + 32" 31 b] by auto
  obtain edid where edid: "slice (?base + 64) (?base + 64 + min (unat el) 128) b = Some edid"
    using len slice_Some_iff[of "?base + 64" "?base + 64 + min (unat el) 128" b] by auto
  have "\<exists>m. read_mode b ?base j = Some m" if "j \<in> set [0..<min (unat mc) MAX_MODES_PER_CONNECTOR]" for j
    using that assms by (intro read_mode_total) (simp_all add: display_consts)
  from those_total[of "[0..<min (unat mc) MAX_MODES_PER_CONNECTOR]" "read_mode b ?base", OF this] obtain modes where
    "those (map (read_mode b ?base) [0..<min (unat mc) MAX_MODES_PER_CONNECTOR]) = Some modes" by auto
  with rd name edid show ?thesis by (simp add: read_connector_def Let_def split: prod.splits)
qed

lemma read_gpu_total: "length b = SHM_SIZE \<Longrightarrow> \<exists>g. read_gpu b = Some g"
proof -
  assume b: "length b = SHM_SIZE"
  have u32: "\<exists>x. rd_u32 (HEADER_SIZE + k) b = Some x" if "k \<le> 16" for k
    using b that by (intro c32.rd_total) (simp add: display_consts)
  have str: "\<exists>s. read_cstr (HEADER_SIZE + k) 63 b = Some s" if "k \<le> 148" for k
    using b that by (intro read_cstr_total) (simp add: display_consts)
  have u64: "\<exists>x. rd_u64 (HEADER_SIZE + 212) b = Some x"
    using b by (intro c64.rd_total) (simp add: display_consts)
  from u32[of 0] u32[of 4] u32[of 8] u32[of 12] u32[of 16] str[of 20] str[of 84] str[of 148] u64
  show ?thesis unfolding read_gpu_def by auto
qed

text \<open>
  C29. Whatever bytes the display segment holds, parsing it reads only inside its mapping: it ends with a
  description or with none, never with an access out of bounds.
\<close>

theorem parse_shm_in_bounds:
  "length b = SHM_SIZE \<Longrightarrow> parse_shm b \<noteq> None"
proof -
  assume b: "length b = SHM_SIZE"
  obtain m gc cc se where "rd_u32 0 b = Some m" "rd_u32 8 b = Some gc" "rd_u32 12 b = Some cc" "rd_u32 24 b = Some se"
    using b c32.rd_total[of 0 b] c32.rd_total[of 8 b] c32.rd_total[of 12 b] c32.rd_total[of 24 b]
    by (auto simp: SHM_SIZE_def)
  moreover obtain ch where "rd_u8 20 b = Some ch" using b by (simp add: rd_u8_def SHM_SIZE_def)
  moreover obtain g where "read_gpu b = Some g" using read_gpu_total[OF b] by blast
  moreover have "\<exists>c. read_connector b i = Some c" if "i \<in> set [0..<min (unat cc) 8]" for i
    using that b by (intro read_connector_total) auto
  from those_total[of "[0..<min (unat cc) 8]" "read_connector b", OF this] obtain cs where
    "those (map (read_connector b) [0..<min (unat cc) 8]) = Some cs" by auto
  ultimately show ?thesis by (simp add: parse_shm_def)
qed

theorem parse_shm_in_bounds_witness: "parse_shm (replicate SHM_SIZE 255) \<noteq> None"
  by (rule parse_shm_in_bounds) simp

section \<open>What the reader sees of what the writer wrote\<close>

abbreviation conn_base :: "nat \<Rightarrow> nat" where
  "conn_base i \<equiv> HEADER_SIZE + GPU_ENTRY_SIZE + i * CONNECTOR_ENTRY_SIZE"

text \<open>A string field: cut to the field's size, read up to its first zero byte.\<close>

definition seen_str :: "nat \<Rightarrow> ustr \<Rightarrow> ustr" where
  "seen_str n s = from_utf8_lossy (takeWhile (\<lambda>x. x \<noteq> 0) (take n (as_bytes s)))"

definition seen_gpu :: "gpu_info \<Rightarrow> gpu_data" where
  "seen_gpu g = \<lparr>pci_vendor = gi_pci_vendor g, pci_device = gi_pci_device g, pci_subsys_vendor = gi_pci_subsys_vendor g,
     pci_subsys_device = gi_pci_subsys_device g, pci_revision = gi_pci_revision g, driver = seen_str 63 (gi_driver g),
     bus_id = seen_str 63 (gi_pci_bus_id g), gpu_name = seen_str 63 (gi_gpu_name g), vram_bytes = gi_vram_bytes g\<rparr>"

definition seen_mode :: "mode_info \<Rightarrow> mode_data" where
  "seen_mode m = \<lparr>md_width = mi_width m, md_height = mi_height m, md_refresh = mi_refresh m\<rparr>"

definition seen_connector :: "bytes \<Rightarrow> connector_info \<Rightarrow> connector_data" where
  "seen_connector edid c =
     (let modes = map seen_mode (take 64 (ci_modes c)); idx = unat (current_mode_index c); (w, h, r) = pick_current idx modes
      in \<lparr>cd_name = seen_str 31 (ci_name c), cd_connector_type = ci_connector_type c, cd_mm_width = ci_mm_width c,
          cd_mm_height = ci_mm_height c, cd_edid = edid, cd_modes = modes, cd_current_mode_index = idx,
          current_width = w, current_height = h, current_refresh = r\<rparr>)"

lemma read_cstr_written:
  assumes "slice off (off + length bs) b = Some bs" and "slice (off + length bs) (off + n) b = Some (replicate k 0)"
  shows "read_cstr off n b = Some (from_utf8_lossy (takeWhile (\<lambda>x. x \<noteq> 0) bs))"
proof -
  have "slice off (off + n) b = Some (bs @ replicate k 0)"
    by (rule slice_append[OF _ assms]) simp
  moreover have "takeWhile (\<lambda>x. x \<noteq> 0) (bs @ replicate k (0 :: u8)) = takeWhile (\<lambda>x. x \<noteq> 0) bs"
    by (induction bs) (auto simp: takeWhile_eq_Nil_iff)
  ultimately show ?thesis by (simp add: read_cstr_def)
qed

lemma zeros_sub:
  "slice lo hi b = Some (replicate n 0) \<Longrightarrow> lo \<le> x \<Longrightarrow> x \<le> y \<Longrightarrow> y \<le> hi \<Longrightarrow>
     slice x y b = Some (replicate (min (y - x) (n - (x - lo))) 0)"
  by (simp add: slice_sub)

lemma write_gpu_ok:
  assumes "length b = SHM_SIZE" and z: "slice HEADER_SIZE (HEADER_SIZE + GPU_ENTRY_SIZE) b = Some (replicate GPU_ENTRY_SIZE 0)"
  shows "\<exists>b'. write_gpu g b = Some b' \<and> same_outside HEADER_SIZE (HEADER_SIZE + GPU_ENTRY_SIZE) b b' \<and>
    read_gpu b' = Some (seen_gpu g)"
proof -
  let ?s = "\<lambda>s. take 63 (as_bytes s)"
  let ?fs = "[(HEADER_SIZE, u32_to_le (gi_pci_vendor g)), (HEADER_SIZE + 4, u32_to_le (gi_pci_device g)),
    (HEADER_SIZE + 8, u32_to_le (gi_pci_subsys_vendor g)), (HEADER_SIZE + 12, u32_to_le (gi_pci_subsys_device g)),
    (HEADER_SIZE + 16, u32_to_le (gi_pci_revision g)), (HEADER_SIZE + 20, ?s (gi_driver g)),
    (HEADER_SIZE + 84, ?s (gi_pci_bus_id g)), (HEADER_SIZE + 148, ?s (gi_gpu_name g)),
    (HEADER_SIZE + 212, u64_to_le (gi_vram_bytes g))]"
  have w: "write_gpu g b = puts ?fs b" by (simp add: write_gpu_def puts_fun)
  have "\<exists>b'. puts ?fs b = Some b' \<and> same_outside HEADER_SIZE (HEADER_SIZE + GPU_ENTRY_SIZE) b b' \<and>
    (\<forall>f\<in>set ?fs. slice (fst f) (fst f + length (snd f)) b' = Some (snd f)) \<and>
    (\<forall>x y. (\<forall>f\<in>set ?fs. y \<le> fst f \<or> fst f + length (snd f) \<le> x) \<longrightarrow> slice x y b' = slice x y b)"
    using assms(1) by (intro puts_ok) (auto simp: apart_def display_consts min_def)
  then obtain b' where b': "puts ?fs b = Some b'" "same_outside HEADER_SIZE (HEADER_SIZE + GPU_ENTRY_SIZE) b b'"
    and rd: "\<forall>f\<in>set ?fs. slice (fst f) (fst f + length (snd f)) b' = Some (snd f)"
    and fr: "\<forall>x y. (\<forall>f\<in>set ?fs. y \<le> fst f \<or> fst f + length (snd f) \<le> x) \<longrightarrow> slice x y b' = slice x y b" by blast
  have str: "read_cstr (HEADER_SIZE + k) 63 b' = Some (seen_str 63 s)"
    if m: "(HEADER_SIZE + k, ?s s) \<in> set ?fs" and k: "k \<in> {20, 84, 148}" for k s
  proof -
    have "slice (HEADER_SIZE + k + length (?s s)) (HEADER_SIZE + k + 63) b' =
        slice (HEADER_SIZE + k + length (?s s)) (HEADER_SIZE + k + 63) b"
      using m k fr by (auto simp: min_def)
    also have "\<dots> = Some (replicate (63 - length (?s s)) 0)"
      using k zeros_sub[OF z, of "HEADER_SIZE + k + length (?s s)" "HEADER_SIZE + k + 63"]
      by (auto simp: GPU_ENTRY_SIZE_def min_def)
    finally have zero: "slice (HEADER_SIZE + k + length (?s s)) (HEADER_SIZE + k + 63) b' = Some (replicate (63 - length (?s s)) 0)" .
    have "slice (HEADER_SIZE + k) (HEADER_SIZE + k + length (?s s)) b' = Some (?s s)" using bspec[OF rd m] by simp
    from read_cstr_written[OF this zero] show ?thesis unfolding seen_str_def .
  qed
  have "read_gpu b' = Some (seen_gpu g)"
    using rd str[of 20 "gi_driver g"] str[of 84 "gi_pci_bus_id g"] str[of 148 "gi_gpu_name g"]
    by (simp add: read_gpu_def seen_gpu_def rd_u32_slice rd_u64_slice)
  with b' w show ?thesis by auto
qed

lemma write_mode_ok:
  assumes "i < 8" "j < 64" "length b = SHM_SIZE"
  shows "\<exists>b'. write_mode (conn_base i) ms j b = Some b' \<and>
    same_outside (conn_base i + CONNECTOR_HEADER_SIZE + j * MODE_ENTRY_SIZE)
      (conn_base i + CONNECTOR_HEADER_SIZE + j * MODE_ENTRY_SIZE + MODE_ENTRY_SIZE) b b' \<and>
    read_mode b' (conn_base i) j = Some (seen_mode (ms ! j))"
proof -
  let ?o = "conn_base i + CONNECTOR_HEADER_SIZE + j * MODE_ENTRY_SIZE" and ?m = "ms ! j"
  let ?fs = "[(?o, u32_to_le (mi_width ?m)), (?o + 4, u32_to_le (mi_height ?m)), (?o + 8, u32_to_le (mi_refresh ?m)),
    (?o + 12, u32_to_le (mi_flags ?m))]"
  have len: "?o + MODE_ENTRY_SIZE \<le> length b" using assms by (simp add: display_consts)
  have "\<exists>b'. puts ?fs b = Some b' \<and> same_outside ?o (?o + MODE_ENTRY_SIZE) b b' \<and>
    (\<forall>f\<in>set ?fs. slice (fst f) (fst f + length (snd f)) b' = Some (snd f)) \<and>
    (\<forall>x y. (\<forall>f\<in>set ?fs. y \<le> fst f \<or> fst f + length (snd f) \<le> x) \<longrightarrow> slice x y b' = slice x y b)"
    using len by (intro puts_ok) (auto simp: apart_def MODE_ENTRY_SIZE_def)
  then obtain b' where b': "puts ?fs b = Some b'" "same_outside ?o (?o + MODE_ENTRY_SIZE) b b'"
    and rd: "\<forall>f\<in>set ?fs. slice (fst f) (fst f + length (snd f)) b' = Some (snd f)" by blast
  have "read_mode b' (conn_base i) j = Some (seen_mode ?m)"
    using rd by (simp add: read_mode_def seen_mode_def rd_u32_slice)
  moreover have "write_mode (conn_base i) ms j b = puts ?fs b" by (simp add: write_mode_def puts_fun Let_def)
  ultimately show ?thesis using b' by auto
qed

lemma read_mode_stable:
  "same_outside lo hi b b' \<Longrightarrow>
   conn_base i + CONNECTOR_HEADER_SIZE + j * MODE_ENTRY_SIZE + MODE_ENTRY_SIZE \<le> lo \<or>
   hi \<le> conn_base i + CONNECTOR_HEADER_SIZE + j * MODE_ENTRY_SIZE \<Longrightarrow>
   read_mode b' (conn_base i) j = read_mode b (conn_base i) j"
  by (auto simp: read_mode_def Let_def MODE_ENTRY_SIZE_def same_outside_rd(2))

interpretation mt: entry_table "conn_base i + CONNECTOR_HEADER_SIZE" MODE_ENTRY_SIZE
  "if i < 8 then min (length ms) MAX_MODES_PER_CONNECTOR else 0" SHM_SIZE "write_mode (conn_base i) ms"
  "\<lambda>j b. read_mode b (conn_base i) j = Some (seen_mode (ms ! j))" for i ms
proof unfold_locales
  fix j and b :: bytes assume "j < (if i < 8 then min (length ms) MAX_MODES_PER_CONNECTOR else 0)" "length b = SHM_SIZE"
  then show "\<exists>b'. write_mode (conn_base i) ms j b = Some b' \<and>
      same_outside (conn_base i + CONNECTOR_HEADER_SIZE + j * MODE_ENTRY_SIZE)
        (conn_base i + CONNECTOR_HEADER_SIZE + j * MODE_ENTRY_SIZE + MODE_ENTRY_SIZE) b b' \<and>
      read_mode b' (conn_base i) j = Some (seen_mode (ms ! j))"
    by (intro write_mode_ok) (auto simp: MAX_MODES_PER_CONNECTOR_def split: if_splits)
qed (simp add: read_mode_stable)

text \<open>
  What holds of entry \<open>i\<close> once connector \<open>c\<close> is in it.  The identification block occupies bytes 64 to 191 of the entry
  and the modes start at byte 128, so only its first 64 bytes are safe when there are modes.
\<close>

definition conn_written :: "connector_info \<Rightarrow> nat \<Rightarrow> bytes \<Rightarrow> bool" where
  "conn_written c i b \<longleftrightarrow>
     rd_u32 (conn_base i + 4) b = Some (ci_connector_type c) \<and> rd_u32 (conn_base i + 12) b = Some (ci_mm_width c) \<and>
     rd_u32 (conn_base i + 16) b = Some (ci_mm_height c) \<and>
     rd_u32 (conn_base i + 20) b = Some (of_nat (min (length (ci_modes c)) MAX_MODES_PER_CONNECTOR)) \<and>
     rd_u32 (conn_base i + 24) b = Some (current_mode_index c) \<and>
     rd_u32 (conn_base i + 28) b = Some (of_nat (min (length (ci_edid c)) 128)) \<and>
     read_cstr (conn_base i + 32) 31 b = Some (seen_str 31 (ci_name c)) \<and>
     slice (conn_base i + 64) (conn_base i + 64 + min (length (ci_edid c)) 64) b = Some (take 64 (ci_edid c)) \<and>
     (ci_modes c = [] \<longrightarrow>
        slice (conn_base i + 64) (conn_base i + 64 + min (length (ci_edid c)) 128) b = Some (take 128 (ci_edid c))) \<and>
     (\<forall>j < min (length (ci_modes c)) MAX_MODES_PER_CONNECTOR.
        read_mode b (conn_base i) j = Some (seen_mode (ci_modes c ! j)))"

definition conn_fresh :: "nat \<Rightarrow> bytes \<Rightarrow> bool" where
  "conn_fresh i b \<longleftrightarrow> slice (conn_base i + 32) (conn_base i + 63) b = Some (replicate 31 0)"

lemma read_cstr_stable:
  "same_outside lo hi b b' \<Longrightarrow> off + n \<le> lo \<or> hi \<le> off \<Longrightarrow> read_cstr off n b' = read_cstr off n b"
  by (simp add: read_cstr_def same_outside_slice)

lemma conn_entry_size: "CONNECTOR_ENTRY_SIZE = 1152"
  by (simp add: display_consts)

lemma conn_written_stable:
  assumes "conn_written c i b" and so: "same_outside lo hi b b'"
    and d: "conn_base i + CONNECTOR_ENTRY_SIZE \<le> lo \<or> hi \<le> conn_base i"
  shows "conn_written c i b'"
proof -
  let ?o = "conn_base i"
  have d': "?o + 1152 \<le> lo \<or> hi \<le> ?o" using d conn_entry_size by simp
  have rd: "rd_u32 (?o + k) b' = rd_u32 (?o + k) b" if "k + 4 \<le> 1152" for k
    using d' that by (intro same_outside_rd(2)[OF so]) auto
  have sl: "slice (?o + 64) (?o + 64 + k) b' = slice (?o + 64) (?o + 64 + k) b" if "k \<le> 128" for k
    using d' that by (intro same_outside_slice[OF so]) auto
  have cs: "read_cstr (?o + 32) 31 b' = read_cstr (?o + 32) 31 b"
    using d' by (intro read_cstr_stable[OF so]) auto
  have md: "read_mode b' ?o j = read_mode b ?o j" if "j < 64" for j
    using d' that by (intro read_mode_stable[OF so]) (auto simp: CONNECTOR_HEADER_SIZE_def MODE_ENTRY_SIZE_def)
  show ?thesis using assms(1) unfolding conn_written_def
    by (simp add: rd sl cs md MAX_MODES_PER_CONNECTOR_def)
qed

definition conn_header_fields :: "nat \<Rightarrow> connector_info \<Rightarrow> (nat \<times> bytes) list" where
  "conn_header_fields base c = [(base, u32_to_le (ci_connector_id c)), (base + 4, u32_to_le (ci_connector_type c)),
     (base + 8, u32_to_le (ci_connector_type_id c)), (base + 12, u32_to_le (ci_mm_width c)),
     (base + 16, u32_to_le (ci_mm_height c)),
     (base + 20, u32_to_le (of_nat (min (length (ci_modes c)) MAX_MODES_PER_CONNECTOR))),
     (base + 24, u32_to_le (current_mode_index c)), (base + 28, u32_to_le (of_nat (min (length (ci_edid c)) 128))),
     (base + 32, take 31 (as_bytes (ci_name c))), (base + 64, take 128 (ci_edid c))]"

lemma conn_header_puts: "write_connector_header base c b = puts (conn_header_fields base c) b"
  by (simp add: write_connector_header_def conn_header_fields_def puts_fun)

lemma write_connector_header_ok:
  assumes len: "o' + 192 \<le> length b" and z: "slice (o' + 32) (o' + 63) b = Some (replicate 31 0)"
  shows "\<exists>b'. write_connector_header o' c b = Some b' \<and> same_outside o' (o' + 192) b b' \<and>
    (\<forall>f\<in>set (conn_header_fields o' c). slice (fst f) (fst f + length (snd f)) b' = Some (snd f)) \<and>
    read_cstr (o' + 32) 31 b' = Some (seen_str 31 (ci_name c))"
proof -
  let ?fs = "conn_header_fields o' c" and ?n = "take 31 (as_bytes (ci_name c))"
  have "\<exists>b'. puts ?fs b = Some b' \<and> same_outside o' (o' + 192) b b' \<and>
    (\<forall>f\<in>set ?fs. slice (fst f) (fst f + length (snd f)) b' = Some (snd f)) \<and>
    (\<forall>x y. (\<forall>f\<in>set ?fs. y \<le> fst f \<or> fst f + length (snd f) \<le> x) \<longrightarrow> slice x y b' = slice x y b)"
    using len by (intro puts_ok) (auto simp: apart_def conn_header_fields_def min_def)
  then obtain b' where b': "puts ?fs b = Some b'" "same_outside o' (o' + 192) b b'"
    and rd: "\<forall>f\<in>set ?fs. slice (fst f) (fst f + length (snd f)) b' = Some (snd f)"
    and fr: "\<forall>x y. (\<forall>f\<in>set ?fs. y \<le> fst f \<or> fst f + length (snd f) \<le> x) \<longrightarrow> slice x y b' = slice x y b" by blast
  have "slice (o' + 32 + length ?n) (o' + 32 + 31) b' = slice (o' + 32 + length ?n) (o' + 32 + 31) b"
    using fr by (auto simp: conn_header_fields_def min_def)
  also have "\<dots> = Some (replicate (31 - length ?n) 0)"
  proof -
    have k: "min (o' + 63 - (o' + 32 + k)) (31 - (o' + 32 + k - (o' + 32))) = 31 - k" for k by (simp add: min_def)
    have "o' + 32 + length ?n \<le> o' + 63" by simp
    from zeros_sub[OF z _ this order_refl] have "slice (o' + 32 + length ?n) (o' + 63) b = Some (replicate (31 - length ?n) 0)"
      unfolding k by simp
    moreover have "o' + 63 = o' + 32 + 31" by simp
    ultimately show ?thesis by (simp only:)
  qed
  finally have zero: "slice (o' + 32 + length ?n) (o' + 32 + 31) b' = Some (replicate (31 - length ?n) 0)" .
  have "(o' + 32, ?n) \<in> set ?fs" by (simp add: conn_header_fields_def)
  from bspec[OF rd this] have "slice (o' + 32) (o' + 32 + length ?n) b' = Some ?n" by simp
  from read_cstr_written[OF this zero] have "read_cstr (o' + 32) 31 b' = Some (seen_str 31 (ci_name c))"
    unfolding seen_str_def .
  with b' rd show ?thesis by (auto simp: conn_header_puts)
qed

lemma write_connector_ok:
  assumes i: "i < 8" and len: "length b = SHM_SIZE" and z: "conn_fresh i b"
  shows "\<exists>b'. write_connector cs i b = Some b' \<and> same_outside (conn_base i) (conn_base i + CONNECTOR_ENTRY_SIZE) b b' \<and>
    conn_written (cs ! i) i b'"
proof -
  let ?o = "conn_base i" and ?c = "cs ! i"
  let ?n = "min (length (ci_modes ?c)) MAX_MODES_PER_CONNECTOR"
  have ol: "?o + 192 \<le> length b" using i len by (simp add: display_consts)
  from write_connector_header_ok[OF ol z[unfolded conn_fresh_def], of ?c] obtain b1 where
    b1: "write_connector_header ?o ?c b = Some b1" "same_outside ?o (?o + 192) b b1"
    and rd: "\<forall>f\<in>set (conn_header_fields ?o ?c). slice (fst f) (fst f + length (snd f)) b1 = Some (snd f)"
    and nm: "read_cstr (?o + 32) 31 b1 = Some (seen_str 31 (ci_name ?c))" by blast
  have l1: "length b1 = SHM_SIZE" using len same_outside_length[OF b1(2)] by simp
  from mt.write_all[OF l1, of i "ci_modes ?c"] i obtain b2 where
    b2: "for_range 0 ?n (write_mode ?o (ci_modes ?c)) b1 = Some b2"
      "same_outside (?o + CONNECTOR_HEADER_SIZE) (?o + CONNECTOR_HEADER_SIZE + ?n * MODE_ENTRY_SIZE) b1 b2"
    and md: "\<forall>j<?n. read_mode b2 ?o j = Some (seen_mode (ci_modes ?c ! j))" by auto
  have so: "same_outside ?o (?o + CONNECTOR_ENTRY_SIZE) b b2"
    using same_outside_trans[OF same_outside_mono[OF b1(2)] same_outside_mono[OF b2(2)]]
    by (auto simp: display_consts)
  have early: "slice x y b2 = slice x y b1" if "y \<le> ?o + 128" for x y
    using that by (intro same_outside_slice[OF b2(2)]) (simp add: CONNECTOR_HEADER_SIZE_def)
  have rd4: "rd_u32 (?o + k) b2 = Some w" if "(?o + k, u32_to_le w) \<in> set (conn_header_fields ?o ?c)" "k \<le> 124" for k w
    using bspec[OF rd that(1)] that(2) early[of "?o + k + 4" "?o + k"] by (intro rd_u32_slice) simp
  have "(?o + 64, take 128 (ci_edid ?c)) \<in> set (conn_header_fields ?o ?c)" by (simp add: conn_header_fields_def)
  from bspec[OF rd this] have e: "slice (?o + 64) (?o + 64 + min (length (ci_edid ?c)) 128) b1 = Some (take 128 (ci_edid ?c))"
    by simp
  then have e1: "slice (?o + 64) (?o + 64 + min (length (ci_edid ?c)) 64) b2 = Some (take 64 (ci_edid ?c))"
    using early[of "?o + 64 + min (length (ci_edid ?c)) 64" "?o + 64"]
      slice_sub[OF e, of "?o + 64" "?o + 64 + min (length (ci_edid ?c)) 64"] by (simp add: min_def split: if_splits)
  have e2: "slice (?o + 64) (?o + 64 + min (length (ci_edid ?c)) 128) b2 = Some (take 128 (ci_edid ?c))" if "ci_modes ?c = []"
    using that b2(1) e by simp
  have "read_cstr (?o + 32) 31 b2 = Some (seen_str 31 (ci_name ?c))"
    using nm early[of "?o + 32 + 31" "?o + 32"] by (simp add: read_cstr_def)
  then have "conn_written ?c i b2" unfolding conn_written_def
    using e1 e2 md by (auto intro!: rd4 simp: conn_header_fields_def)
  moreover have "write_connector cs i b = Some b2" using b1(1) b2(1) by (simp add: write_connector_def Let_def)
  ultimately show ?thesis using so by blast
qed

interpretation ct: fresh_table "HEADER_SIZE + GPU_ENTRY_SIZE" CONNECTOR_ENTRY_SIZE "min (length cs) MAX_CONNECTORS" SHM_SIZE
  "write_connector cs" conn_fresh "\<lambda>i. conn_written (cs ! i) i" for cs
proof unfold_locales
  fix i and b :: bytes assume "i < min (length cs) MAX_CONNECTORS" "length b = SHM_SIZE" "conn_fresh i b"
  then show "\<exists>b'. write_connector cs i b = Some b' \<and>
      same_outside (conn_base i) (conn_base i + CONNECTOR_ENTRY_SIZE) b b' \<and> conn_written (cs ! i) i b'"
    by (intro write_connector_ok) (auto simp: MAX_CONNECTORS_def)
next
  fix i lo hi and b b' :: bytes
  assume "conn_written (cs ! i) i b" "same_outside lo hi b b'" "conn_base i + CONNECTOR_ENTRY_SIZE \<le> lo \<or> hi \<le> conn_base i"
  then show "conn_written (cs ! i) i b'" by (rule conn_written_stable)
next
  fix i lo hi and b b' :: bytes
  assume *: "conn_fresh i b" "same_outside lo hi b b'" "conn_base i + CONNECTOR_ENTRY_SIZE \<le> lo \<or> hi \<le> conn_base i"
  then have "conn_base i + 63 \<le> lo \<or> hi \<le> conn_base i + 32" by (auto simp: conn_entry_size)
  then show "conn_fresh i b'" using same_outside_slice[OF *(2)] *(1) by (simp add: conn_fresh_def)
qed

lemma slice_inner:
  assumes "slice a c b = Some zs" and "a \<le> x" "x \<le> y" "y \<le> c"
  shows "slice (x - a) (y - a) zs = slice x y b"
proof -
  have "y - a \<le> length zs" using slice_length[OF assms(1)] assms(4) by simp
  then have "slice (x - a) (y - a) zs = Some (take (y - x) (drop (x - a) zs))"
    using assms(2,3) by (simp add: slice_def)
  with slice_sub[OF assms] show ?thesis by simp
qed

text \<open>How the identification data read back relates to the data written.\<close>

definition edid_view :: "connector_info \<Rightarrow> bytes \<Rightarrow> bool" where
  "edid_view c edid \<longleftrightarrow>
     (ci_modes c = [] \<or> length (ci_edid c) \<le> 64 \<longrightarrow> edid = take 128 (ci_edid c)) \<and>
     (68 \<le> length (ci_edid c) \<and> ci_modes c \<noteq> [] \<longrightarrow> slice 64 68 edid = Some (u32_to_le (mi_width (hd (ci_modes c)))))"

lemma read_connector_written:
  assumes i: "i < 8" and len: "length b = SHM_SIZE" and w: "conn_written c i b"
  shows "\<exists>edid. read_connector b i = Some (seen_connector edid c) \<and> edid_view c edid"
proof -
  let ?o = "conn_base i" and ?n = "min (length (ci_modes c)) MAX_MODES_PER_CONNECTOR" and ?k = "min (length (ci_edid c)) 128"
  have un: "unat (of_nat ?n :: u32) = ?n" "unat (of_nat ?k :: u32) = ?k"
    by (intro unat_of_nat_u32; simp add: MAX_MODES_PER_CONNECTOR_def)+
  have "?o + 64 + ?k \<le> length b" using i len by (simp add: display_consts)
  then obtain edid where e: "slice (?o + 64) (?o + 64 + ?k) b = Some edid"
    using slice_Some_iff[of "?o + 64" "?o + 64 + ?k" b] by auto
  have ms: "map seen_mode (take 64 (ci_modes c)) = map (\<lambda>j. seen_mode (ci_modes c ! j)) [0..<?n]"
    by (rule nth_equalityI) (auto simp: MAX_MODES_PER_CONNECTOR_def)
  have "those (map (read_mode b ?o) [0..<?n]) = Some (map (\<lambda>j. seen_mode (ci_modes c ! j)) [0..<?n])"
    using w by (intro those_map_Some) (simp add: conn_written_def)
  then have "read_connector b i = Some (seen_connector edid c)"
    using w e un ms by (simp add: read_connector_def seen_connector_def conn_written_def Let_def MAX_MODES_PER_CONNECTOR_def split: prod.splits)
  moreover have "edid = take 128 (ci_edid c)" if "ci_modes c = [] \<or> length (ci_edid c) \<le> 64"
    using that w e by (auto simp: conn_written_def min_def split: if_splits)
  moreover have "slice 64 68 edid = Some (u32_to_le (mi_width (hd (ci_modes c))))"
    if l: "68 \<le> length (ci_edid c)" "ci_modes c \<noteq> []"
  proof -
    have "read_mode b ?o 0 = Some (seen_mode (ci_modes c ! 0))"
      using w l by (simp add: conn_written_def MAX_MODES_PER_CONNECTOR_def)
    then have "rd_u32 (?o + 128) b = Some (mi_width (hd (ci_modes c)))"
      using l by (auto simp: read_mode_def seen_mode_def Let_def CONNECTOR_HEADER_SIZE_def hd_conv_nth bind_eq_Some_conv)
    then obtain z where z: "slice (?o + 128) (?o + 128 + 4) b = Some z" "u32_from_le z = mi_width (hd (ci_modes c))"
      by (auto simp only: rd_u32_def map_option_eq_Some)
    have "length z = 4" using slice_length[OF z(1)] by simp
    from u32_le_inverse[OF this] z have "slice (?o + 128) (?o + 128 + 4) b = Some (u32_to_le (mi_width (hd (ci_modes c))))"
      by simp
    moreover have "?o + 128 + 4 = ?o + 132" by simp
    ultimately have "slice (?o + 128) (?o + 132) b = Some (u32_to_le (mi_width (hd (ci_modes c))))" by (simp only:)
    with slice_inner[OF e, of "?o + 128" "?o + 132"] l show ?thesis by simp
  qed
  ultimately show ?thesis unfolding edid_view_def by blast
qed

lemma write_header_ok:
  assumes "length b = SHM_SIZE"
  shows "\<exists>b'. write_header e hw b = Some b' \<and> same_outside 0 HEADER_SIZE b b' \<and>
    rd_u32 0 b' = Some SHM_MAGIC \<and> rd_u32 8 b' = Some (of_nat (min (length (gpus hw)) 1)) \<and>
    rd_u32 12 b' = Some (of_nat (length (connected_outputs hw))) \<and>
    rd_u8 20 b' = Some (choose_driver e (case gpus hw of [] \<Rightarrow> 0 | g # _ \<Rightarrow> gi_pci_vendor g)) \<and>
    rd_u32 24 b' = Some (session_of e)"
proof -
  let ?n = "min (length (filter ci_connected (hw_connectors hw))) MAX_CONNECTORS"
  let ?d = "choose_driver e (case gpus hw of [] \<Rightarrow> 0 | g # _ \<Rightarrow> gi_pci_vendor g)"
  let ?fs = "[(0, u32_to_le SHM_MAGIC), (4, u32_to_le SHM_VERSION), (8, u32_to_le (of_nat (min (length (gpus hw)) 1))),
    (12, u32_to_le (of_nat ?n)), (24, u32_to_le (session_of e)), (20, [?d]), (16, u32_to_le 1)]"
  have "\<exists>b'. puts ?fs b = Some b' \<and> same_outside 0 HEADER_SIZE b b' \<and>
    (\<forall>f\<in>set ?fs. slice (fst f) (fst f + length (snd f)) b' = Some (snd f)) \<and>
    (\<forall>x y. (\<forall>f\<in>set ?fs. y \<le> fst f \<or> fst f + length (snd f) \<le> x) \<longrightarrow> slice x y b' = slice x y b)"
    using assms by (intro puts_ok) (auto simp: apart_def HEADER_SIZE_def SHM_SIZE_def)
  then obtain b' where b': "puts ?fs b = Some b'" "same_outside 0 HEADER_SIZE b b'"
    and rd: "\<forall>f\<in>set ?fs. slice (fst f) (fst f + length (snd f)) b' = Some (snd f)" by blast
  have len: "length b' = SHM_SIZE" using assms same_outside_length[OF b'(2)] by simp
  have "slice 20 21 b' = Some [?d]" using rd by simp
  then have "rd_u8 20 b' = Some ?d"
    using len by (auto simp: slice_def rd_u8_def SHM_SIZE_def take_Suc_conv_app_nth take_Suc hd_drop_conv_nth split: if_splits)
  moreover have "write_header e hw b = puts ?fs b" by (simp add: write_header_def puts_fun)
  moreover have "length (connected_outputs hw) = ?n" by (simp add: connected_outputs_def)
  ultimately show ?thesis using rd b' by (simp add: rd_u32_slice)
qed

lemma blank_zero: "a \<le> c \<Longrightarrow> c \<le> SHM_SIZE \<Longrightarrow> slice a c blank_shm = Some (replicate (c - a) 0)"
  by (auto simp: slice_def blank_shm_def)

lemma conn_fresh_after:
  assumes "same_outside 0 (HEADER_SIZE + GPU_ENTRY_SIZE) blank_shm b" and "i < 8"
  shows "conn_fresh i b"
proof -
  have "slice (conn_base i + 32) (conn_base i + 63) b = slice (conn_base i + 32) (conn_base i + 63) blank_shm"
    by (rule same_outside_slice[OF assms(1)]) simp
  also have "\<dots> = Some (replicate 31 0)"
    using assms(2) blank_zero[of "conn_base i + 32" "conn_base i + 63"] by (simp add: display_consts)
  finally show ?thesis by (simp add: conn_fresh_def)
qed

lemma read_gpu_stable:
  assumes "same_outside lo hi b b'" and "HEADER_SIZE + GPU_ENTRY_SIZE \<le> lo \<or> hi \<le> HEADER_SIZE"
  shows "read_gpu b' = read_gpu b"
proof -
  have "rd_u32 (HEADER_SIZE + k) b' = rd_u32 (HEADER_SIZE + k) b" if "k \<le> 16" for k
    using assms that by (intro same_outside_rd(2)[OF assms(1)]) (auto simp: GPU_ENTRY_SIZE_def)
  note u32 = this this[of 0, simplified]
  have str: "read_cstr (HEADER_SIZE + k) 63 b' = read_cstr (HEADER_SIZE + k) 63 b" if "k \<le> 148" for k
    using assms that by (intro read_cstr_stable[OF assms(1)]) (auto simp: GPU_ENTRY_SIZE_def)
  have "rd_u64 (HEADER_SIZE + 212) b' = rd_u64 (HEADER_SIZE + 212) b"
    using assms by (intro same_outside_rd(3)[OF assms(1)]) (auto simp: GPU_ENTRY_SIZE_def)
  with u32 str show ?thesis by (simp add: read_gpu_def)
qed

lemma hardware_stages:
  assumes g: "gpus hw = g # gs"
  obtains b b3 b4 where "write_hardware e hw blank_shm = Some b" "put 16 (u32_to_le 2) b4 = Some b" "length b4 = SHM_SIZE"
    "same_outside HEADER_SIZE SHM_SIZE b3 b4" "read_gpu b4 = Some (seen_gpu g)"
    "rd_u32 0 b3 = Some SHM_MAGIC" "rd_u32 8 b3 = Some 1" "rd_u32 12 b3 = Some (of_nat (length (connected_outputs hw)))"
    "rd_u8 20 b3 = Some (choose_driver e (gi_pci_vendor g))" "rd_u32 24 b3 = Some (session_of e)"
    "\<And>i. i < length (connected_outputs hw) \<Longrightarrow> conn_written (connected_outputs hw ! i) i b4"
proof -
  let ?cs = "connected_outputs hw"
  have l0: "length blank_shm = SHM_SIZE" by (simp add: blank_shm_def)
  from write_header_ok[OF l0, of e hw] g obtain b1 where b1: "write_header e hw blank_shm = Some b1"
    "same_outside 0 HEADER_SIZE blank_shm b1" and h: "rd_u32 0 b1 = Some SHM_MAGIC" "rd_u32 8 b1 = Some 1"
    "rd_u32 12 b1 = Some (of_nat (length ?cs))" "rd_u8 20 b1 = Some (choose_driver e (gi_pci_vendor g))"
    "rd_u32 24 b1 = Some (session_of e)" by auto
  have l1: "length b1 = SHM_SIZE" using l0 same_outside_length[OF b1(2)] by simp
  have "slice HEADER_SIZE (HEADER_SIZE + GPU_ENTRY_SIZE) b1 = Some (replicate GPU_ENTRY_SIZE 0)"
    using same_outside_slice[OF b1(2), of "HEADER_SIZE + GPU_ENTRY_SIZE" HEADER_SIZE]
      blank_zero[of HEADER_SIZE "HEADER_SIZE + GPU_ENTRY_SIZE"] by (simp add: display_consts)
  from write_gpu_ok[OF l1 this, of g] obtain b2 where b2: "write_gpu g b1 = Some b2"
    "same_outside HEADER_SIZE (HEADER_SIZE + GPU_ENTRY_SIZE) b1 b2" "read_gpu b2 = Some (seen_gpu g)" by blast
  have l2: "length b2 = SHM_SIZE" using l1 same_outside_length[OF b2(2)] by simp
  have n: "min (length ?cs) MAX_CONNECTORS = length ?cs" by (simp add: connected_outputs_def)
  have so2: "same_outside 0 (HEADER_SIZE + GPU_ENTRY_SIZE) blank_shm b2"
    using same_outside_trans[OF same_outside_mono[OF b1(2)] same_outside_mono[OF b2(2)]] by simp
  have fresh: "conn_fresh i b2" if "i < min (length ?cs) MAX_CONNECTORS" for i
    using that by (intro conn_fresh_after[OF so2]) (simp add: MAX_CONNECTORS_def)
  from ct.write_all_fresh[of b2 ?cs, OF l2 fresh] obtain b4 where b4: "for_range 0 (length ?cs) (write_connector ?cs) b2 = Some b4"
    "same_outside (HEADER_SIZE + GPU_ENTRY_SIZE) (HEADER_SIZE + GPU_ENTRY_SIZE + length ?cs * CONNECTOR_ENTRY_SIZE) b2 b4"
    "\<forall>i<length ?cs. conn_written (?cs ! i) i b4" unfolding n by blast
  have l4: "length b4 = SHM_SIZE" using l2 same_outside_length[OF b4(2)] by simp
  have "length ?cs \<le> 8" by (simp add: connected_outputs_def MAX_CONNECTORS_def)
  then have so4: "same_outside HEADER_SIZE SHM_SIZE b1 b4"
    using same_outside_trans[OF same_outside_mono[OF b2(2)] same_outside_mono[OF b4(2)]] by (simp add: display_consts)
  have rg: "read_gpu b4 = Some (seen_gpu g)" using read_gpu_stable[OF b4(2)] b2(3) by simp
  obtain b where b: "put 16 (u32_to_le 2) b4 = Some b" using l4 by (simp add: put_def SHM_SIZE_def)
  have "write_hardware e hw blank_shm = Some b" using b1(1) b2(1) b4(1) b g by (simp add: write_hardware_def Let_def)
  with b l4 so4 rg h b4(3) that show thesis by blast
qed

lemma hardware_view:
  assumes g: "gpus hw = g # gs"
  obtains b ds where "write_hardware e hw blank_shm = Some b"
    "parse_shm b = Some (Some \<lparr>gpu = seen_gpu g, connectors = ds,
       driver_choice = choose_driver e (gi_pci_vendor g), dd_session_type = session_of e\<rparr>)"
    "length ds = length (connected_outputs hw)"
    "\<And>i. i < length ds \<Longrightarrow> \<exists>edid. ds ! i = seen_connector edid (connected_outputs hw ! i) \<and>
       edid_view (connected_outputs hw ! i) edid"
proof -
  let ?cs = "connected_outputs hw"
  obtain b b3 b4 where st: "write_hardware e hw blank_shm = Some b" "put 16 (u32_to_le 2) b4 = Some b" "length b4 = SHM_SIZE"
    "same_outside HEADER_SIZE SHM_SIZE b3 b4" "read_gpu b4 = Some (seen_gpu g)"
    and h: "rd_u32 0 b3 = Some SHM_MAGIC" "rd_u32 8 b3 = Some 1" "rd_u32 12 b3 = Some (of_nat (length ?cs))"
    "rd_u8 20 b3 = Some (choose_driver e (gi_pci_vendor g))" "rd_u32 24 b3 = Some (session_of e)"
    and cw: "\<And>i. i < length ?cs \<Longrightarrow> conn_written (?cs ! i) i b4"
    by (rule hardware_stages[OF g, of e]) (rule that)
  have le: "length ?cs \<le> 8" by (simp add: connected_outputs_def MAX_CONNECTORS_def)
  have so: "same_outside 16 20 b4 b" using same_outside_put[OF st(2)] by simp
  have len: "length b = SHM_SIZE" using st(3) same_outside_length[OF so] by simp
  have cw': "conn_written (?cs ! i) i b" if "i < length ?cs" for i
    using conn_written_stable[OF cw[OF that] so] by (simp add: display_consts)
  have rg: "read_gpu b = Some (seen_gpu g)" using read_gpu_stable[OF so] st(5) by (simp add: HEADER_SIZE_def)
  have hd: "rd_u32 k b = rd_u32 k b3" if "k + 4 \<le> 16 \<or> 20 \<le> k \<and> k + 4 \<le> 64" for k
    using same_outside_rd(2)[OF so, of k] same_outside_rd(2)[OF st(4), of k] that by (auto simp: HEADER_SIZE_def)
  have h8: "rd_u8 20 b = rd_u8 20 b3"
    using same_outside_rd(4)[OF so, of 20] same_outside_rd(4)[OF st(4), of 20] by (simp add: HEADER_SIZE_def)
  have un: "min (unat (of_nat (length ?cs) :: u32)) 8 = length ?cs" using le unat_of_nat_u32[of "length ?cs"] by simp
  have "\<exists>edid. read_connector b i = Some (seen_connector edid (?cs ! i)) \<and> edid_view (?cs ! i) edid" if "i < length ?cs" for i
    using that le by (intro read_connector_written[OF _ len cw']) simp_all
  from choice_below[OF this] obtain f where
    f: "\<forall>i<length ?cs. read_connector b i = Some (seen_connector (f i) (?cs ! i)) \<and> edid_view (?cs ! i) (f i)" ..
  let ?ds = "map (\<lambda>i. seen_connector (f i) (?cs ! i)) [0..<length ?cs]"
  have "those (map (read_connector b) [0..<length ?cs]) = Some ?ds" using f by (intro those_map_Some) simp
  with un have p: "parse_shm b = Some (Some \<lparr>gpu = seen_gpu g, connectors = ?ds,
       driver_choice = choose_driver e (gi_pci_vendor g), dd_session_type = session_of e\<rparr>)"
    unfolding parse_shm_def by (simp add: rg hd h h8)
  show thesis
  proof (rule that[OF st(1) p])
    show "\<exists>edid. ?ds ! i = seen_connector edid (?cs ! i) \<and> edid_view (?cs ! i) edid" if "i < length ?ds" for i
      using f that by (intro exI[of _ "f i"]) simp
  qed simp
qed

text \<open>
  C5. What \<^verbatim>\<open>parallax\<close> publishes is what \<^verbatim>\<open>triskelion\<close> reads: the first graphics card (its strings cut to 63
  bytes), the driver choice and session type, and the connected outputs, at most eight, in order, each with its
  first 64 modes, its current mode and its identification data, as long as that data fits in 64 bytes or
  the output has no modes.
\<close>

theorem display_shm_roundtrip:
  assumes "gpus hw = g # gs"
    and "\<forall>c\<in>set (connected_outputs hw). length (ci_edid c) \<le> 64 \<or> ci_modes c = []"
  shows "\<exists>b. write_hardware e hw blank_shm = Some b \<and>
    parse_shm b = Some (Some \<lparr>gpu = seen_gpu g,
      connectors = map (\<lambda>c. seen_connector (take 128 (ci_edid c)) c) (connected_outputs hw),
      driver_choice = choose_driver e (gi_pci_vendor g), dd_session_type = session_of e\<rparr>)"
proof -
  let ?cs = "connected_outputs hw"
  obtain b ds where v: "write_hardware e hw blank_shm = Some b"
    "parse_shm b = Some (Some \<lparr>gpu = seen_gpu g, connectors = ds,
       driver_choice = choose_driver e (gi_pci_vendor g), dd_session_type = session_of e\<rparr>)"
    and l: "length ds = length ?cs"
    and c: "\<And>i. i < length ds \<Longrightarrow> \<exists>edid. ds ! i = seen_connector edid (?cs ! i) \<and> edid_view (?cs ! i) edid"
    by (rule hardware_view[OF assms(1), of e]) (rule that)
  have "ds = map (\<lambda>c. seen_connector (take 128 (ci_edid c)) c) ?cs"
  proof (rule nth_equalityI)
    fix i assume i: "i < length ds"
    then have "?cs ! i \<in> set ?cs" using l by simp
    then have "length (ci_edid (?cs ! i)) \<le> 64 \<or> ci_modes (?cs ! i) = []" using assms(2) by blast
    moreover obtain edid where "ds ! i = seen_connector edid (?cs ! i)" "edid_view (?cs ! i) edid" using c[OF i] by blast
    ultimately show "ds ! i = map (\<lambda>c. seen_connector (take 128 (ci_edid c)) c) ?cs ! i"
      using l i by (auto simp: edid_view_def)
  qed (simp add: l)
  with v show ?thesis by simp
qed

definition sample_gpu :: gpu_info where
  "sample_gpu = \<lparr>gi_driver = lit ''amdgpu'', gi_pci_vendor = 0x1002, gi_pci_device = 0x73DF, gi_pci_subsys_vendor = 0,
     gi_pci_subsys_device = 0, gi_pci_revision = 1, gi_pci_bus_id = [], gi_gpu_name = lit ''AMD'', gi_vram_bytes = 0\<rparr>"

definition sample_output :: "bytes \<Rightarrow> connector_info" where
  "sample_output edid = \<lparr>ci_name = lit ''DP-1'', ci_connector_id = 1, ci_connected = True, ci_connector_type = 10,
     ci_connector_type_id = 1, ci_mm_width = 600, ci_mm_height = 340, ci_edid = edid,
     ci_modes = [\<lparr>mi_width = 1920, mi_height = 1080, mi_refresh = 60, mi_flags = 0, mi_mode_type = 8\<rparr>], ci_current_mode = None\<rparr>"

definition sample_hardware :: "bytes \<Rightarrow> display_hardware" where
  "sample_hardware edid = \<lparr>gpus = [sample_gpu], hw_connectors = [sample_output edid]\<rparr>"

theorem display_shm_roundtrip_witness:
  "\<exists>b d. write_hardware \<lparr>has_wayland = True, has_x11 = False, quark_display_driver = None\<rparr> (sample_hardware []) blank_shm = Some b \<and>
    parse_shm b = Some (Some d) \<and> gpu d = seen_gpu sample_gpu"
proof -
  have "gpus (sample_hardware []) = sample_gpu # []" by (simp add: sample_hardware_def)
  moreover have "\<forall>c\<in>set (connected_outputs (sample_hardware [])). length (ci_edid c) \<le> 64 \<or> ci_modes c = []"
    by (simp add: sample_hardware_def sample_output_def connected_outputs_def MAX_CONNECTORS_def)
  ultimately obtain b cs ch ty where "write_hardware \<lparr>has_wayland = True, has_x11 = False, quark_display_driver = None\<rparr>
      (sample_hardware []) blank_shm = Some b"
    "parse_shm b = Some (Some \<lparr>gpu = seen_gpu sample_gpu, connectors = cs, driver_choice = ch, dd_session_type = ty\<rparr>)"
    using display_shm_roundtrip by blast
  then show ?thesis by (intro exI conjI) (assumption | simp)+
qed

text \<open>
  The identification data of an output is clobbered: the area reserved for it overlaps the first mode, so when an
  output has at least 68 bytes of it and a mode, bytes 64 to 67 as read back are the width of the first mode.
\<close>

theorem edid_overwritten_by_modes:
  assumes "gpus hw = g # gs" and "i < length (connected_outputs hw)"
    and "68 \<le> length (ci_edid (connected_outputs hw ! i))" and "ci_modes (connected_outputs hw ! i) \<noteq> []"
  shows "\<exists>b d. write_hardware e hw blank_shm = Some b \<and> parse_shm b = Some (Some d) \<and>
    slice 64 68 (cd_edid (connectors d ! i)) = Some (u32_to_le (mi_width (hd (ci_modes (connected_outputs hw ! i)))))"
proof -
  let ?c = "connected_outputs hw ! i"
  obtain b ds where v: "write_hardware e hw blank_shm = Some b"
    "parse_shm b = Some (Some \<lparr>gpu = seen_gpu g, connectors = ds,
       driver_choice = choose_driver e (gi_pci_vendor g), dd_session_type = session_of e\<rparr>)"
    and l: "length ds = length (connected_outputs hw)"
    and c: "\<And>i. i < length ds \<Longrightarrow> \<exists>edid. ds ! i = seen_connector edid (connected_outputs hw ! i) \<and>
      edid_view (connected_outputs hw ! i) edid"
    by (rule hardware_view[OF assms(1), of e]) (rule that)
  have "i < length ds" using assms(2) l by simp
  from c[OF this] obtain edid where ed: "ds ! i = seen_connector edid ?c" "edid_view ?c edid" by blast
  have "cd_edid (seen_connector edid ?c) = edid" by (simp add: seen_connector_def Let_def split: prod.splits)
  with ed assms(3,4) have "slice 64 68 (cd_edid (ds ! i)) = Some (u32_to_le (mi_width (hd (ci_modes ?c))))"
    by (simp add: edid_view_def)
  with v show ?thesis by (intro exI conjI) (assumption | simp)+
qed

theorem edid_overwritten_by_modes_witness:
  "\<exists>b d. write_hardware \<lparr>has_wayland = True, has_x11 = False, quark_display_driver = None\<rparr>
      (sample_hardware (replicate 128 255)) blank_shm = Some b \<and> parse_shm b = Some (Some d) \<and>
    slice 64 68 (cd_edid (connectors d ! 0)) = Some (u32_to_le 1920)"
proof -
  have g: "gpus (sample_hardware (replicate 128 255)) = sample_gpu # []" by (simp add: sample_hardware_def)
  have c: "connected_outputs (sample_hardware (replicate 128 255)) = [sample_output (replicate 128 255)]"
    by (simp add: sample_hardware_def sample_output_def connected_outputs_def MAX_CONNECTORS_def)
  have "ci_modes (sample_output x) \<noteq> []" "mi_width (hd (ci_modes (sample_output x))) = 1920" "ci_edid (sample_output x) = x" for x
    by (simp_all add: sample_output_def)
  with edid_overwritten_by_modes[OF g, of 0] c show ?thesis by simp
qed

end
