(* ===== verification/RegDisplay.thy ===== *)
theory RegDisplay
  imports RegFile Display
begin

text \<open>
  The registry content that the server creates itself: the runtime keys of \<^verbatim>\<open>init_runtime_keys\<close> and the display
  keys filled in from the data published by \<^verbatim>\<open>parallax\<close> (\<^verbatim>\<open>triskelion/registry.rs\<close>).  Each step edits the node
  at a fixed path.  The table of COM classes, generated data, is the argument \<open>com\<close>.
\<close>

section \<open>Writing values into a node\<close>

definition sz_value :: "ustr \<Rightarrow> reg_value" where
  "sz_value s = \<lparr>data_type = 1, data = utf16le_of s @ [0, 0]\<rparr>"

definition expand_value :: "ustr \<Rightarrow> reg_value" where
  "expand_value s = \<lparr>data_type = 2, data = utf16le_of s @ [0, 0]\<rparr>"

definition dword_value :: "u32 \<Rightarrow> reg_value" where
  "dword_value w = \<lparr>data_type = 4, data = u32_to_le w\<rparr>"

definition set_reg_sz :: "lower_fun \<Rightarrow> string \<Rightarrow> ustr \<Rightarrow> reg_key \<Rightarrow> reg_key" where
  "set_reg_sz lc name s k = put_value (reg_name_new lc (lit name)) (sz_value s) k"

definition set_reg_dword :: "lower_fun \<Rightarrow> string \<Rightarrow> u32 \<Rightarrow> reg_key \<Rightarrow> reg_key" where
  "set_reg_dword lc name w k = put_value (reg_name_new lc (lit name)) (dword_value w) k"

definition set_reg_binary :: "lower_fun \<Rightarrow> string \<Rightarrow> bytes \<Rightarrow> reg_key \<Rightarrow> reg_key" where
  "set_reg_binary lc name bs k = put_value (reg_name_new lc (lit name)) \<lparr>data_type = 3, data = bs\<rparr> k"

text \<open>The insertions that do not look first: the name is always appended, or never.\<close>

definition push_value :: "reg_name \<Rightarrow> reg_value \<Rightarrow> reg_key \<Rightarrow> reg_key" where
  "push_value n v k = RegKey (children k) (hm_insert n v (rvalues k)) (value_names k @ [n])"

definition insert_value :: "reg_name \<Rightarrow> reg_value \<Rightarrow> reg_key \<Rightarrow> reg_key" where
  "insert_value n v k = RegKey (children k) (hm_insert n v (rvalues k)) (value_names k)"

text \<open>The insertion of \<^verbatim>\<open>apply_display_driver\<close>, which looks in the name list instead of the values.\<close>

definition list_value :: "reg_name \<Rightarrow> reg_value \<Rightarrow> reg_key \<Rightarrow> reg_key" where
  "list_value n v k = RegKey (children k) (hm_insert n v (rvalues k))
     (if \<exists>m\<in>set (value_names k). same_name m n then value_names k else value_names k @ [n])"

text \<open>\<^verbatim>\<open>walk_mut_create\<close> at a path given as text, with an edit of the node.\<close>

definition at_path :: "lower_fun \<Rightarrow> ustr \<Rightarrow> (reg_key \<Rightarrow> reg_key) \<Rightarrow> reg_key \<Rightarrow> reg_key" where
  "at_path lc p f k = walk_mut_create (split_path lc p) f k"

definition build_devmodew :: "u32 \<Rightarrow> u32 \<Rightarrow> u32 \<Rightarrow> u32 \<Rightarrow> bytes option" where
  "build_devmodew width height refresh bpp = do {
     dm \<leftarrow> put 0x40 (u16_to_le 0x0401) (replicate 188 0);
     dm \<leftarrow> put 0x42 (u16_to_le 0x0401) dm;
     dm \<leftarrow> put 0x44 (u16_to_le 188) dm;
     dm \<leftarrow> put 0x48 (u32_to_le (0x1 OR 0x100 OR 0x80000 OR 0x100000 OR 0x400000)) dm;
     dm \<leftarrow> put 0x6C (u32_to_le bpp) dm;
     dm \<leftarrow> put 0x70 (u32_to_le width) dm;
     dm \<leftarrow> put 0x74 (u32_to_le height) dm;
     put 0x7C (u32_to_le refresh) dm }"

section \<open>Number formats\<close>

fun to_dec :: "nat \<Rightarrow> ustr" where
  "to_dec n = (if n < 10 then [48 + int n] else to_dec (n div 10) @ [48 + int (n mod 10)])"

declare to_dec.simps [simp del]

definition upper_hex :: "nat \<Rightarrow> nat \<Rightarrow> ustr" where
  "upper_hex w n = map (\<lambda>c. if 97 \<le> c \<and> c \<le> 102 then c - 32 else c) (pad_left w 48 (to_hex n))"

section \<open>The display driver\<close>

definition drivers_path :: "ustr \<Rightarrow> ustr" where
  "drivers_path sid = backslashed [''Registry'', ''User'', ''''] @ sid @ backslashed ['''', ''Software'', ''Wine'', ''Drivers'']"

definition null_video_path :: ustr where
  "null_video_path = backslashed [''Registry'', ''Machine'', ''System'', ''ControlSet001'', ''Control'', ''Video'',
     ''{00000000-0000-0000-0000-000000000000}'', ''0000'']"

definition apply_display_driver :: "lower_fun \<Rightarrow> ustr \<Rightarrow> ustr \<Rightarrow> ustr \<Rightarrow> reg_key \<Rightarrow> reg_key" where
  "apply_display_driver lc sid drv_short drv_dll k =
     at_path lc null_video_path (list_value (reg_name_new lc (lit ''GraphicsDriver'')) (sz_value drv_dll))
       (at_path lc (drivers_path sid) (list_value (reg_name_new lc (lit ''Graphics'')) (sz_value drv_short)) k)"

section \<open>Runtime keys\<close>

definition init_link :: "lower_fun \<Rightarrow> reg_key \<Rightarrow> reg_key" where
  "init_link lc = at_path lc (backslashed [''Registry'', ''Machine'', ''System'', ''CurrentControlSet''])
     (\<lambda>n. let link = reg_name_new lc (lit ''SymbolicLinkValue'') in
        if hm_get link (rvalues n) = None
        then push_value link \<lparr>data_type = 6,
          data = utf16le_of (backslashed ['''', ''Registry'', ''Machine'', ''System'', ''ControlSet001''])\<rparr> n
        else n)"

definition init_device_map :: "lower_fun \<Rightarrow> reg_key \<Rightarrow> reg_key" where
  "init_device_map lc = at_path lc (backslashed [''Registry'', ''Machine'', ''Hardware'', ''DeviceMap'', ''Video''])
     (push_value (reg_name_new lc (backslashed ['''', ''Device'', ''Video0'']))
       (sz_value (backslashed ['''', ''Registry'', ''Machine'', ''System'', ''CurrentControlSet'', ''Control'', ''Video'',
          ''{00000000-0000-0000-0000-000000000000}'', ''0000''])))"

definition class_path :: ustr where
  "class_path = backslashed [''Registry'', ''Machine'', ''System'', ''ControlSet001'', ''Control'', ''Class'',
     ''{4d36e968-e325-11ce-bfc1-08002be10318}'']"

definition init_gpu_class :: "lower_fun \<Rightarrow> reg_key \<Rightarrow> reg_key" where
  "init_gpu_class lc = at_path lc class_path (push_value (reg_name_new lc (lit ''Class'')) (sz_value (lit ''Display'')))"

definition gpu_values :: "lower_fun \<Rightarrow> reg_key \<Rightarrow> reg_key" where
  "gpu_values lc k =
     (let adapter = sz_value (lit ''Wine Display Adapter'');
          k = fold (\<lambda>(n, v). push_value (reg_name_new lc (lit n)) v)
            [(''DriverDesc'', adapter), (''HardwareInformation.AdapterString'', adapter),
             (''HardwareInformation.BiosString'', adapter), (''HardwareInformation.ChipType'', adapter),
             (''HardwareInformation.DacType'', sz_value (lit ''Intergrated RAMDAC''))] k
      in push_value (reg_name_new lc (lit ''HardwareInformation.MemorySize'')) (dword_value 0x10000000) k)"

definition device_node :: "lower_fun \<Rightarrow> string \<Rightarrow> reg_key \<Rightarrow> reg_key" where
  "device_node lc class_guid k = push_value (reg_name_new lc (lit ''Driver'')) (sz_value (backslashed [class_guid, ''0000'']))
     (push_value (reg_name_new lc (lit ''ClassGUID'')) (sz_value (lit class_guid)) k)"

definition init_device_nodes :: "lower_fun \<Rightarrow> reg_key \<Rightarrow> reg_key" where
  "init_device_nodes lc =
     at_path lc (backslashed [''Registry'', ''Machine'', ''System'', ''ControlSet001'', ''Control'', ''Class'',
       ''{4d36e96e-e325-11ce-bfc1-08002be10318}'', ''0000'']) id \<circ>
     at_path lc (backslashed [''Registry'', ''Machine'', ''System'', ''ControlSet001'', ''Enum'', ''DISPLAY'', ''Default_Monitor'',
       ''0000&0000'']) (device_node lc ''{4d36e96e-e325-11ce-bfc1-08002be10318}'') \<circ>
     at_path lc (backslashed [''Registry'', ''Machine'', ''System'', ''ControlSet001'', ''Enum'', ''PCI'',
       ''VEN_0000&DEV_0000&SUBSYS_00000000&REV_00'', ''0000'']) (device_node lc ''{4d36e968-e325-11ce-bfc1-08002be10318}'')"

definition init_drivers :: "lower_fun \<Rightarrow> ustr \<Rightarrow> reg_key \<Rightarrow> reg_key" where
  "init_drivers lc sid =
     at_path lc (backslashed [''Registry'', ''Machine'', ''Software'', ''Microsoft'', ''Windows NT'', ''CurrentVersion'', ''Windows''])
       (push_value (reg_name_new lc (lit ''LoadAppInit_DLLs'')) (dword_value 1) \<circ>
        push_value (reg_name_new lc (lit ''AppInit_DLLs'')) (sz_value (lit ''drv_init.dll''))) \<circ>
     at_path lc (backslashed [''Registry'', ''User'', ''''] @ sid @ backslashed ['''', ''Software'', ''Wine'', ''X11 Driver''])
       (push_value (reg_name_new lc (lit ''UseEGL'')) (sz_value (lit ''N'')))"

definition multi_sz :: "string list \<Rightarrow> bytes" where
  "multi_sz ss = concat (map (\<lambda>s. utf16le_of (lit s) @ [0, 0]) ss) @ [0, 0]"

definition svchost_groups :: "(string \<times> string list) list" where
  "svchost_groups = [(''netsvcs'', [''Themes'', ''BITS'', ''AudioEndpointBuilder'', ''Audiosrv'', ''CertPropSvc'',
       ''LanmanWorkstation'', ''ProfSvc'', ''SENS'', ''ShellHWDetection'']),
     (''LocalServiceNetworkRestricted'', [''nsi'', ''DhcpSvc'', ''EventLog'']),
     (''LocalService'', [''nsi'', ''WinHttpAutoProxySvc'']),
     (''LocalServiceNoNetwork'', [''PLA'']),
     (''LocalSystemNetworkRestricted'', [''WPDBusEnum''])]"

definition init_svchost :: "lower_fun \<Rightarrow> reg_key \<Rightarrow> reg_key" where
  "init_svchost lc =
     at_path lc (backslashed [''Registry'', ''Machine'', ''Software'', ''Microsoft'', ''Windows NT'', ''CurrentVersion'', ''SvcHost''])
       (fold (\<lambda>(g, ss). put_value (reg_name_new lc (lit g)) \<lparr>data_type = 7, data = multi_sz ss\<rparr>) svchost_groups)"

record service =
  s_name :: string
  s_type :: u32
  s_start :: u32
  s_image :: ustr
  s_group :: string
  s_params :: "(string \<times> ustr) list"

definition svchost_image :: ustr where
  "svchost_image = backslashed [''%SystemRoot%'', ''system32'', ''svchost.exe -k LocalServiceNetworkRestricted'']"

definition service_dll :: "string \<Rightarrow> (string \<times> ustr) list" where
  "service_dll d = [(''ServiceDll'', backslashed [''%SystemRoot%'', ''system32'', d])]"

definition driver_image :: "string \<Rightarrow> ustr" where
  "driver_image d = backslashed [''system32'', ''drivers'', d]"

definition services :: "service list" where
  "services = [
     \<lparr>s_name = ''nsi'', s_type = 0x20, s_start = 2, s_image = svchost_image, s_group = ''TDI'', s_params = service_dll ''nsisvc.dll''\<rparr>,
     \<lparr>s_name = ''nsiproxy'', s_type = 1, s_start = 1, s_image = driver_image ''nsiproxy.sys'', s_group = ''PNP_TDI'', s_params = []\<rparr>,
     \<lparr>s_name = ''NDIS'', s_type = 1, s_start = 1, s_image = driver_image ''ndis.sys'', s_group = ''NDIS'', s_params = []\<rparr>,
     \<lparr>s_name = ''Dhcp'', s_type = 0x20, s_start = 2, s_image = svchost_image, s_group = ''TDI'', s_params = service_dll ''dhcpsvc.dll''\<rparr>,
     \<lparr>s_name = ''Eventlog'', s_type = 0x20, s_start = 2, s_image = svchost_image, s_group = '''', s_params = service_dll ''wevtsvc.dll''\<rparr>,
     \<lparr>s_name = ''SharedGpuResources'', s_type = 1, s_start = 2,
       s_image = backslashed [''C:'', ''windows'', ''system32'', ''drivers'', ''sharedgpures.sys''],
       s_group = ''System Bus Extender'', s_params = []\<rparr>,
     \<lparr>s_name = ''MountMgr'', s_type = 1, s_start = 0, s_image = driver_image ''mountmgr.sys'', s_group = ''System Bus Extender'', s_params = []\<rparr>,
     \<lparr>s_name = ''Winedevice1'', s_type = 0x10, s_start = 3, s_image = backslashed [''%SystemRoot%'', ''system32'', ''winedevice.exe''],
       s_group = '''', s_params = []\<rparr>,
     \<lparr>s_name = ''Winedevice2'', s_type = 0x10, s_start = 3, s_image = backslashed [''%SystemRoot%'', ''system32'', ''winedevice.exe''],
       s_group = '''', s_params = []\<rparr>,
     \<lparr>s_name = ''winebus'', s_type = 1, s_start = 2, s_image = driver_image ''winebus.sys'', s_group = '''', s_params = []\<rparr>,
     \<lparr>s_name = ''wineusb'', s_type = 1, s_start = 2, s_image = driver_image ''wineusb.sys'', s_group = '''', s_params = []\<rparr>,
     \<lparr>s_name = ''winebth'', s_type = 1, s_start = 2, s_image = driver_image ''winebth.sys'', s_group = '''', s_params = []\<rparr>]"

definition service_path :: "service \<Rightarrow> ustr" where
  "service_path s = backslashed [''Registry'', ''Machine'', ''System'', ''ControlSet001'', ''Services'', s_name s]"

definition put_missing :: "reg_name \<Rightarrow> reg_value \<Rightarrow> reg_key \<Rightarrow> reg_key" where
  "put_missing n v k = (if hm_get n (rvalues k) = None then push_value n v k else k)"

definition init_service :: "lower_fun \<Rightarrow> service \<Rightarrow> reg_key \<Rightarrow> reg_key" where
  "init_service lc s k =
     (let put = (\<lambda>n. put_value (reg_name_new lc (lit n)));
          k = at_path lc (service_path s)
            ((if s_group s = '''' then id else put ''Group'' (sz_value (lit (s_group s)))) \<circ>
             put ''ImagePath'' (expand_value (s_image s)) \<circ>
             put ''Start'' (dword_value (s_start s)) \<circ> put ''Type'' (dword_value (s_type s))) k
      in if s_params s = [] then k
         else at_path lc (service_path s @ backslashed ['''', ''Parameters''])
           (fold (\<lambda>(n, v). put_missing (reg_name_new lc (lit n)) (expand_value v)) (s_params s)) k)"

definition init_com_class :: "lower_fun \<Rightarrow> ustr \<times> ustr \<times> ustr \<Rightarrow> reg_key \<Rightarrow> reg_key" where
  "init_com_class lc c = (case c of (clsid, dll, threading) \<Rightarrow>
     at_path lc (backslashed [''Registry'', ''Machine'', ''Software'', ''Classes'', ''CLSID'', ''''] @ clsid @ backslashed ['''', ''InprocServer32''])
       (put_value (reg_name_new lc (lit ''ThreadingModel'')) (sz_value threading) \<circ>
        put_value (reg_name_new lc []) (sz_value dll)))"

definition init_runtime_keys :: "lower_fun \<Rightarrow> (ustr \<times> ustr \<times> ustr) list \<Rightarrow> ustr \<Rightarrow> reg_key \<Rightarrow> reg_key" where
  "init_runtime_keys lc com sid k =
     (let k = init_link lc k;
          k = apply_display_driver lc sid (lit ''x11'') (lit ''winex11.drv'') k;
          k = init_device_map lc k;
          k = init_gpu_class lc k;
          k = at_path lc (class_path @ backslashed ['''', ''0000'']) (gpu_values lc) k;
          k = at_path lc null_video_path (gpu_values lc) k;
          k = init_device_nodes lc k;
          k = init_drivers lc sid k;
          k = init_svchost lc k;
          k = fold (init_service lc) services k
      in fold (init_com_class lc) com k)"

text \<open>\<^verbatim>\<open>Registry::new\<close>: runtime keys first, then the files of the prefix.\<close>

definition registry_new :: "lower_fun \<Rightarrow> (ustr \<times> ustr \<times> ustr) list \<Rightarrow> (string \<Rightarrow> ustr option) \<Rightarrow> ustr \<Rightarrow> registry option" where
  "registry_new lc com fs sid = load_prefix_registry lc fs sid
     ((registry_blank sid)\<lparr>root := init_runtime_keys lc com sid (root (registry_blank sid))\<rparr>)"

section \<open>Keys from the published display data\<close>

definition pci_id :: "gpu_data \<Rightarrow> ustr" where
  "pci_id g = lit ''VEN_'' @ upper_hex 4 (unat (pci_vendor g)) @ lit ''&DEV_'' @ upper_hex 4 (unat (pci_device g)) @
     lit ''&SUBSYS_'' @ upper_hex 4 (unat (pci_subsys_device g)) @ upper_hex 4 (unat (pci_subsys_vendor g)) @
     lit ''&REV_'' @ upper_hex 2 (unat (pci_revision g)) @ backslashed ['''', ''0000'']"

definition vram_value :: "gpu_data \<Rightarrow> u32" where
  "vram_value g = (if vram_bytes g > 0 then ucast (min (vram_bytes g) 0xFFFFFFFF) else 0x10000000)"

definition mode_values :: "lower_fun \<Rightarrow> gpu_data \<Rightarrow> nat \<Rightarrow> connector_data \<Rightarrow> bytes \<Rightarrow> bytes \<Rightarrow> reg_key \<Rightarrow> reg_key" where
  "mode_values lc g i c modes_data mode_tail =
     set_reg_dword lc ''Depth'' 32 \<circ> set_reg_dword lc ''Dpi'' 96 \<circ>
     set_reg_dword lc ''StateFlags'' (if i = 0 then 0x5 else 0x1) \<circ>
     set_reg_sz lc ''GPUID'' (backslashed ['''', ''Registry'', ''Machine'', ''System'', ''CurrentControlSet'', ''Enum'', ''PCI'', ''''] @ pci_id g) \<circ>
     set_reg_binary lc ''Registry'' mode_tail \<circ> set_reg_binary lc ''Current'' mode_tail \<circ>
     set_reg_binary lc ''Modes'' modes_data \<circ> set_reg_dword lc ''ModeCount'' (of_nat (length (cd_modes c)))"

definition source_values :: "lower_fun \<Rightarrow> connector_data \<Rightarrow> reg_key \<Rightarrow> reg_key" where
  "source_values lc c =
     set_reg_dword lc ''DefaultSettings.Flags'' 0 \<circ>
     set_reg_dword lc ''DefaultSettings.VRefresh'' (current_refresh c) \<circ>
     set_reg_dword lc ''DefaultSettings.YResolution'' (current_height c) \<circ>
     set_reg_dword lc ''DefaultSettings.XResolution'' (current_width c) \<circ>
     set_reg_dword lc ''DefaultSettings.BitsPerPel'' 32"

definition source_path :: "ustr \<Rightarrow> ustr \<Rightarrow> ustr" where
  "source_path guid name = backslashed [''Registry'', ''Machine'', ''System'', ''ControlSet001'', ''Control'', ''Video'', ''{''] @ guid @
     backslashed [''}'', ''Sources'', ''''] @ name"

definition profile_source_path :: "ustr \<Rightarrow> ustr \<Rightarrow> ustr" where
  "profile_source_path guid name = backslashed [''Registry'', ''Machine'', ''System'', ''CurrentControlSet'', ''Hardware Profiles'', ''Current'',
     ''System'', ''CurrentControlSet'', ''Control'', ''Video'', ''{''] @ guid @ backslashed [''}'', ''Sources'', ''''] @ name"

definition monitor_values :: "lower_fun \<Rightarrow> nat \<Rightarrow> connector_data \<Rightarrow> reg_key \<Rightarrow> reg_key" where
  "monitor_values lc i c =
     (if cd_edid c = [] then id else set_reg_binary lc ''EDID'' (cd_edid c)) \<circ>
     set_reg_sz lc ''Driver'' (backslashed [''{4d36e96e-e325-11ce-bfc1-08002be10318}'', ''''] @ pad_left 4 48 (to_dec i)) \<circ>
     set_reg_sz lc ''ClassGUID'' (lit ''{4d36e96e-e325-11ce-bfc1-08002be10318}'')"

definition monitor_path :: "nat \<Rightarrow> connector_data \<Rightarrow> ustr" where
  "monitor_path i c = backslashed [''Registry'', ''Machine'', ''System'', ''ControlSet001'', ''Enum'', ''DISPLAY'', ''''] @
     edid_manufacturer (cd_edid c) @ [92] @ upper_hex 4 (unat (edid_product (cd_edid c))) @ lit ''&'' @ upper_hex 4 i"

definition device_map_path :: ustr where
  "device_map_path = backslashed [''Registry'', ''Machine'', ''Hardware'', ''DeviceMap'', ''Video'']"

definition device_map_entry :: "lower_fun \<Rightarrow> ustr \<Rightarrow> nat \<Rightarrow> connector_data \<Rightarrow> reg_key \<Rightarrow> reg_key" where
  "device_map_entry lc guid i c = at_path lc device_map_path
     (push_value (reg_name_new lc (backslashed ['''', ''Device'', ''Video''] @ to_dec i))
       (sz_value (backslashed ['''', ''Registry'', ''Machine'', ''System'', ''CurrentControlSet'', ''Control'', ''Video'', ''{''] @ guid @
          backslashed [''}'', ''Sources'', ''''] @ cd_name c)))"

definition apply_connector :: "lower_fun \<Rightarrow> display_data \<Rightarrow> nat \<times> connector_data \<Rightarrow> reg_key \<Rightarrow> reg_key option" where
  "apply_connector lc dd ic k = (case ic of (i, c) \<Rightarrow> do {
     let guid = gpu_guid dd;
     dms \<leftarrow> those (map (\<lambda>m. build_devmodew (md_width m) (md_height m) (md_refresh m) 32) (cd_modes c));
     let modes_data = concat dms;
     dm \<leftarrow> build_devmodew (current_width c) (current_height c) (current_refresh c) 32;
     mode_tail \<leftarrow> slice 0x48 188 dm;
     let k = at_path lc (source_path guid (cd_name c)) (mode_values lc (gpu dd) i c modes_data mode_tail \<circ> source_values lc c) k;
     let k = at_path lc (profile_source_path guid (cd_name c)) (mode_values lc (gpu dd) i c modes_data mode_tail) k;
     let k = at_path lc (monitor_path i c) (monitor_values lc i c) k;
     Some (if i > 0 then device_map_entry lc guid i c k else k) })"

fun apply_connectors :: "lower_fun \<Rightarrow> display_data \<Rightarrow> (nat \<times> connector_data) list \<Rightarrow> reg_key \<Rightarrow> reg_key option" where
  "apply_connectors lc dd [] k = Some k"
| "apply_connectors lc dd (ic # r) k = do { k' \<leftarrow> apply_connector lc dd ic k; apply_connectors lc dd r k' }"

definition apply_gpu :: "lower_fun \<Rightarrow> gpu_data \<Rightarrow> reg_key \<Rightarrow> reg_key" where
  "apply_gpu lc g k =
     at_path lc (class_path @ backslashed ['''', ''0000''])
       ((if gpu_name g = [] then id
         else set_reg_sz lc ''HardwareInformation.ChipType'' (gpu_name g) \<circ> set_reg_sz lc ''HardwareInformation.BiosString'' (gpu_name g) \<circ>
           set_reg_sz lc ''HardwareInformation.AdapterString'' (gpu_name g) \<circ> set_reg_sz lc ''DriverDesc'' (gpu_name g)) \<circ>
        insert_value (reg_name_new lc (lit ''HardwareInformation.MemorySize'')) (dword_value (vram_value g)))
     (at_path lc (backslashed [''Registry'', ''Machine'', ''System'', ''ControlSet001'', ''Enum'', ''PCI'', ''''] @ pci_id g)
       (set_reg_sz lc ''Driver'' (backslashed [''{4d36e968-e325-11ce-bfc1-08002be10318}'', ''0000'']) \<circ>
        set_reg_sz lc ''ClassGUID'' (lit ''{4d36e968-e325-11ce-bfc1-08002be10318}'')) k)"

definition apply_display_registry :: "lower_fun \<Rightarrow> display_data \<Rightarrow> registry \<Rightarrow> registry option" where
  "apply_display_registry lc dd r = do {
     k \<leftarrow> apply_connectors lc dd (enumerate 0 (connectors dd)) (apply_gpu lc (gpu dd) (root r));
     let (drv_short, drv_dll) = display_driver dd;
     Some (r\<lparr>root := apply_display_driver lc (user_sid r) drv_short drv_dll k\<rparr>) }"

definition update_display_guid :: "lower_fun \<Rightarrow> ustr \<Rightarrow> ustr \<Rightarrow> reg_key \<Rightarrow> reg_key" where
  "update_display_guid lc guid drv_dll k =
     at_path lc device_map_path
       (insert_value (reg_name_new lc (backslashed ['''', ''Device'', ''Video0'']))
         (sz_value (backslashed ['''', ''Registry'', ''Machine'', ''System'', ''CurrentControlSet'', ''Control'', ''Video'', ''{''] @ guid @
            backslashed [''}'', ''0000''])))
     (at_path lc (backslashed [''Registry'', ''Machine'', ''System'', ''ControlSet001'', ''Control'', ''Video'', ''{''] @ guid @ backslashed [''}'', ''0000''])
       (set_reg_sz lc ''GraphicsDriver'' drv_dll) k)"

section \<open>Mode records\<close>

lemma build_devmodew_ok:
  "\<exists>dm. build_devmodew w h r bpp = Some dm \<and> length dm = 188 \<and> rd_u16 0x44 dm = Some 188 \<and>
     rd_u32 0x6C dm = Some bpp \<and> rd_u32 0x70 dm = Some w \<and> rd_u32 0x74 dm = Some h \<and> rd_u32 0x7C dm = Some r"
proof -
  let ?fs = "[(0x40, u16_to_le 0x0401), (0x42, u16_to_le 0x0401), (0x44, u16_to_le 188),
    (0x48, u32_to_le (0x1 OR 0x100 OR 0x80000 OR 0x100000 OR 0x400000)), (0x6C, u32_to_le bpp), (0x70, u32_to_le w),
    (0x74, u32_to_le h), (0x7C, u32_to_le r)]"
  have "\<exists>b'. puts ?fs (replicate 188 0) = Some b' \<and> same_outside 0 188 (replicate 188 0) b' \<and>
    (\<forall>f\<in>set ?fs. slice (fst f) (fst f + length (snd f)) b' = Some (snd f)) \<and>
    (\<forall>x y. (\<forall>f\<in>set ?fs. y \<le> fst f \<or> fst f + length (snd f) \<le> x) \<longrightarrow> slice x y b' = slice x y (replicate 188 0))"
    by (intro puts_ok) (auto simp: apart_def)
  then obtain dm where dm: "puts ?fs (replicate 188 0) = Some dm" "same_outside 0 188 (replicate 188 0) dm"
    and rd: "\<forall>f\<in>set ?fs. slice (fst f) (fst f + length (snd f)) dm = Some (snd f)" by blast
  have "build_devmodew w h r bpp = puts ?fs (replicate 188 0)" by (simp add: build_devmodew_def puts_fun)
  with dm rd show ?thesis by (auto simp: rd_u32_def rd_u16_def dest: same_outside_length)
qed

section \<open>The display driver entries\<close>

lemma at_path_stored:
  assumes "\<And>c. children (f c) = children c"
  shows "stored (at_path lc p f k) q m =
    (if same_path q (split_path lc p)
     then hm_get m (rvalues (f (case walk_mut q k of None \<Rightarrow> key_new | Some n \<Rightarrow> n)))
     else stored k q m)"
proof (cases "same_path q (split_path lc p)")
  case True
  then show ?thesis unfolding at_path_def
    using walk_mut_cong[OF True, of "walk_mut_create (split_path lc p) f k"] walk_mut_cong[OF True, of k]
    by (simp add: stored_def create_target)
qed (simp add: at_path_def create_frame assms)

lemma hm_get_list_value: "hm_get m (rvalues (list_value n v k)) = (if same_name n m then Some v else hm_get m (rvalues k))"
  by (simp add: list_value_def)

lemma list_value_stored:
  "stored (at_path lc p (list_value n v) k) q m =
    (if same_path q (split_path lc p) \<and> same_name n m then Some v else stored k q m)"
  by (subst at_path_stored) (auto simp: list_value_def stored_def key_new_def split: option.splits)

lemma apply_driver_stored:
  "stored (apply_display_driver lc sid s d k) q m =
    (if same_path q (split_path lc null_video_path) \<and> same_name (reg_name_new lc (lit ''GraphicsDriver'')) m then Some (sz_value d)
     else if same_path q (split_path lc (drivers_path sid)) \<and> same_name (reg_name_new lc (lit ''Graphics'')) m then Some (sz_value s)
     else stored k q m)"
  by (simp add: apply_display_driver_def list_value_stored)

lemma split_path_seg:
  "92 \<notin> set s \<Longrightarrow> split_path lc (s @ 92 # r) = (if s = [] then [] else [reg_name_new lc s]) @ split_path lc r"
  by (simp add: split_path_def split_on_append)

lemma backslashed_simps [simp]:
  "backslashed [s] = lit s" "backslashed (s # t # ss) = lit s @ 92 # backslashed (t # ss)"
  by (simp_all add: backslashed_def)

lemma lit_no_backslash [simp]: "92 \<notin> set (lit s) \<longleftrightarrow> CHR 0x5C \<notin> set s"
proof -
  have "of_char c = (92 :: int) \<longleftrightarrow> c = CHR 0x5C" for c
    using of_char_eq_iff[of c "CHR 0x5C", where 'a = int] by simp
  then show ?thesis unfolding lit_def set_map image_iff by metis
qed

lemma lit_append: "lit (a @ b) = lit a @ lit b" by (simp add: lit_def)
lemma lit_Nil_iff [simp]: "lit s = [] \<longleftrightarrow> s = []" by (simp add: lit_def)

lemma drivers_path_segments:
  "\<exists>r. split_path lc (drivers_path sid) = reg_name_new lc (lit ''Registry'') # reg_name_new lc (lit ''User'') # r"
  by (simp add: drivers_path_def split_path_seg)

lemma video_path_segments:
  "\<exists>r. split_path lc null_video_path = reg_name_new lc (lit ''Registry'') # reg_name_new lc (lit ''Machine'') # r"
  by (simp add: null_video_path_def split_path_seg)

lemma drivers_not_video:
  assumes "lowers_ascii lc"
  shows "\<not> same_path (split_path lc (drivers_path sid)) (split_path lc null_video_path)"
proof -
  have "lc (lit ''User'') = ascii_lower (lit ''User'')" "lc (lit ''Machine'') = ascii_lower (lit ''Machine'')"
    using assms by (auto simp: lowers_ascii_def is_ascii_def lit_def)
  moreover have "ascii_lower (lit ''User'') \<noteq> ascii_lower (lit ''Machine'')" by code_simp
  ultimately show ?thesis
    using drivers_path_segments[of lc sid] video_path_segments[of lc]
    by (auto simp: same_name_def reg_name_new_def)
qed

lemma apply_connectors_total: "\<exists>k'. apply_connectors lc dd ics k = Some k'"
proof (induction ics arbitrary: k)
  case (Cons ic ics)
  obtain i c where ic: "ic = (i, c)" by (cases ic)
  obtain dms where dms: "those (map (\<lambda>m. build_devmodew (md_width m) (md_height m) (md_refresh m) 32) (cd_modes c)) = Some dms"
    using those_total[of "cd_modes c" "\<lambda>m. build_devmodew (md_width m) (md_height m) (md_refresh m) 32"] build_devmodew_ok by blast
  obtain dm where dm: "build_devmodew (current_width c) (current_height c) (current_refresh c) 32 = Some dm" "length dm = 188"
    using build_devmodew_ok by blast
  then obtain tail where "slice 0x48 188 dm = Some tail" by (simp add: slice_def)
  with dms dm ic obtain k1 where "apply_connector lc dd ic k = Some k1" by (simp add: apply_connector_def Let_def)
  with Cons.IH[of k1] show ?case by simp
qed simp

text \<open>
  Applying the published display data always succeeds, and afterwards both registry locations of the display
  driver, under the user's and under the machine's keys, name the driver that the data selects.
\<close>

theorem display_driver_applied:
  assumes "lowers_ascii lc"
  shows "\<exists>r'. apply_display_registry lc dd r = Some r' \<and>
    stored (root r') (split_path lc (drivers_path (user_sid r))) (reg_name_new lc (lit ''Graphics'')) =
      Some (sz_value (if driver_choice dd = 2 then lit ''wayland'' else lit ''x11'')) \<and>
    stored (root r') (split_path lc null_video_path) (reg_name_new lc (lit ''GraphicsDriver'')) =
      Some (sz_value (if driver_choice dd = 2 then lit ''winewayland.drv'' else lit ''winex11.drv''))"
proof -
  obtain k where "apply_connectors lc dd (enumerate 0 (connectors dd)) (apply_gpu lc (gpu dd) (root r)) = Some k"
    using apply_connectors_total by blast
  then show ?thesis using drivers_not_video[OF assms]
    by (simp add: apply_display_registry_def apply_driver_stored display_driver_def del: lits)
qed

theorem display_driver_applied_witness:
  "\<exists>r'. apply_display_registry ascii_lower \<lparr>gpu = seen_gpu sample_gpu, connectors = [], driver_choice = 2, dd_session_type = 2\<rparr>
      (registry_blank (lit ''S-1-5-21'')) = Some r' \<and>
    stored (root r') (split_path ascii_lower null_video_path) (reg_name_new ascii_lower (lit ''GraphicsDriver'')) =
      Some (sz_value (lit ''winewayland.drv''))"
  using display_driver_applied[OF lowers_ascii_ascii,
      of "\<lparr>gpu = seen_gpu sample_gpu, connectors = [], driver_choice = 2, dd_session_type = 2\<rparr>" "registry_blank (lit ''S-1-5-21'')"]
  by auto

section \<open>Device map entries\<close>

text \<open>
  The device-map entry of a further output is appended to the key's name list without looking: when the entry
  is already there, as it is after a saved prefix has been loaded, the name is listed twice and the key no longer
  enumerates its values correctly.
\<close>

theorem device_map_name_listed_twice:
  assumes "walk_mut (split_path lc device_map_path) k = Some n" and "node_ok n"
    and "hm_get (reg_name_new lc (backslashed ['''', ''Device'', ''Video''] @ to_dec i)) (rvalues n) \<noteq> None"
  shows "\<exists>n'. walk_mut (split_path lc device_map_path) (device_map_entry lc guid i c k) = Some n' \<and>
    length (value_names n') = Suc (length (rvalues n')) \<and> \<not> node_ok n'"
proof -
  define nm' where "nm' = reg_name_new lc (backslashed ['''', ''Device'', ''Video''] @ to_dec i)"
  let ?v = "sz_value (backslashed ['''', ''Registry'', ''Machine'', ''System'', ''CurrentControlSet'', ''Control'', ''Video'', ''{''] @ guid @
          backslashed [''}'', ''Sources'', ''''] @ cd_name c)"
  let ?n = "push_value nm' ?v n"
  have w: "walk_mut (split_path lc device_map_path) (device_map_entry lc guid i c k) = Some ?n"
    unfolding device_map_entry_def at_path_def nm'_def by (rule ce.edit_target[OF assms(1)])
  have "hm_names (rvalues ?n) = hm_names (rvalues n)"
    using assms(3) by (simp add: push_value_def hm_names_insert nm'_def del: map_map)
  from arg_cong[OF this, of length] have "length (rvalues ?n) = length (rvalues n)" by simp
  then have l: "length (value_names ?n) = Suc (length (rvalues ?n))"
    by (simp add: push_value_def node_ok_lengths[OF assms(2)])
  then have "\<not> node_ok ?n" using node_ok_lengths[of ?n] by auto
  with w l show ?thesis by blast
qed

section \<open>Keys written below a symbolic link\<close>

definition control_set :: "lower_fun \<Rightarrow> string \<Rightarrow> path" where
  "control_set lc s = map (reg_name_new lc \<circ> lit) [''Registry'', ''Machine'', ''System'', s]"

text \<open>\<^verbatim>\<open>CurrentControlSet\<close> is a link to \<^verbatim>\<open>ControlSet001\<close>, as \<^verbatim>\<open>init_runtime_keys\<close> makes it, and no link is in the way.\<close>

definition current_is_link :: "lower_fun \<Rightarrow> reg_key \<Rightarrow> bool" where
  "current_is_link lc k \<longleftrightarrow>
     (case walk_mut (control_set lc ''CurrentControlSet'') k of None \<Rightarrow> False
      | Some n \<Rightarrow> link_target lc n = Some (control_set lc ''ControlSet001'')) \<and>
     find_link lc k (control_set lc ''CurrentControlSet'') = Some (control_set lc ''ControlSet001'') \<and>
     key_exists k (control_set lc ''ControlSet001'') \<and> find_link lc k (control_set lc ''ControlSet001'') = None"

definition profiles_name :: "lower_fun \<Rightarrow> reg_name" where
  "profiles_name lc = reg_name_new lc (lit ''Hardware Profiles'')"

lemma link_target_stored:
  "walk_mut q k = Some n \<Longrightarrow> link_target lc n = (case stored k q (link_name lc) of
     Some v \<Rightarrow> if data_type v = 6 then Some (parse_key_path lc (data v)) else None | None \<Rightarrow> None)"
  by (simp add: link_target_def stored_def)

lemma find_link_cong:
  assumes "\<And>q. q \<noteq> [] \<Longrightarrow> prefix q p \<Longrightarrow> key_exists k' q = key_exists k q \<and> stored k' q (link_name lc) = stored k q (link_name lc)"
  shows "find_link lc k' p = find_link lc k p"
  using assms
proof (induction p arbitrary: k k')
  case (Cons s p)
  show ?case
  proof (cases "hm_get s (children k)")
    case None
    then have "hm_get s (children k') = None" using Cons.prems[of "[s]"] by (cases "hm_get s (children k')") auto
    with None show ?thesis by simp
  next
    case (Some c)
    then obtain c' where c': "hm_get s (children k') = Some c'" using Cons.prems[of "[s]"] by (cases "hm_get s (children k')") auto
    have "link_target lc c' = link_target lc c"
      using Cons.prems[of "[s]"] Some c' by (simp add: stored_Cons link_target_def)
    moreover have "find_link lc c' p = find_link lc c p"
    proof (rule Cons.IH)
      fix q assume "q \<noteq> []" "prefix q p"
      with Cons.prems[of "s # q"] Some c'
      show "key_exists c' q = key_exists c q \<and> stored c' q (link_name lc) = stored c q (link_name lc)"
        by (simp add: stored_Cons)
    qed
    ultimately show ?thesis using Some c' by (simp split: option.split)
  qed
qed simp

lemma find_link_append_free:
  "find_link lc k p = None \<Longrightarrow> walk_mut p k = Some n \<Longrightarrow> find_link lc k (p @ q) = find_link lc n q"
  by (induction p arbitrary: k) (auto split: option.splits if_splits)

text \<open>An edit at a path of more than four segments keeps the links among the first four levels.\<close>

lemma deep_edit_keeps:
  assumes f: "\<And>c. children (f c) = children c" and deep: "4 < length (split_path lc p)"
    and q: "length q \<le> 4"
  shows "stored (at_path lc p f k) q m = stored k q m"
proof -
  have "\<not> same_path q (split_path lc p)" using deep q by (auto simp: same_path_def dest: map_eq_imp_length_eq)
  then show ?thesis by (simp add: at_path_stored[OF f])
qed

lemma at_path_exists:
  assumes "\<And>c. children (f c) = children c"
  shows "key_exists (at_path lc p f k) q \<longleftrightarrow> key_exists k q \<or> prefix (map lower q) (map lower (split_path lc p))"
  using create_exists[OF assms] by (simp add: at_path_def)

lemma control_set_prefix: "q \<noteq> [] \<Longrightarrow> prefix q (control_set lc s) \<Longrightarrow> length q \<le> 4"
  by (auto simp: control_set_def dest: prefix_length_le)

lemma deep_edit_keeps_link:
  assumes f: "\<And>c. children (f c) = children c" and deep: "4 < length (split_path lc p)" and l: "current_is_link lc k"
  shows "current_is_link lc (at_path lc p f k)"
proof -
  let ?k = "at_path lc p f k" and ?c = "control_set lc ''CurrentControlSet''" and ?t = "control_set lc ''ControlSet001''"
  obtain n where n: "walk_mut ?c k = Some n" "link_target lc n = Some ?t" and fl: "find_link lc k ?c = Some ?t"
    and ex: "key_exists k ?t" "find_link lc k ?t = None"
    using l by (auto simp: current_is_link_def split: option.splits)
  have mono: "key_exists k q \<Longrightarrow> key_exists ?k q" for q by (simp add: at_path_exists[OF f])
  have up: "key_exists k q" if "prefix q p'" "key_exists k p'" for q p'
    using that by (auto simp: prefix_def key_exists_def walk_mut_append split: bind_splits)
  have ec: "key_exists k ?c" using n(1) by (simp add: key_exists_def)
  have same: "find_link lc ?k q = find_link lc k q" if "q = ?c \<or> q = ?t" for q
  proof (rule find_link_cong)
    fix q' assume q': "q' \<noteq> []" "prefix q' q"
    then have "length q' \<le> 4" using that control_set_prefix by blast
    then show "key_exists ?k q' = key_exists k q' \<and> stored ?k q' (link_name lc) = stored k q' (link_name lc)"
      using deep_edit_keeps[OF f deep] mono[of q'] up[OF q'(2)] that ec ex(1) by blast
  qed
  obtain n' where n': "walk_mut ?c ?k = Some n'" using mono[OF ec] by (auto simp: key_exists_def)
  have "length ?c \<le> 4" by (simp add: control_set_def)
  then have "link_target lc n' = Some ?t"
    using link_target_stored[OF n'] link_target_stored[OF n(1)] n(2) deep_edit_keeps[OF f deep, of ?c] by simp
  with n' same fl ex mono show ?thesis by (simp add: current_is_link_def)
qed

lemma edits_keep_children:
  "children (put_value n v c) = children c" "children (push_value n v c) = children c"
  "children (set_reg_sz lc a s c) = children c" "children (set_reg_dword lc a w c) = children c"
  "children (set_reg_binary lc a bs c) = children c"
  by (simp_all add: put_value_def push_value_def set_reg_sz_def set_reg_dword_def set_reg_binary_def)

lemma node_edits_keep_children:
  "children ((mode_values lc g i c md mt \<circ> source_values lc c) n) = children n"
  "children (mode_values lc g i c md mt n) = children n" "children (monitor_values lc i c n) = children n"
  "children (source_values lc c n) = children n"
  by (simp_all add: mode_values_def source_values_def monitor_values_def edits_keep_children)

text \<open>Where the edits of one output start.\<close>

lemma source_path_start:
  "\<exists>r. split_path lc (source_path guid name) = control_set lc ''ControlSet001'' @
     map (reg_name_new lc \<circ> lit) [''Control'', ''Video''] @ r"
  by (simp add: source_path_def control_set_def split_path_seg)

lemma monitor_path_start:
  "\<exists>r. split_path lc (monitor_path i c) = control_set lc ''ControlSet001'' @
     map (reg_name_new lc \<circ> lit) [''Enum'', ''DISPLAY''] @ r"
  by (simp add: monitor_path_def control_set_def split_path_seg)

lemma profile_path_start:
  "\<exists>r. split_path lc (profile_source_path guid name) = control_set lc ''CurrentControlSet'' @ profiles_name lc # r"
  by (simp add: profile_source_path_def control_set_def profiles_name_def split_path_seg)

lemma device_map_path_is:
  "split_path lc device_map_path =
     map (reg_name_new lc \<circ> lit) [''Registry'', ''Machine'', ''Hardware'', ''DeviceMap'', ''Video'']"
  by (simp add: device_map_path_def split_path_seg) (simp add: split_path_def split_on_single)

lemma lower_names_differ:
  assumes "lowers_ascii lc"
  shows "lc (lit ''Control'') \<noteq> lc (lit ''Hardware Profiles'')" "lc (lit ''Enum'') \<noteq> lc (lit ''Hardware Profiles'')"
    "lc (lit ''CurrentControlSet'') \<noteq> lc (lit ''ControlSet001'')" "lc (lit ''Hardware'') \<noteq> lc (lit ''System'')"
    "is_ascii (lc (lit ''Hardware Profiles''))"
proof -
  have "is_ascii (lit ''Control'')" "is_ascii (lit ''Hardware Profiles'')" "is_ascii (lit ''Enum'')"
    "is_ascii (lit ''CurrentControlSet'')" "is_ascii (lit ''ControlSet001'')" "is_ascii (lit ''Hardware'')" "is_ascii (lit ''System'')"
    by code_simp+
  with assms have eq: "lc (lit ''Control'') = ascii_lower (lit ''Control'')"
    "lc (lit ''Hardware Profiles'') = ascii_lower (lit ''Hardware Profiles'')" "lc (lit ''Enum'') = ascii_lower (lit ''Enum'')"
    "lc (lit ''CurrentControlSet'') = ascii_lower (lit ''CurrentControlSet'')"
    "lc (lit ''ControlSet001'') = ascii_lower (lit ''ControlSet001'')" "lc (lit ''Hardware'') = ascii_lower (lit ''Hardware'')"
    "lc (lit ''System'') = ascii_lower (lit ''System'')"
    by (simp_all add: lowers_ascii_def)
  show "lc (lit ''Control'') \<noteq> lc (lit ''Hardware Profiles'')" unfolding eq by code_simp
  show "lc (lit ''Enum'') \<noteq> lc (lit ''Hardware Profiles'')" unfolding eq by code_simp
  show "lc (lit ''CurrentControlSet'') \<noteq> lc (lit ''ControlSet001'')" unfolding eq by code_simp
  show "lc (lit ''Hardware'') \<noteq> lc (lit ''System'')" unfolding eq by code_simp
  show "is_ascii (lc (lit ''Hardware Profiles''))" unfolding eq by code_simp
qed

lemma apply_connector_edits:
  assumes "apply_connector lc dd (i, c) k = Some k'"
  obtains md mt where "k' = (if i > 0 then device_map_entry lc (gpu_guid dd) i c else id)
    (at_path lc (monitor_path i c) (monitor_values lc i c)
      (at_path lc (profile_source_path (gpu_guid dd) (cd_name c)) (mode_values lc (gpu dd) i c md mt)
        (at_path lc (source_path (gpu_guid dd) (cd_name c)) (mode_values lc (gpu dd) i c md mt \<circ> source_values lc c) k)))"
  using assms by (auto simp: apply_connector_def Let_def bind_eq_Some_conv intro!: that split: if_splits)

lemma apply_connector_keeps_link:
  assumes "apply_connector lc dd (i, c) k = Some k'" and "current_is_link lc k"
  shows "current_is_link lc k' \<and> key_exists k' (split_path lc (profile_source_path (gpu_guid dd) (cd_name c)))"
proof -
  let ?g = "gpu_guid dd" and ?n = "cd_name c"
  obtain md mt where k': "k' = (if i > 0 then device_map_entry lc ?g i c else id)
    (at_path lc (monitor_path i c) (monitor_values lc i c) (at_path lc (profile_source_path ?g ?n) (mode_values lc (gpu dd) i c md mt)
        (at_path lc (source_path ?g ?n) (mode_values lc (gpu dd) i c md mt \<circ> source_values lc c) k)))"
    by (rule apply_connector_edits[OF assms(1)])
  have deep: "4 < length (split_path lc (source_path ?g ?n))" "4 < length (split_path lc (profile_source_path ?g ?n))"
    "4 < length (split_path lc (monitor_path i c))" "4 < length (split_path lc device_map_path)"
    using source_path_start[of lc ?g ?n] profile_path_start[of lc ?g ?n] monitor_path_start[of lc i c] device_map_path_is[of lc]
    by (auto simp: control_set_def)
  let ?k1 = "at_path lc (monitor_path i c) (monitor_values lc i c) (at_path lc (profile_source_path ?g ?n) (mode_values lc (gpu dd) i c md mt)
        (at_path lc (source_path ?g ?n) (mode_values lc (gpu dd) i c md mt \<circ> source_values lc c) k))"
  have l1: "current_is_link lc ?k1"
    using deep assms(2) by (intro deep_edit_keeps_link node_edits_keep_children) simp_all
  have e1: "key_exists ?k1 (split_path lc (profile_source_path ?g ?n))"
    by (simp add: at_path_exists node_edits_keep_children)
  show ?thesis
  proof (cases "i > 0")
    case True
    then show ?thesis using k' l1 e1 deep(4)
      by (simp add: device_map_entry_def deep_edit_keeps_link at_path_exists edits_keep_children)
  qed (use k' l1 e1 in simp)
qed

lemma apply_connector_no_profiles:
  assumes "lowers_ascii lc" and "apply_connector lc dd (i, c) k = Some k'"
    and "\<not> key_exists k (control_set lc ''ControlSet001'' @ [profiles_name lc])"
  shows "\<not> key_exists k' (control_set lc ''ControlSet001'' @ [profiles_name lc])"
proof -
  let ?g = "gpu_guid dd" and ?n = "cd_name c" and ?q = "control_set lc ''ControlSet001'' @ [profiles_name lc]"
  note ne = lower_names_differ[OF assms(1)]
  have no: "\<not> prefix (map lower ?q) (map lower (split_path lc (source_path ?g ?n)))"
    "\<not> prefix (map lower ?q) (map lower (split_path lc (profile_source_path ?g ?n)))"
    "\<not> prefix (map lower ?q) (map lower (split_path lc (monitor_path i c)))"
    "\<not> prefix (map lower ?q) (map lower (split_path lc device_map_path))"
    using source_path_start[of lc ?g ?n] profile_path_start[of lc ?g ?n] monitor_path_start[of lc i c] device_map_path_is[of lc] ne
    by (auto simp: control_set_def profiles_name_def reg_name_new_def)
  obtain md mt where k': "k' = (if i > 0 then device_map_entry lc ?g i c else id)
    (at_path lc (monitor_path i c) (monitor_values lc i c) (at_path lc (profile_source_path ?g ?n) (mode_values lc (gpu dd) i c md mt)
        (at_path lc (source_path ?g ?n) (mode_values lc (gpu dd) i c md mt \<circ> source_values lc c) k)))"
    by (rule apply_connector_edits[OF assms(2)])
  show ?thesis using assms(3) no unfolding k'
    by (cases "0 < i") (simp_all add: device_map_entry_def at_path_exists node_edits_keep_children edits_keep_children del: map_append)
qed

text \<open>
  The mode list of an output is also written under \<^verbatim>\<open>CurrentControlSet\Hardware Profiles\<close>, but below the link key
  itself: resolving that path follows the link to \<^verbatim>\<open>ControlSet001\<close>, where nothing was written, so a client that
  looks the key up does not find it although it is in the tree.
\<close>

theorem profile_modes_unreachable:
  assumes "lowers_ascii lc" and "current_is_link lc k" and "apply_connector lc dd (i, c) k = Some k'"
    and "\<not> key_exists k (control_set lc ''ControlSet001'' @ [profiles_name lc])"
    and "p = split_path lc (profile_source_path (gpu_guid dd) (cd_name c))"
  shows "key_exists k' p \<and> walk lc k' (follow_symlink lc k' p) = Some None"
proof -
  let ?c = "control_set lc ''CurrentControlSet''" and ?t = "control_set lc ''ControlSet001''"
  have kl: "current_is_link lc k'" and ex: "key_exists k' p"
    using apply_connector_keeps_link[OF assms(3,2)] assms(5) by simp_all
  obtain r where p: "p = ?c @ profiles_name lc # r" using profile_path_start[of lc] assms(5) by metis
  obtain n where n: "walk_mut ?c k' = Some n" "link_target lc n = Some ?t" and fl: "find_link lc k' ?c = Some ?t"
    and et: "key_exists k' ?t" "find_link lc k' ?t = None"
    using kl by (auto simp: current_is_link_def split: option.splits)
  have tne: "?t \<noteq> []" by (simp add: control_set_def)
  have f1: "find_link lc k' p = Some (?t @ profiles_name lc # r)"
    unfolding p by (rule find_link_at[OF n tne]) (simp add: fl)
  obtain m where m: "walk_mut ?t k' = Some m" using et(1) by (auto simp: key_exists_def)
  have miss: "hm_get (profiles_name lc) (children m) = None"
    using apply_connector_no_profiles[OF assms(1,3,4)] m
    by (cases "hm_get (profiles_name lc) (children m)") (simp_all add: key_exists_def walk_mut_append)
  have f2: "find_link lc k' (?t @ profiles_name lc # r) = None"
    using find_link_append_free[OF et(2) m, of "profiles_name lc # r"] miss by simp
  have fs: "follow_symlink lc k' p = ?t @ profiles_name lc # r"
    by (simp add: follow_symlink_def numeral_eq_Suc f1 f2)
  have "\<not> near_match_panics (profiles_name lc) m"
    using lower_names_differ(5)[OF assms(1)]
    by (simp add: near_match_panics_def profiles_name_def reg_name_new_def ascii_prefix)
  then have "walk_down (profiles_name lc # r) m = Some None" using miss by simp
  moreover have "walk_down (a @ b) k' = walk_down b m" if "walk_mut a k' = Some m" for a b
    using that by (induction a arbitrary: k') (auto split: option.splits)
  ultimately have "walk_down (?t @ profiles_name lc # r) k' = Some None" using m by simp
  then show ?thesis using ex fs by (simp add: walk_missing)
qed

definition linked_root :: reg_key where
  "linked_root = walk_mut_create (control_set ascii_lower ''ControlSet001'') id (init_link ascii_lower key_new)"

theorem profile_modes_unreachable_witness:
  "\<exists>k' dd c. apply_connector ascii_lower dd (0, c) linked_root = Some k' \<and>
     walk ascii_lower k' (follow_symlink ascii_lower k' (split_path ascii_lower (profile_source_path (gpu_guid dd) (cd_name c)))) = Some None"
proof -
  let ?c = "seen_connector [] (sample_output [])"
  let ?dd = "\<lparr>gpu = seen_gpu sample_gpu, connectors = [?c], driver_choice = 1, dd_session_type = 1\<rparr>"
  obtain k' where k': "apply_connector ascii_lower ?dd (0, ?c) linked_root = Some k'"
    using apply_connectors_total[of ascii_lower ?dd "[(0, ?c)]" linked_root] by (auto simp: bind_eq_Some_conv)
  have "current_is_link ascii_lower linked_root" by code_simp
  moreover have "\<not> key_exists linked_root (control_set ascii_lower ''ControlSet001'' @ [profiles_name ascii_lower])" by code_simp
  ultimately show ?thesis using profile_modes_unreachable[OF lowers_ascii_ascii _ k' _ refl] k' by blast
qed

definition device_map_sample :: reg_key where
  "device_map_sample = device_map_entry ascii_lower [] 1 (seen_connector [] (sample_output [])) key_new"

theorem device_map_name_listed_twice_witness:
  "\<exists>n'. walk_mut (split_path ascii_lower device_map_path)
      (device_map_entry ascii_lower [] 1 (seen_connector [] (sample_output [])) device_map_sample) = Some n' \<and> \<not> node_ok n'"
proof -
  let ?nm = "reg_name_new ascii_lower (backslashed ['''', ''Device'', ''Video''] @ to_dec 1)"
  obtain n v where n: "walk_mut (split_path ascii_lower device_map_path) device_map_sample = Some n" and nv: "n = push_value ?nm v key_new"
    by (simp add: device_map_sample_def device_map_entry_def at_path_def create_target)
      (simp add: device_map_path_is key_new_def)
  have "node_ok n" by (simp add: nv push_value_def key_new_def node_ok_def)
  moreover have "hm_get ?nm (rvalues n) \<noteq> None" by (simp add: nv push_value_def)
  ultimately show ?thesis using device_map_name_listed_twice[OF n] by blast
qed

end
