(* ===== verification/Ipc.thy ===== *)
theory Ipc
  imports Prelude
begin

text \<open>
  Client connections (\<^verbatim>\<open>triskelion/ipc.rs\<close>) and the message headers
  (\<^verbatim>\<open>triskelion/protocol.rs\<close>): the per-connection record of the server, the queue of
  descriptors received for it, the connection handshake and the descriptors closed
  when the record is dropped.

  Results of system calls are arguments.  A sequence of calls is the list of the
  descriptors closed, in order.
\<close>

subsection \<open>Message headers\<close>

type_synonym i32 = "32 word"

record request_header =
  req :: i32
  request_size :: u32
  reply_size :: u32

record reply_header =
  rh_error :: u32
  rh_reply_size :: u32

definition HEADER_LEN :: nat where
  "HEADER_LEN = 12"

text \<open>\<^verbatim>\<open>ptr::read_unaligned(buf as *const RequestHeader)\<close> of a \<^verbatim>\<open>repr(C)\<close> struct of three 32-bit
  fields, and the bytes of such a struct.\<close>

definition read_header :: "bytes \<Rightarrow> request_header option" where
  "read_header b = do {
     r \<leftarrow> rd_u32 0 b;
     q \<leftarrow> rd_u32 4 b;
     p \<leftarrow> rd_u32 8 b;
     Some \<lparr>req = r, request_size = q, reply_size = p\<rparr> }"

definition header_bytes :: "request_header \<Rightarrow> bytes" where
  "header_bytes h = u32_to_le (req h) @ u32_to_le (request_size h) @ u32_to_le (reply_size h)"

subsection \<open>Per-client state\<close>

type_synonym inflight = "u32 \<times> int \<times> fd"

record client =
  c_fd :: fd
  c_msg_fd :: fd
  c_reply_fd :: "fd option"
  process_id :: u32
  thread_id :: u32
  suspend_cookie :: u64
  current_wait_cookie :: u64
  pending_fd :: "(fd \<times> u32) option"
  inflight_fds :: "inflight list"
  wait_fd :: "fd option"
  queue_locator :: bytes
  input_locator :: bytes
  queue_handle :: u32
  teb :: u64
  entry_point :: u64
  unix_pid :: i32
  unix_tid :: i32
  queue_fd :: "fd option"
  is_phantom :: bool
  is_msg_primary :: bool

definition client_new :: "fd \<Rightarrow> fd \<Rightarrow> client" where
  "client_new request_fd msg_fd =
     \<lparr>c_fd = request_fd, c_msg_fd = msg_fd, c_reply_fd = None, process_id = 0, thread_id = 0,
      suspend_cookie = 0, current_wait_cookie = 0, pending_fd = None, inflight_fds = [],
      wait_fd = None, queue_locator = replicate 16 0, input_locator = replicate 16 0,
      queue_handle = 0, teb = 0, entry_point = 0, unix_pid = 0, unix_tid = 0,
      queue_fd = None, is_phantom = False, is_msg_primary = True\<rparr>"

definition take_inflight_fd :: "client \<Rightarrow> fd option \<times> client" where
  "take_inflight_fd c =
     (case inflight_fds c of [] \<Rightarrow> (None, c)
      | (_, _, f) # r \<Rightarrow> (Some f, c\<lparr>inflight_fds := r\<rparr>))"

text \<open>\<^verbatim>\<open>iter().position(..)\<close> followed by \<^verbatim>\<open>remove(pos)\<close>.\<close>

fun take_numbered :: "int \<Rightarrow> inflight list \<Rightarrow> (fd \<times> inflight list) option" where
  "take_numbered n [] = None"
| "take_numbered n ((t, m, f) # r) =
     (if m = n then Some (f, r) else map_option (\<lambda>(g, q). (g, (t, m, f) # q)) (take_numbered n r))"

definition take_inflight_fd_by_number :: "client \<Rightarrow> int \<Rightarrow> fd option \<times> client" where
  "take_inflight_fd_by_number c n =
     (case take_numbered n (inflight_fds c) of None \<Rightarrow> (None, c)
      | Some (f, r) \<Rightarrow> (Some f, c\<lparr>inflight_fds := r\<rparr>))"

text \<open>\<^verbatim>\<open>impl Drop for Client\<close>: the descriptors it closes.\<close>

definition opt_list :: "'a option \<Rightarrow> 'a list" where
  "opt_list m = (case m of None \<Rightarrow> [] | Some x \<Rightarrow> [x])"

definition client_drop :: "client \<Rightarrow> fd list" where
  "client_drop c = opt_list (c_reply_fd c) @ opt_list (wait_fd c) @ opt_list (queue_fd c)
     @ map (\<lambda>(_, _, f). f) (inflight_fds c)"

text \<open>The handshake on a connected socket: \<open>pipe\<close> is the result of \<^verbatim>\<open>pipe2\<close> (read end,
  write end), \<open>sent\<close> that of \<^verbatim>\<open>send_fd\<close>, \<open>dupd\<close> that of \<^verbatim>\<open>dup\<close>.  The result is the client,
  if there is one, and the descriptors closed.\<close>

definition setup_client_on_socket ::
    "fd \<Rightarrow> (fd \<times> fd) option \<Rightarrow> int \<Rightarrow> fd \<Rightarrow> (client \<times> fd) option \<times> fd list" where
  "setup_client_on_socket socket_fd pipe sent dupd =
     (case pipe of None \<Rightarrow> (None, [])
      | Some (r, w) \<Rightarrow>
        if sent < 0 then (None, [r, w])
        else if dupd < 0 then (None, [w, r])
        else (Some (client_new dupd socket_fd, socket_fd), [w, r]))"

subsection \<open>Facts\<close>

lemma read_header_None_iff [simp]: "read_header b = None \<longleftrightarrow> length b < HEADER_LEN"
  by (auto simp: read_header_def HEADER_LEN_def bind_eq_None_conv)

lemma header_bytes_length [simp]: "length (header_bytes h) = HEADER_LEN"
  by (simp add: header_bytes_def HEADER_LEN_def)

lemma rd_u32_append: "off + 4 \<le> length b \<Longrightarrow> rd_u32 off (b @ c) = rd_u32 off b"
  by (simp add: rd_u32_def slice_def)

lemma read_header_append: "HEADER_LEN \<le> length b \<Longrightarrow> read_header (b @ c) = read_header b"
  by (simp add: read_header_def HEADER_LEN_def rd_u32_append)

lemma read_header_bytes: "read_header (header_bytes h @ b) = Some h"
  by (simp add: read_header_def header_bytes_def rd_u32_def slice_def)

lemma take_numbered_Some:
  "take_numbered n xs = Some (f, r) \<Longrightarrow>
     \<exists>a t b. xs = a @ (t, n, f) # b \<and> r = a @ b \<and> (\<forall>x\<in>set a. fst (snd x) \<noteq> n)"
proof (induction xs arbitrary: r)
  case (Cons x xs)
  obtain t m g where x: "x = (t, m, g)" by (cases x)
  show ?case
  proof (cases "m = n")
    case True
    then show ?thesis using Cons.prems x by (intro exI[of _ "[]"]) auto
  next
    case False
    then obtain q where q: "take_numbered n xs = Some (f, q)" "r = x # q"
      using Cons.prems x by auto
    from Cons.IH[OF q(1)] obtain a t' b where
      "xs = a @ (t', n, f) # b" "q = a @ b" "\<forall>y\<in>set a. fst (snd y) \<noteq> n" by blast
    then show ?thesis using q(2) x False by (intro exI[of _ "x # a"]) auto
  qed
qed simp

lemma take_numbered_None: "take_numbered n xs = None \<longleftrightarrow> (\<forall>x\<in>set xs. fst (snd x) \<noteq> n)"
  by (induction n xs rule: take_numbered.induct) (auto split: if_splits)

end
