(* ===== verification/Csp.thy ===== *)
theory Csp
  imports Ipc
begin

text \<open>
  The two server threads (\<^verbatim>\<open>triskelion/csp_loop.rs\<close>).  The I/O thread owns every
  descriptor: it accepts connections, cuts the byte stream of each client into
  requests, attaches the descriptors received beside it and executes the effects of
  a reply.  The authority thread owns the server state: it registers and removes
  clients, dispatches requests and decides when the idle server stops.  They talk
  over two bounded channels.

  The tables of the I/O thread are maps.  Results of system calls are arguments, the
  calls made are appended to \<open>calls\<close>.  A handler returns the messages it sends.  The
  request handlers behind \<^verbatim>\<open>EventLoop::dispatch\<close> and \<^verbatim>\<open>disconnect_client\<close> are
  function arguments of the authority.
\<close>

section \<open>Messages\<close>

record request_msg =
  rm_client :: fd
  rm_header :: request_header
  rm_buf :: bytes
  rm_inflight :: "inflight list"
  rm_msg_fd :: fd

datatype effect =
  RegisterClient fd fd bool
| SendFd fd fd u32
| WatchPipeFd fd fd
| WatchQueueFd fd u64 u32 fd
| RearmQueueFd fd

record reply_msg =
  pm_client :: fd
  pm_reply :: bytes
  pm_reply_fd :: "fd option"
  pm_effects :: "effect list"

section \<open>I/O thread\<close>

datatype syscall =
  Close fd
| EpollAdd fd
| EpollAddOneshot fd
| EpollRearm fd
| EpollDel fd
| SetNonblocking fd
| SendMsg fd fd u32
| Write fd bytes
| EventSet fd

record io_client =
  ic_msg_fd :: fd
  recv_buf :: bytes

text \<open>The part of a queue's shared object the I/O thread writes.\<close>

record queue_object =
  q_seq :: u64
  internal_bits :: u32

record io_state =
  io_clients :: "fd \<rightharpoonup> io_client"
  msg_fd_clients :: "fd \<rightharpoonup> fd list"
  pending_fds :: "fd \<rightharpoonup> inflight list"
  client_reply_fds :: "fd \<rightharpoonup> fd"
  pipe_watchers :: "fd \<rightharpoonup> fd"
  queue_fd_watchers :: "fd \<rightharpoonup> u64 \<times> fd"
  queue_shm :: "u64 \<Rightarrow> queue_object"
  calls :: "syscall list"

definition io_init :: "(u64 \<Rightarrow> queue_object) \<Rightarrow> io_state" where
  "io_init shm = \<lparr>io_clients = Map.empty, msg_fd_clients = Map.empty, pending_fds = Map.empty,
     client_reply_fds = Map.empty, pipe_watchers = Map.empty, queue_fd_watchers = Map.empty,
     queue_shm = shm, calls = []\<rparr>"

definition sys :: "syscall list \<Rightarrow> io_state \<Rightarrow> io_state" where
  "sys cs st = st\<lparr>calls := calls st @ cs\<rparr>"

text \<open>\<^verbatim>\<open>map.entry(k).or_default()\<close> extended by \<open>xs\<close>.\<close>

definition or_default :: "'v list option \<Rightarrow> 'v list" where
  "or_default m = (case m of None \<Rightarrow> [] | Some l \<Rightarrow> l)"

definition push_entry :: "'k \<Rightarrow> 'v list \<Rightarrow> ('k \<rightharpoonup> 'v list) \<Rightarrow> ('k \<rightharpoonup> 'v list)" where
  "push_entry k xs m = m(k \<mapsto> or_default (m k) @ xs)"

subsection \<open>Accepting a connection\<close>

definition control_header :: "i32 \<Rightarrow> request_header" where
  "control_header r = \<lparr>req = r, request_size = 0, reply_size = 0\<rparr>"

definition add_io_client :: "fd \<Rightarrow> fd \<Rightarrow> io_state \<Rightarrow> io_state" where
  "add_io_client request_fd msg_fd st =
     st\<lparr>io_clients := (io_clients st)(request_fd \<mapsto> \<lparr>ic_msg_fd = msg_fd, recv_buf = []\<rparr>),
        msg_fd_clients := push_entry msg_fd [request_fd] (msg_fd_clients st)\<rparr>"

definition handle_accept ::
    "u32 \<Rightarrow> fd \<Rightarrow> (fd \<times> fd) option \<Rightarrow> int \<Rightarrow> fd \<Rightarrow> io_state \<Rightarrow> request_msg list \<times> io_state" where
  "handle_accept version accepted pipe sent dupd st =
     (if accepted < 0 then ([], st)
      else case pipe of
        None \<Rightarrow> ([], sys [SetNonblocking accepted, Close accepted] st)
      | Some (r, w) \<Rightarrow>
        if sent < 0
        then ([], sys [SetNonblocking accepted, SendMsg accepted w version,
                       Close accepted, Close r, Close w] st)
        else if dupd < 0
        then ([], sys [SetNonblocking accepted, SendMsg accepted w version,
                       Close w, Close r, Close accepted] st)
        else ([\<lparr>rm_client = dupd, rm_header = control_header (- 1), rm_buf = [], rm_inflight = [],
                rm_msg_fd = accepted\<rparr>],
              add_io_client dupd accepted
                (sys [SetNonblocking accepted, SendMsg accepted w version, Close w, Close r,
                      SetNonblocking dupd, EpollAdd dupd, EpollAdd accepted] st)))"

subsection \<open>Descriptors received beside the requests\<close>

text \<open>One result of \<^verbatim>\<open>recvmsg\<close>: its return value, the data and the descriptors of its
  \<^verbatim>\<open>SCM_RIGHTS\<close> blocks.  A list of results ends where the socket has nothing more.\<close>

record received =
  rx_n :: int
  rx_data :: bytes
  rx_fds :: "fd list"

definition tag_fd :: "received \<Rightarrow> fd \<Rightarrow> inflight" where
  "tag_fd r f =
     (if 8 \<le> rx_n r
      then (u32_from_le (take 4 (rx_data r)), sint (u32_from_le (take 4 (drop 4 (rx_data r)))), f)
      else (0, f, f))"

fun drain_received :: "received list \<Rightarrow> inflight list" where
  "drain_received [] = []"
| "drain_received (r # rs) = (if rx_n r \<le> 0 then [] else map (tag_fd r) (rx_fds r) @ drain_received rs)"

definition drain_msg_fd :: "fd \<Rightarrow> received list \<Rightarrow> (fd \<rightharpoonup> inflight list) \<Rightarrow> (fd \<rightharpoonup> inflight list)" where
  "drain_msg_fd m rs pend =
     (let l = drain_received rs in if l = [] then pend else push_entry m l pend)"

subsection \<open>Losing a connection\<close>

definition disconnect_io_client :: "fd \<Rightarrow> io_state \<Rightarrow> io_state" where
  "disconnect_io_client f st =
     (let st = sys [EpollDel f] st;
          st = (case io_clients st f of
                  None \<Rightarrow> st
                | Some c \<Rightarrow>
                  let st = st\<lparr>io_clients := (io_clients st)(f := None)\<rparr>; m = ic_msg_fd c in
                  case msg_fd_clients st m of
                    None \<Rightarrow> st
                  | Some l \<Rightarrow>
                    let l' = filter (\<lambda>g. g \<noteq> f) l in
                    if l' = []
                    then sys [EpollDel m, Close m]
                           (st\<lparr>msg_fd_clients := (msg_fd_clients st)(m := None),
                               pending_fds := (pending_fds st)(m := None)\<rparr>)
                    else st\<lparr>msg_fd_clients := (msg_fd_clients st)(m \<mapsto> l')\<rparr>)
      in sys [Close f] (st\<lparr>client_reply_fds := (client_reply_fds st)(f := None)\<rparr>))"

subsection \<open>Reading requests\<close>

definition GENERIC_REQUEST :: nat where
  "GENERIC_REQUEST = 64"

definition total_size :: "request_header \<Rightarrow> nat" where
  "total_size h = GENERIC_REQUEST + unat (request_size h)"

text \<open>The body of the request loop: \<open>rx\<close> holds, per round, what the socket delivers.\<close>

function forward_requests ::
    "fd \<Rightarrow> fd \<Rightarrow> received list list \<Rightarrow> bytes \<Rightarrow> (fd \<rightharpoonup> inflight list)
      \<Rightarrow> request_msg list \<times> bytes \<times> (fd \<rightharpoonup> inflight list)" where
  "forward_requests f m rx buf pend =
     (case read_header buf of
        None \<Rightarrow> ([], buf, pend)
      | Some h \<Rightarrow>
        if length buf < total_size h then ([], buf, pend)
        else
          let pend1 = drain_msg_fd m (case rx of [] \<Rightarrow> [] | r # _ \<Rightarrow> r) pend;
              pend2 = (case pend1 m of None \<Rightarrow> pend1 | Some _ \<Rightarrow> pend1(m \<mapsto> []));
              (ms, rest, pend3) = forward_requests f m (tl rx) (drop (total_size h) buf) pend2
          in (\<lparr>rm_client = f, rm_header = h, rm_buf = take (total_size h) buf,
               rm_inflight = or_default (pend1 m), rm_msg_fd = - 1\<rparr> # ms, rest, pend3))"
  by pat_completeness auto
termination
  by (relation "measure (\<lambda>(_, _, _, buf, _). length buf)") (auto simp: total_size_def GENERIC_REQUEST_def)

definition handle_client_read ::
    "fd \<Rightarrow> int \<Rightarrow> bytes \<Rightarrow> received list list \<Rightarrow> io_state \<Rightarrow> request_msg list \<times> io_state" where
  "handle_client_read f n read_buf rx st =
     (if n \<le> 0
      then ([\<lparr>rm_client = f, rm_header = control_header (- 2), rm_buf = [], rm_inflight = [],
              rm_msg_fd = - 1\<rparr>], disconnect_io_client f st)
      else case io_clients st f of
        None \<Rightarrow> ([], st)
      | Some c \<Rightarrow>
        let (ms, rest, pend) = forward_requests f (ic_msg_fd c) rx
                                 (recv_buf c @ take (nat n) read_buf) (pending_fds st)
        in (ms, st\<lparr>io_clients := (io_clients st)(f \<mapsto> c\<lparr>recv_buf := rest\<rparr>), pending_fds := pend\<rparr>))"

subsection \<open>Executing a reply\<close>

definition QS_DRIVER :: u32 where
  "QS_DRIVER = 0x80000000"

text \<open>The three stores of an update of \<^verbatim>\<open>internal_bits\<close> under the sequence counter: the
  list of the object's successive contents.\<close>

definition seq_writes :: "(u32 \<Rightarrow> u32) \<Rightarrow> queue_object \<Rightarrow> queue_object list" where
  "seq_writes g q =
     (let old = q_seq q;
          q1 = q\<lparr>q_seq := old OR 1\<rparr>;
          q2 = q1\<lparr>internal_bits := g (internal_bits q1)\<rparr>;
          q3 = q2\<lparr>q_seq := (old AND NOT 1) + 2\<rparr>
      in [q1, q2, q3])"

definition set_driver_bit :: "u64 \<Rightarrow> io_state \<Rightarrow> io_state" where
  "set_driver_bit p st =
     st\<lparr>queue_shm := (queue_shm st)(p := last (seq_writes (\<lambda>b. b OR QS_DRIVER) (queue_shm st p)))\<rparr>"

definition clear_driver_bit :: "u64 \<Rightarrow> io_state \<Rightarrow> io_state" where
  "clear_driver_bit p st =
     st\<lparr>queue_shm := (queue_shm st)(p := last (seq_writes (\<lambda>b. b AND NOT QS_DRIVER) (queue_shm st p)))\<rparr>"

fun execute_effect :: "effect \<Rightarrow> io_state \<Rightarrow> io_state" where
  "execute_effect (RegisterClient request_fd msg_fd primary) st =
     (if io_clients st request_fd \<noteq> None then st
      else
        let fresh = primary \<and> msg_fd_clients st msg_fd = None in
        add_io_client request_fd msg_fd
          (sys ([SetNonblocking request_fd, EpollAdd request_fd]
                @ (if fresh then [SetNonblocking msg_fd, EpollAdd msg_fd] else [])) st))"
| "execute_effect (SendFd target_fd fd_to_send version) st =
     sys [SendMsg target_fd fd_to_send version, Close fd_to_send] st"
| "execute_effect (WatchPipeFd pipe_fd ntsync_fd) st =
     (case pipe_watchers st pipe_fd of
        None \<Rightarrow> sys [EpollAdd pipe_fd] (st\<lparr>pipe_watchers := (pipe_watchers st)(pipe_fd \<mapsto> ntsync_fd)\<rparr>)
      | Some old_fd \<Rightarrow>
        sys (if old_fd \<noteq> ntsync_fd then [Close old_fd] else [])
          (st\<lparr>pipe_watchers := (pipe_watchers st)(pipe_fd \<mapsto> ntsync_fd)\<rparr>))"
| "execute_effect (WatchQueueFd q shm_ptr handle ntsync_event_fd) st =
     (if queue_fd_watchers st q \<noteq> None then st
      else sys [EpollAddOneshot q]
             (st\<lparr>queue_fd_watchers := (queue_fd_watchers st)(q \<mapsto> (shm_ptr, ntsync_event_fd))\<rparr>))"
| "execute_effect (RearmQueueFd q) st =
     (case queue_fd_watchers st q of
        None \<Rightarrow> st
      | Some (shm_ptr, _) \<Rightarrow> sys [EpollRearm q] (clear_driver_bit shm_ptr st))"

text \<open>The write loop.  \<open>wr k\<close> is the result of the \<^verbatim>\<open>write\<close> made when \<open>k\<close> bytes are out;
  \<open>k\<close> grows from one call to the next, so the calls are told apart by it.\<close>

function write_loop :: "(nat \<Rightarrow> int) \<Rightarrow> fd \<Rightarrow> bytes \<Rightarrow> nat \<Rightarrow> syscall list" where
  "write_loop wr target data written =
     (if written < length data
      then let n = wr written in
        if n \<le> 0 then []
        else Write target (take (nat n) (drop written data)) # write_loop wr target data (written + nat n)
      else [])"
  by pat_completeness auto
termination
  by (relation "measure (\<lambda>(_, _, data, written). length data - written)") auto

definition execute_reply :: "(nat \<Rightarrow> int) \<Rightarrow> reply_msg \<Rightarrow> io_state \<Rightarrow> io_state" where
  "execute_reply wr pm st =
     (let f = pm_client pm;
          st = fold execute_effect (pm_effects pm) st;
          st = (case pm_reply_fd pm of None \<Rightarrow> st
                | Some r \<Rightarrow> st\<lparr>client_reply_fds := (client_reply_fds st)(f \<mapsto> r)\<rparr>);
          target = (case client_reply_fds st f of None \<Rightarrow> f | Some r \<Rightarrow> r)
      in sys (write_loop wr target (pm_reply pm) 0) st)"

subsection \<open>The event loop\<close>

record io_fds =
  listener_fd :: fd
  sig_fd :: fd
  shutdown_read :: fd
  wake_read :: fd
  death_fd :: fd

text \<open>The results of the system calls made while one event is handled.\<close>

record os_results =
  os_accept :: fd
  os_pipe :: "(fd \<times> fd) option"
  os_send :: int
  os_dup :: fd
  os_read :: int
  os_buf :: bytes
  os_recv :: "received list"
  os_recvs :: "received list list"

record io_outcome =
  oc_sent :: "request_msg list"
  oc_shutdown :: bool
  oc_break :: bool

definition quiet :: io_outcome where
  "quiet = \<lparr>oc_sent = [], oc_shutdown = False, oc_break = False\<rparr>"

definition handle_event ::
    "u32 \<Rightarrow> io_fds \<Rightarrow> fd \<Rightarrow> os_results \<Rightarrow> io_state \<Rightarrow> io_outcome \<times> io_state" where
  "handle_event version fs f os st =
     (if f = listener_fd fs
      then let (ms, st) = handle_accept version (os_accept os) (os_pipe os) (os_send os) (os_dup os) st
           in (quiet\<lparr>oc_sent := ms\<rparr>, st)
      else if f = sig_fd fs then (quiet\<lparr>oc_shutdown := 0 < os_read os\<rparr>, st)
      else if f = shutdown_read fs then (quiet\<lparr>oc_break := True\<rparr>, st)
      else if f = wake_read fs then (quiet, st)
      else if 0 \<le> death_fd fs \<and> f = death_fd fs then (quiet\<lparr>oc_shutdown := True\<rparr>, st)
      else if msg_fd_clients st f \<noteq> None
      then (quiet, st\<lparr>pending_fds := drain_msg_fd f (os_recv os) (pending_fds st)\<rparr>)
      else if io_clients st f \<noteq> None
      then let (ms, st) = handle_client_read f (os_read os) (os_buf os) (os_recvs os) st
           in (quiet\<lparr>oc_sent := ms\<rparr>, st)
      else case queue_fd_watchers st f of
        Some (shm_ptr, ntsync_fd) \<Rightarrow>
          (quiet, sys (if 0 \<le> ntsync_fd then [EventSet ntsync_fd] else []) (set_driver_bit shm_ptr st))
      | None \<Rightarrow>
        case pipe_watchers st f of
          Some ntsync_fd \<Rightarrow> (quiet, sys [EventSet ntsync_fd] st)
        | None \<Rightarrow> (quiet, st))"

fun handle_events ::
    "u32 \<Rightarrow> io_fds \<Rightarrow> (fd \<times> os_results) list \<Rightarrow> io_state \<Rightarrow> request_msg list \<times> bool \<times> io_state" where
  "handle_events version fs [] st = ([], False, st)"
| "handle_events version fs ((f, os) # es) st =
     (let (oc, st) = handle_event version fs f os st in
      if oc_break oc then (oc_sent oc, oc_shutdown oc, st)
      else let (ms, sd, st) = handle_events version fs es st
           in (oc_sent oc @ ms, oc_shutdown oc \<or> sd, st))"

definition MAX_EVENTS :: nat where
  "MAX_EVENTS = 64"

text \<open>One round of \<^verbatim>\<open>io_thread_main\<close>: the events of \<^verbatim>\<open>epoll_wait\<close>, then every reply
  waiting in the channel.  The second component is the new value of \<^verbatim>\<open>SHUTDOWN\<close>.\<close>

definition io_round ::
    "u32 \<Rightarrow> io_fds \<Rightarrow> (fd \<times> os_results) list \<Rightarrow> ((nat \<Rightarrow> int) \<times> reply_msg) list \<Rightarrow> bool \<Rightarrow> io_state
      \<Rightarrow> request_msg list \<times> bool \<times> io_state" where
  "io_round version fs es replies shutdown st =
     (let (ms, sd, st) = handle_events version fs es st
      in (ms, shutdown \<or> sd, fold (\<lambda>(wr, pm). execute_reply wr pm) replies st))"

text \<open>Leaving the loop.  The arguments are the orders in which the hash tables are
  iterated.\<close>

definition io_cleanup :: "fd list \<Rightarrow> fd list \<Rightarrow> fd list \<Rightarrow> fd list \<Rightarrow> fd \<Rightarrow> io_state \<Rightarrow> io_state" where
  "io_cleanup cs ms ps qs epoll_fd st =
     sys (map Close cs @ map Close ms @ map Close ps
          @ concat (map (\<lambda>q. case queue_fd_watchers st q of
                               None \<Rightarrow> []
                             | Some (_, e) \<Rightarrow> Close q # (if 0 \<le> e then [Close e] else [])) qs)
          @ [Close epoll_fd]) st"

section \<open>Authority thread\<close>

text \<open>The fields of \<^verbatim>\<open>EventLoop\<close> the request loop itself uses; components with further
  state extend the record.  \<open>clients\<close> is the hash table in its iteration order.  Times are
  milliseconds.\<close>

record authority =
  clients :: "(fd \<times> client) list"
  process_inflight_fds :: "u32 \<rightharpoonup> inflight list"
  peak_clients :: nat
  total_requests :: u64
  linger_deadline :: "nat option"
  linger_secs :: u64
  pending_pipe_watches :: "(fd \<times> fd) list"
  pending_queue_fd_watches :: "(fd \<times> u64 \<times> u32 \<times> fd) list"
  pending_queue_fd_rearms :: "fd list"
  closed :: "fd list"

datatype reply = Fixed bytes nat | Vararg bytes

definition serialize_reply :: "reply \<Rightarrow> bytes option" where
  "serialize_reply r = (case r of Fixed buf len \<Rightarrow> slice 0 len buf | Vararg v \<Rightarrow> Some v)"

fun put_client :: "fd \<Rightarrow> client \<Rightarrow> (fd \<times> client) list \<Rightarrow> (fd \<times> client) list" where
  "put_client f c [] = [(f, c)]"
| "put_client f c ((g, d) # r) = (if g = f then (f, c) # r else (g, d) # put_client f c r)"

abbreviation client_at :: "'a authority_scheme \<Rightarrow> fd \<Rightarrow> client option" where
  "client_at ev f \<equiv> map_of (clients ev) f"

definition pid_of :: "'a authority_scheme \<Rightarrow> fd \<Rightarrow> u32" where
  "pid_of ev f = (case client_at ev f of None \<Rightarrow> 0 | Some c \<Rightarrow> process_id c)"

definition track_peak_clients :: "'a authority_scheme \<Rightarrow> 'a authority_scheme" where
  "track_peak_clients ev =
     (if peak_clients ev < length (clients ev) then ev\<lparr>peak_clients := length (clients ev)\<rparr> else ev)"

text \<open>The message that registers an accepted connection.\<close>

definition register_client ::
    "fd \<Rightarrow> fd \<Rightarrow> fd set \<Rightarrow> 'a authority_scheme \<Rightarrow> fd set \<times> 'a authority_scheme" where
  "register_client f msg_fd known ev =
     (if client_at ev f \<noteq> None then (known, ev)
      else (insert f known,
            track_peak_clients (ev\<lparr>clients := put_client f (client_new f msg_fd) (clients ev)\<rparr>)))"

text \<open>The message that reports a lost connection; \<open>disconnect\<close> is
  \<^verbatim>\<open>EventLoop::disconnect_client\<close>.\<close>

definition drop_connection ::
    "(fd \<Rightarrow> 'a authority_scheme \<Rightarrow> 'a authority_scheme) \<Rightarrow> nat \<Rightarrow> fd \<Rightarrow> fd set \<Rightarrow> 'a authority_scheme
      \<Rightarrow> fd set \<times> 'a authority_scheme" where
  "drop_connection disconnect now f known ev =
     (let ev = disconnect f ev;
          ev = (if clients ev = []
                then if linger_deadline ev = None \<and> 0 < total_requests ev
                     then ev\<lparr>linger_deadline := Some (now + 1000 * unat (linger_secs ev))\<rparr> else ev
                else ev\<lparr>linger_deadline := None\<rparr>)
      in (known - {f}, ev))"

definition deposit_inflight ::
    "fd \<Rightarrow> inflight list \<Rightarrow> 'a authority_scheme \<Rightarrow> 'a authority_scheme" where
  "deposit_inflight f fds ev =
     (if fds = [] then ev
      else if pid_of ev f \<noteq> 0
      then ev\<lparr>process_inflight_fds := push_entry (pid_of ev f) fds (process_inflight_fds ev)\<rparr>
      else case client_at ev f of
        None \<Rightarrow> ev
      | Some c \<Rightarrow> ev\<lparr>clients := put_client f (c\<lparr>inflight_fds := inflight_fds c @ fds\<rparr>) (clients ev)\<rparr>)"

fun new_clients :: "(fd \<times> client) list \<Rightarrow> fd set \<Rightarrow> effect list \<times> fd set" where
  "new_clients [] known = ([], known)"
| "new_clients ((f, c) # r) known =
     (if \<not> is_phantom c \<and> f \<notin> known
      then let (es, known) = new_clients r (insert f known)
           in (RegisterClient f (c_msg_fd c) (is_msg_primary c) # es, known)
      else new_clients r known)"

text \<open>Taking the descriptor a handler left to be sent with the reply.\<close>

definition take_pending_fd ::
    "fd \<Rightarrow> 'a authority_scheme \<Rightarrow> effect list \<times> 'a authority_scheme" where
  "take_pending_fd f ev =
     (case client_at ev f of
        None \<Rightarrow> ([], ev)
      | Some c \<Rightarrow>
        case pending_fd c of
          None \<Rightarrow> ([], ev)
        | Some (p, version) \<Rightarrow>
          let ev = ev\<lparr>clients := put_client f (c\<lparr>pending_fd := None\<rparr>) (clients ev)\<rparr> in
          if 0 \<le> c_msg_fd c then ([SendFd (c_msg_fd c) p version], ev)
          else ([], ev\<lparr>closed := closed ev @ [p]\<rparr>))"

definition take_watches :: "'a authority_scheme \<Rightarrow> effect list \<times> 'a authority_scheme" where
  "take_watches ev =
     (map (\<lambda>(p, e). WatchPipeFd p e) (pending_pipe_watches ev)
      @ map (\<lambda>(q, s, h, e). WatchQueueFd q s h e) (pending_queue_fd_watches ev)
      @ map RearmQueueFd (pending_queue_fd_rearms ev),
      ev\<lparr>pending_pipe_watches := [], pending_queue_fd_watches := [], pending_queue_fd_rearms := []\<rparr>)"

text \<open>A request proper; \<open>None\<close> is the panic of slicing a fixed reply past its buffer.\<close>

definition serve_request ::
    "('a authority_scheme \<Rightarrow> fd \<Rightarrow> request_header \<Rightarrow> bytes \<Rightarrow> reply \<times> 'a authority_scheme)
      \<Rightarrow> request_msg \<Rightarrow> fd set \<Rightarrow> 'a authority_scheme
      \<Rightarrow> (reply_msg \<times> fd set \<times> 'a authority_scheme) option" where
  "serve_request dispatch msg known ev =
     (let f = rm_client msg;
          ev = deposit_inflight f (rm_inflight msg) ev;
          clients_before = length (clients ev);
          (reply, ev) = dispatch ev f (rm_header msg) (rm_buf msg);
          (regs, known) = (if clients_before < length (clients ev)
                           then new_clients (clients ev) known else ([], known));
          (sends, ev) = take_pending_fd f ev;
          (watches, ev) = take_watches ev
      in do {
        data \<leftarrow> serialize_reply reply;
        Some (\<lparr>pm_client = f, pm_reply = data,
               pm_reply_fd = Option.bind (client_at ev f) c_reply_fd,
               pm_effects = regs @ sends @ watches\<rparr>, known, ev) })"

definition process_request ::
    "('a authority_scheme \<Rightarrow> fd \<Rightarrow> request_header \<Rightarrow> bytes \<Rightarrow> reply \<times> 'a authority_scheme)
      \<Rightarrow> (fd \<Rightarrow> 'a authority_scheme \<Rightarrow> 'a authority_scheme) \<Rightarrow> nat
      \<Rightarrow> request_msg \<Rightarrow> fd set \<Rightarrow> 'a authority_scheme
      \<Rightarrow> (reply_msg option \<times> fd set \<times> 'a authority_scheme) option" where
  "process_request dispatch disconnect now msg known ev =
     (if req (rm_header msg) = - 1
      then Some (None, register_client (rm_client msg) (rm_msg_fd msg) known ev)
      else if req (rm_header msg) = - 2
      then Some (None, drop_connection disconnect now (rm_client msg) known ev)
      else map_option (\<lambda>(pm, r). (Some pm, r)) (serve_request dispatch msg known ev))"

text \<open>The housekeeping at the end of a round of \<^verbatim>\<open>authority_main\<close>.  \<open>checks\<close> runs the timer and
  pipe checks; \<open>now\<close> and \<open>now'\<close> are the two readings of the clock.\<close>

definition TICK_MS :: nat where
  "TICK_MS = 50"

record authority_loop =
  last_housekeep :: nat
  tick_count :: u64
  shutdown_flag :: bool
  stopped :: bool

definition housekeeping ::
    "(u64 \<Rightarrow> 'a authority_scheme \<Rightarrow> 'a authority_scheme) \<Rightarrow> nat \<Rightarrow> nat
      \<Rightarrow> authority_loop \<Rightarrow> 'a authority_scheme \<Rightarrow> authority_loop \<times> 'a authority_scheme" where
  "housekeeping checks now now' lp ev =
     (if now - last_housekeep lp < TICK_MS then (lp, ev)
      else
        let n = tick_count lp + 1;
            ev = checks n ev;
            expired = (case linger_deadline ev of None \<Rightarrow> False | Some d \<Rightarrow> d \<le> now');
            sd = shutdown_flag lp \<or> expired
        in (lp\<lparr>last_housekeep := now, tick_count := n, shutdown_flag := sd,
               stopped := sd\<rparr>, ev))"

declare forward_requests.simps [simp del] write_loop.simps [simp del]

end
