(* ===== verification/CspProps.thy ===== *)
theory CspProps
  imports Csp
begin

text \<open>
  What the two server threads guarantee: requests are cut out of the byte stream
  independently of how it is read, descriptors are attached to exactly one request,
  the tables of the I/O thread stay consistent, replies are written completely, and the
  bounded channels between the threads do not block for good as long as a round is
  small.  Three behaviours that go wrong are proved as such.
\<close>

section \<open>Framing\<close>

text \<open>The reference: the requests in a byte string and the unfinished rest.\<close>

function frames :: "bytes \<Rightarrow> (request_header \<times> bytes) list \<times> bytes" where
  "frames b =
     (case read_header b of
        None \<Rightarrow> ([], b)
      | Some h \<Rightarrow> if length b < total_size h then ([], b)
                  else let (fs, rest) = frames (drop (total_size h) b)
                       in ((h, take (total_size h) b) # fs, rest))"
  by pat_completeness auto
termination
  by (relation "measure length") (auto simp: total_size_def GENERIC_REQUEST_def)

declare frames.simps [simp del]

definition frame_of :: "request_msg \<Rightarrow> request_header \<times> bytes" where
  "frame_of m = (rm_header m, rm_buf m)"

lemma frame_of_msg [simp]:
  "frame_of \<lparr>rm_client = f, rm_header = h, rm_buf = b, rm_inflight = i, rm_msg_fd = m\<rparr> = (h, b)"
  by (simp add: frame_of_def)

lemma total_size_header: "HEADER_LEN \<le> total_size h"
  by (simp add: HEADER_LEN_def total_size_def GENERIC_REQUEST_def)

lemma frames_stop: "read_header b = None \<or> (\<exists>h. read_header b = Some h \<and> length b < total_size h) \<Longrightarrow> frames b = ([], b)"
  by (subst frames.simps) (auto simp flip: read_header_None_iff)

lemma frames_step:
  "read_header b = Some h \<Longrightarrow> total_size h \<le> length b \<Longrightarrow>
   frames b = ((h, take (total_size h) b) # fst (frames (drop (total_size h) b)), snd (frames (drop (total_size h) b)))"
  by (subst frames.simps) (auto simp: split_beta)

lemma frames_append:
  "frames (b @ c) = (fst (frames b) @ fst (frames (snd (frames b) @ c)), snd (frames (snd (frames b) @ c)))"
proof (induction b rule: frames.induct)
  case (1 b)
  show ?case
  proof (cases "\<exists>h. read_header b = Some h \<and> total_size h \<le> length b")
    case True
    then obtain h where h: "read_header b = Some h" "total_size h \<le> length b" by blast
    have "HEADER_LEN \<le> length b" using h(1) read_header_None_iff[of b] by (metis not_less option.distinct(1))
    then have h': "read_header (b @ c) = Some h" using h(1) by (simp add: read_header_append)
    show ?thesis
      using frames_step[OF h] frames_step[OF h'] h(2) 1[OF h(1)] by simp
  next
    case False
    then have "frames b = ([], b)" by (intro frames_stop) (cases "read_header b", auto)
    then show ?thesis by simp
  qed
qed

lemma frames_idem: "frames (snd (frames b)) = ([], snd (frames b))"
  using frames_append[of b "[]"] by (metis append.right_neutral append_self_conv fst_conv prod.collapse snd_conv)

lemma forward_requests_step:
  assumes "read_header buf = Some h" "total_size h \<le> length buf"
    and "forward_requests f m (tl rx) (drop (total_size h) buf)
           (let p = drain_msg_fd m (case rx of [] \<Rightarrow> [] | r # _ \<Rightarrow> r) pend
            in case p m of None \<Rightarrow> p | Some _ \<Rightarrow> p(m \<mapsto> [])) = (ms, rest, pend')"
  shows "forward_requests f m rx buf pend =
    (\<lparr>rm_client = f, rm_header = h, rm_buf = take (total_size h) buf,
      rm_inflight = or_default (drain_msg_fd m (case rx of [] \<Rightarrow> [] | r # _ \<Rightarrow> r) pend m),
      rm_msg_fd = - 1\<rparr> # ms, rest, pend')"
  using assms by (subst forward_requests.simps) (simp add: Let_def)

lemma forward_requests_frames:
  "forward_requests f m rx buf pend = (ms, rest, pend') \<Longrightarrow>
     map frame_of ms = fst (frames buf) \<and> rest = snd (frames buf) \<and>
     (\<forall>x\<in>set ms. rm_client x = f \<and> rm_msg_fd x = - 1)"
proof (induction f m rx buf pend arbitrary: ms rest pend' rule: forward_requests.induct)
  case (1 f m rx buf pend)
  show ?case
  proof (cases "\<exists>h. read_header buf = Some h \<and> total_size h \<le> length buf")
    case True
    then obtain h where h: "read_header buf = Some h" "total_size h \<le> length buf" by blast
    let ?p1 = "drain_msg_fd m (case rx of [] \<Rightarrow> [] | r # _ \<Rightarrow> r) pend"
    let ?p2 = "case ?p1 m of None \<Rightarrow> ?p1 | Some _ \<Rightarrow> ?p1(m \<mapsto> [])"
    obtain ms1 r1 q1 where rec: "forward_requests f m (tl rx) (drop (total_size h) buf) ?p2 = (ms1, r1, q1)"
      by (metis prod_cases3)
    have IH: "map frame_of ms1 = fst (frames (drop (total_size h) buf)) \<and> r1 = snd (frames (drop (total_size h) buf)) \<and>
      (\<forall>x\<in>set ms1. rm_client x = f \<and> rm_msg_fd x = - 1)"
      by (rule 1(1)[OF h(1) _ refl refl rec]) (use h(2) in simp)
    have "forward_requests f m rx buf pend =
        (\<lparr>rm_client = f, rm_header = h, rm_buf = take (total_size h) buf,
          rm_inflight = or_default (?p1 m), rm_msg_fd = - 1\<rparr> # ms1, r1, q1)"
      using forward_requests_step[OF h, of f m rx pend] rec by (simp add: Let_def)
    then show ?thesis
      using 1(2) IH frames_step[OF h] by auto
  next
    case False
    then have "frames buf = ([], buf)" by (intro frames_stop) (cases "read_header buf", auto)
    moreover have "forward_requests f m rx buf pend = ([], buf, pend)"
      using False by (subst forward_requests.simps) (auto split: option.splits)
    ultimately show ?thesis using 1(2) by simp
  qed
qed

text \<open>Every read of one client, one chunk after the other; each chunk comes with what
  the socket delivers meanwhile.\<close>

fun read_chunks :: "fd \<Rightarrow> (bytes \<times> received list list) list \<Rightarrow> io_state \<Rightarrow> request_msg list \<times> io_state" where
  "read_chunks f [] st = ([], st)"
| "read_chunks f ((b, rx) # cs) st =
     (let (ms, st) = handle_client_read f (int (length b)) b rx st;
          (ns, st) = read_chunks f cs st
      in (ms @ ns, st))"

lemma handle_client_read_frames:
  assumes "io_clients st f = Some c" "b \<noteq> []"
  shows "\<exists>ms st'. handle_client_read f (int (length b)) b rx st = (ms, st') \<and>
     map frame_of ms = fst (frames (recv_buf c @ b)) \<and>
     io_clients st' = (io_clients st)(f \<mapsto> c\<lparr>recv_buf := snd (frames (recv_buf c @ b))\<rparr>)"
proof -
  obtain ms rest pend where fw: "forward_requests f (ic_msg_fd c) rx (recv_buf c @ b) (pending_fds st) = (ms, rest, pend)"
    by (metis prod_cases3)
  show ?thesis
    using assms fw forward_requests_frames[OF fw] by (simp add: handle_client_read_def)
qed

lemma read_chunks_frames:
  assumes "io_clients st f = Some c" "\<forall>x\<in>set cs. fst x \<noteq> []" "snd (frames (recv_buf c)) = recv_buf c" "fst (frames (recv_buf c)) = []"
  shows "\<exists>ms st'. read_chunks f cs st = (ms, st') \<and>
     map frame_of ms = fst (frames (recv_buf c @ concat (map fst cs))) \<and>
     io_clients st' f = Some (c\<lparr>recv_buf := snd (frames (recv_buf c @ concat (map fst cs)))\<rparr>)"
  using assms
proof (induction cs arbitrary: st c)
  case Nil
  then show ?case by simp
next
  case (Cons x cs)
  obtain b rx where x: "x = (b, rx)" by (cases x)
  let ?buf = "recv_buf c @ b"
  let ?c = "c\<lparr>recv_buf := snd (frames ?buf)\<rparr>"
  have "b \<noteq> []" using Cons.prems(2) x by simp
  then obtain ms st1 where h: "handle_client_read f (int (length b)) b rx st = (ms, st1)"
    "map frame_of ms = fst (frames ?buf)" "io_clients st1 = (io_clients st)(f \<mapsto> ?c)"
    using handle_client_read_frames[OF Cons.prems(1), of b rx] by blast
  have c1: "io_clients st1 f = Some ?c" using h(3) by simp
  have idem: "frames (recv_buf ?c) = ([], recv_buf ?c)"
    using frames_idem by simp
  obtain ns st2 where r: "read_chunks f cs st1 = (ns, st2)"
    "map frame_of ns = fst (frames (recv_buf ?c @ concat (map fst cs)))"
    "io_clients st2 f = Some (?c\<lparr>recv_buf := snd (frames (recv_buf ?c @ concat (map fst cs)))\<rparr>)"
    using Cons.IH[OF c1] Cons.prems(2) idem by auto
  have "frames (recv_buf c @ concat (map fst (x # cs))) =
    (fst (frames ?buf) @ fst (frames (recv_buf ?c @ concat (map fst cs))),
     snd (frames (recv_buf ?c @ concat (map fst cs))))"
    using frames_append[of ?buf "concat (map fst cs)"] x by simp
  then show ?case using h r x by simp
qed

definition wire :: "request_header \<times> bytes \<Rightarrow> bytes" where
  "wire r = header_bytes (fst r) @ snd r"

definition wire_ok :: "request_header \<times> bytes \<Rightarrow> bool" where
  "wire_ok r \<longleftrightarrow> HEADER_LEN + length (snd r) = total_size (fst r)"

definition unfinished :: "bytes \<Rightarrow> bool" where
  "unfinished b \<longleftrightarrow> (case read_header b of None \<Rightarrow> True | Some h \<Rightarrow> length b < total_size h)"

lemma unfinished_short: "length b < HEADER_LEN \<Longrightarrow> unfinished b"
  using read_header_None_iff[of b] by (simp add: unfinished_def del: read_header_None_iff)

lemma frames_wire:
  "\<forall>r\<in>set rs. wire_ok r \<Longrightarrow> unfinished t \<Longrightarrow>
   frames (concat (map wire rs) @ t) = (map (\<lambda>r. (fst r, wire r)) rs, t)"
proof (induction rs)
  case Nil
  then have "read_header t = None \<or> (\<exists>h. read_header t = Some h \<and> length t < total_size h)"
    by (auto simp: unfinished_def split: option.splits)
  then show ?case using frames_stop by simp
next
  case (Cons r rs)
  let ?rest = "concat (map wire rs) @ t"
  have h: "read_header (wire r @ ?rest) = Some (fst r)"
    using read_header_bytes[of "fst r" "snd r @ ?rest"] by (simp add: wire_def)
  have len: "length (wire r) = total_size (fst r)"
    using Cons.prems by (simp add: wire_def wire_ok_def)
  show ?case
    using frames_step[OF h] len Cons by simp
qed

text \<open>C2. Cutting the byte stream of a client into requests does not depend on how the
  stream is split into reads: whatever non-empty chunks the reads return, the requests
  forwarded to the authority are exactly the requests sent, in order, with their bytes,
  and the unfinished tail stays in the buffer.\<close>


theorem requests_framed:
  assumes "io_clients st f = Some c" "recv_buf c = []"
    and "\<forall>r\<in>set rs. wire_ok r" "unfinished t"
    and "concat (map fst cs) = concat (map wire rs) @ t" "\<forall>x\<in>set cs. fst x \<noteq> []"
  shows "\<exists>ms st'. read_chunks f cs st = (ms, st') \<and>
     map (\<lambda>m. (rm_header m, rm_buf m)) ms = map (\<lambda>r. (fst r, wire r)) rs \<and>
     io_clients st' f = Some (c\<lparr>recv_buf := t\<rparr>)"
proof -
  have e: "frames [] = ([], [])" by (rule frames_stop) (simp add: HEADER_LEN_def)
  obtain ms st' where "read_chunks f cs st = (ms, st')"
    "map frame_of ms = fst (frames (concat (map fst cs)))"
    "io_clients st' f = Some (c\<lparr>recv_buf := snd (frames (concat (map fst cs)))\<rparr>)"
    using read_chunks_frames[OF assms(1,6)] assms(2) e by auto
  moreover have "map frame_of ms = map (\<lambda>m. (rm_header m, rm_buf m)) ms"
    by (simp add: frame_of_def)
  ultimately show ?thesis
    using frames_wire[OF assms(3,4)] assms(5) by simp
qed

definition ex_state :: io_state where
  "ex_state = (io_init (\<lambda>_. \<lparr>q_seq = 0, internal_bits = 0\<rparr>))
     \<lparr>io_clients := [10 \<mapsto> \<lparr>ic_msg_fd = 9, recv_buf = []\<rparr>], msg_fd_clients := [9 \<mapsto> [10]]\<rparr>"

definition ex_request :: "i32 \<Rightarrow> request_header \<times> bytes" where
  "ex_request r = (\<lparr>req = r, request_size = 3, reply_size = 0\<rparr>, replicate 55 7)"

lemma take_drop_append: "take n v @ drop n v @ x = v @ x"
  by (simp flip: append_assoc)

theorem requests_framed_witness:
  "\<exists>ms st'. read_chunks 10 [(take 5 (wire (ex_request 1)), []),
       (drop 5 (wire (ex_request 1)) @ take 60 (wire (ex_request 2)), []),
       (drop 60 (wire (ex_request 2)) @ [1, 2], [])] ex_state = (ms, st') \<and>
     map (\<lambda>m. (rm_header m, rm_buf m)) ms =
       map (\<lambda>r. (fst r, wire r)) [ex_request 1, ex_request 2] \<and>
     io_clients st' 10 = Some (\<lparr>ic_msg_fd = 9, recv_buf = []\<rparr>\<lparr>recv_buf := [1, 2]\<rparr>)"
proof (rule requests_framed)
  show "io_clients ex_state 10 = Some \<lparr>ic_msg_fd = 9, recv_buf = []\<rparr>" by (simp add: ex_state_def)
  show "\<forall>r\<in>set [ex_request 1, ex_request 2]. wire_ok r"
    by (simp add: ex_request_def wire_ok_def HEADER_LEN_def total_size_def GENERIC_REQUEST_def)
  show "unfinished [1, 2]" by (rule unfinished_short) (simp add: HEADER_LEN_def)
  have len: "length (wire (ex_request r)) = 67" for r
    by (simp add: ex_request_def wire_def HEADER_LEN_def)
  show "concat (map fst [(take 5 (wire (ex_request 1)), [] :: received list list),
       (drop 5 (wire (ex_request 1)) @ take 60 (wire (ex_request 2)), []),
       (drop 60 (wire (ex_request 2)) @ [1, 2], [])]) =
     concat (map wire [ex_request 1, ex_request 2]) @ [1, 2]"
    by (simp add: take_drop_append)
  show "\<forall>x\<in>set [(take 5 (wire (ex_request 1)), [] :: received list list),
       (drop 5 (wire (ex_request 1)) @ take 60 (wire (ex_request 2)), []),
       (drop 60 (wire (ex_request 2)) @ [1, 2], [])]. fst x \<noteq> []"
    using len[of 1] len[of 2] by auto
qed simp

section \<open>Descriptors attached to requests\<close>

lemma or_default_simps [simp]: "or_default None = []" "or_default (Some l) = l"
  by (simp_all add: or_default_def)

lemma drain_msg_fd_at: "or_default (drain_msg_fd m rs pend m) = or_default (pend m) @ drain_received rs"
  by (simp add: drain_msg_fd_def push_entry_def Let_def)

lemma drain_msg_fd_other: "k \<noteq> m \<Longrightarrow> drain_msg_fd m rs pend k = pend k"
  by (simp add: drain_msg_fd_def push_entry_def Let_def)

text \<open>What the rounds of the request loop received, \<open>n\<close> rounds long.\<close>

definition delivered :: "nat \<Rightarrow> received list list \<Rightarrow> inflight list" where
  "delivered n rx = concat (map drain_received (take n rx))"

lemma delivered_Suc: "delivered (Suc n) rx = drain_received (case rx of [] \<Rightarrow> [] | r # _ \<Rightarrow> r) @ delivered n (tl rx)"
  by (cases rx) (simp_all add: delivered_def)

lemma forward_requests_fds:
  "forward_requests f m rx buf pend = (ms, rest, pend') \<Longrightarrow>
     concat (map rm_inflight ms) @ or_default (pend' m) = or_default (pend m) @ delivered (length ms) rx \<and>
     (\<forall>k. k \<noteq> m \<longrightarrow> pend' k = pend k)"
proof (induction f m rx buf pend arbitrary: ms rest pend' rule: forward_requests.induct)
  case (1 f m rx buf pend)
  show ?case
  proof (cases "\<exists>h. read_header buf = Some h \<and> total_size h \<le> length buf")
    case True
    then obtain h where h: "read_header buf = Some h" "total_size h \<le> length buf" by blast
    let ?r = "case rx of [] \<Rightarrow> [] | r # _ \<Rightarrow> r"
    let ?p1 = "drain_msg_fd m ?r pend"
    let ?p2 = "case ?p1 m of None \<Rightarrow> ?p1 | Some _ \<Rightarrow> ?p1(m \<mapsto> [])"
    obtain ms1 r1 q1 where rec: "forward_requests f m (tl rx) (drop (total_size h) buf) ?p2 = (ms1, r1, q1)"
      by (metis prod_cases3)
    have IH: "concat (map rm_inflight ms1) @ or_default (q1 m) = or_default (?p2 m) @ delivered (length ms1) (tl rx) \<and>
      (\<forall>k. k \<noteq> m \<longrightarrow> q1 k = ?p2 k)"
      by (rule 1(1)[OF h(1) _ refl refl rec]) (use h(2) in simp)
    have p2: "or_default (?p2 m) = []" "\<forall>k. k \<noteq> m \<longrightarrow> ?p2 k = pend k"
      by (auto simp: drain_msg_fd_other split: option.split)
    show ?thesis
      using forward_requests_step[OF h, of f m rx pend] rec 1(2) IH p2 drain_msg_fd_at[of m ?r pend]
      by (auto simp: Let_def delivered_Suc)
  next
    case False
    then have "forward_requests f m rx buf pend = ([], buf, pend)"
      by (subst forward_requests.simps) (auto split: option.splits)
    then show ?thesis using 1(2) by (simp add: delivered_def)
  qed
qed

text \<open>C23. No descriptor received on a process socket is lost, duplicated or reordered by
  the request loop: after a read, the descriptors attached to the forwarded requests,
  followed by those still waiting, are those that were waiting followed by those the
  socket delivered meanwhile; the descriptors of other processes are not touched.\<close>

theorem descriptors_attached_once:
  assumes "io_clients st f = Some c" "0 < n"
    and "handle_client_read f n b rx st = (ms, st')"
  shows "concat (map rm_inflight ms) @ or_default (pending_fds st' (ic_msg_fd c)) =
      or_default (pending_fds st (ic_msg_fd c)) @ delivered (length ms) rx \<and>
    (\<forall>k. k \<noteq> ic_msg_fd c \<longrightarrow> pending_fds st' k = pending_fds st k)"
  using assms forward_requests_fds[of f "ic_msg_fd c" rx "recv_buf c @ take (nat n) b" "pending_fds st"]
  by (auto simp: handle_client_read_def split: prod.splits)

definition ex_rx :: received where
  "ex_rx = \<lparr>rx_n = 8, rx_data = [4, 0, 0, 0, 5, 0, 0, 0], rx_fds = [20, 21]\<rparr>"

theorem descriptors_attached_once_witness:
  "concat (map rm_inflight (fst (handle_client_read 10 67 (wire (ex_request 1)) [[ex_rx], [ex_rx]] ex_state))) @ [] = [(4, 5, 20), (4, 5, 21)] \<and>
   pending_fds (snd (handle_client_read 10 67 (wire (ex_request 1)) [[ex_rx], [ex_rx]] ex_state)) 8 = None"
proof -
  let ?b = "wire (ex_request 1)"
  let ?r = "handle_client_read 10 67 ?b [[ex_rx], [ex_rx]] ex_state"
  have c: "io_clients ex_state 10 = Some \<lparr>ic_msg_fd = 9, recv_buf = []\<rparr>" "pending_fds ex_state = Map.empty"
    by (simp_all add: ex_state_def io_init_def)
  have ev: "length (fst ?r) = 1" "or_default (pending_fds (snd ?r) 9) = []" by code_simp+
  have d: "delivered 1 [[ex_rx], [ex_rx]] = [(4, 5, 20), (4, 5, 21)]" by code_simp
  have r: "handle_client_read 10 67 ?b [[ex_rx], [ex_rx]] ex_state = (fst ?r, snd ?r)" by simp
  show ?thesis
    using descriptors_attached_once[OF c(1) _ r] c(2) ev d by simp
qed

section \<open>Tables of the I/O thread\<close>

definition sharers :: "io_state \<Rightarrow> fd \<Rightarrow> fd set" where
  "sharers st m = {f. \<exists>c. io_clients st f = Some c \<and> ic_msg_fd c = m}"

definition io_inv :: "io_state \<Rightarrow> bool" where
  "io_inv st \<longleftrightarrow> (\<forall>m. set (or_default (msg_fd_clients st m)) = sharers st m \<and>
     distinct (or_default (msg_fd_clients st m)) \<and> msg_fd_clients st m \<noteq> Some [])"

text \<open>The states the I/O thread passes through.  A descriptor the kernel hands out for a
  new connection is not one of those it holds open.\<close>

inductive io_reachable :: "u32 \<Rightarrow> io_fds \<Rightarrow> (u64 \<Rightarrow> queue_object) \<Rightarrow> io_state \<Rightarrow> bool"
  for version fs shm where
  start: "io_reachable version fs shm (io_init shm)"
| event: "io_reachable version fs shm st \<Longrightarrow>
     (f = listener_fd fs \<longrightarrow> io_clients st (os_dup os) = None) \<Longrightarrow>
     io_reachable version fs shm (snd (handle_event version fs f os st))"
| reply: "io_reachable version fs shm st \<Longrightarrow> io_reachable version fs shm (execute_reply wr pm st)"

lemma sys_simps [simp]:
  "io_clients (sys cs st) = io_clients st" "msg_fd_clients (sys cs st) = msg_fd_clients st"
  "pending_fds (sys cs st) = pending_fds st" "client_reply_fds (sys cs st) = client_reply_fds st"
  "pipe_watchers (sys cs st) = pipe_watchers st" "queue_fd_watchers (sys cs st) = queue_fd_watchers st"
  "queue_shm (sys cs st) = queue_shm st" "calls (sys cs st) = calls st @ cs"
  by (simp_all add: sys_def)

lemma io_inv_cong:
  "io_clients st' = io_clients st \<Longrightarrow> msg_fd_clients st' = msg_fd_clients st \<Longrightarrow> io_inv st' \<longleftrightarrow> io_inv st"
  by (simp add: io_inv_def sharers_def)

lemma io_invD:
  assumes "io_inv st"
  shows "set (or_default (msg_fd_clients st m)) = sharers st m"
    "distinct (or_default (msg_fd_clients st m))" "msg_fd_clients st m \<noteq> Some []"
  using assms by (simp_all add: io_inv_def)

lemma io_inv_init: "io_inv (io_init shm)"
  by (simp add: io_inv_def io_init_def sharers_def)

lemma add_io_client_inv:
  assumes "io_inv st" "io_clients st f = None"
  shows "io_inv (add_io_client f m st)"
proof -
  have sh: "sharers (add_io_client f m st) k = sharers st k \<union> (if k = m then {f} else {})" for k
    using assms(2) by (auto simp: sharers_def add_io_client_def)
  have nin: "f \<notin> sharers st m" using assms(2) by (simp add: sharers_def)
  have tab: "msg_fd_clients (add_io_client f m st) =
      (msg_fd_clients st)(m \<mapsto> or_default (msg_fd_clients st m) @ [f])"
    by (simp add: add_io_client_def push_entry_def)
  show ?thesis
    unfolding io_inv_def sh tab using io_invD[OF assms(1)] nin by auto
qed

lemma disconnect_tables:
  assumes "io_inv st" "io_clients st f = Some c"
  shows "io_clients (disconnect_io_client f st) = (io_clients st)(f := None)" (is ?a)
    and "msg_fd_clients (disconnect_io_client f st) = (msg_fd_clients st)
      (ic_msg_fd c := (if sharers st (ic_msg_fd c) = {f} then None
                       else Some (filter (\<lambda>g. g \<noteq> f) (the (msg_fd_clients st (ic_msg_fd c))))))" (is ?b)
    and "calls (disconnect_io_client f st) = calls st @ EpollDel f #
      (if sharers st (ic_msg_fd c) = {f} then [EpollDel (ic_msg_fd c), Close (ic_msg_fd c)] else []) @ [Close f]" (is ?c)
proof -
  let ?m = "ic_msg_fd c"
  have fin: "f \<in> sharers st ?m" using assms(2) by (simp add: sharers_def)
  then obtain l where l: "msg_fd_clients st ?m = Some l" "set l = sharers st ?m"
    using io_invD(1)[OF assms(1), of ?m] by (cases "msg_fd_clients st ?m") auto
  have e: "filter (\<lambda>g. g \<noteq> f) l = [] \<longleftrightarrow> sharers st ?m = {f}"
    using fin l(2) by (auto simp: filter_empty_conv)
  show ?a ?b ?c
    using assms(2) l(1) e by (simp_all add: disconnect_io_client_def Let_def)
qed

lemma disconnect_inv:
  assumes "io_inv st"
  shows "io_inv (disconnect_io_client f st)"
proof (cases "io_clients st f")
  case None
  then have "io_clients (disconnect_io_client f st) = io_clients st"
    "msg_fd_clients (disconnect_io_client f st) = msg_fd_clients st"
    by (simp_all add: disconnect_io_client_def Let_def)
  then show ?thesis using assms io_inv_cong by blast
next
  case (Some c)
  let ?m = "ic_msg_fd c"
  have sh: "sharers (disconnect_io_client f st) k = sharers st k - {f}" for k
    using disconnect_tables(1)[OF assms Some] by (auto simp: sharers_def)
  have only: "k \<noteq> ?m \<Longrightarrow> f \<notin> sharers st k" for k
    using Some by (auto simp: sharers_def)
  have fin: "f \<in> sharers st ?m" using Some by (simp add: sharers_def)
  then obtain l where l: "msg_fd_clients st ?m = Some l" "set l = sharers st ?m" "distinct l"
    using io_invD[OF assms, of ?m] by (cases "msg_fd_clients st ?m") auto
  show ?thesis
    unfolding io_inv_def sh disconnect_tables(2)[OF assms Some]
    using io_invD[OF assms] only fin l by (auto simp: filter_empty_conv)
qed

lemma handle_client_read_inv:
  assumes "io_inv st"
  shows "io_inv (snd (handle_client_read f n b rx st))"
proof (cases "n \<le> 0 \<or> io_clients st f = None")
  case True
  then show ?thesis using assms disconnect_inv by (auto simp: handle_client_read_def)
next
  case False
  then obtain c where c: "io_clients st f = Some c" "0 < n" by auto
  obtain ms rest pend where fw: "forward_requests f (ic_msg_fd c) rx (recv_buf c @ take (nat n) b) (pending_fds st) = (ms, rest, pend)"
    by (metis prod_cases3)
  let ?st = "snd (handle_client_read f n b rx st)"
  have t: "io_clients ?st = (io_clients st)(f \<mapsto> c\<lparr>recv_buf := rest\<rparr>)" "msg_fd_clients ?st = msg_fd_clients st"
    using c fw by (simp_all add: handle_client_read_def)
  have "sharers ?st m = sharers st m" for m
    using c(1) t(1) by (auto simp: sharers_def)
  then show ?thesis using assms t(2) by (simp add: io_inv_def)
qed

lemma handle_accept_inv:
  assumes "io_inv st" "io_clients st dupd = None"
  shows "io_inv (snd (handle_accept v a p s dupd st))"
proof -
  have i: "io_inv (sys cs st)" for cs using assms(1) io_inv_cong[of "sys cs st" st] by simp
  then show ?thesis
    using assms add_io_client_inv[of "sys cs st" dupd a for cs]
    by (simp add: handle_accept_def split: option.split prod.split)
qed

lemma execute_effect_inv: "io_inv st \<Longrightarrow> io_inv (execute_effect e st)"
proof (induction e st rule: execute_effect.induct)
  case (1 r m p st)
  have "io_inv (sys cs st)" for cs using 1 io_inv_cong[of "sys cs st" st] by simp
  then show ?case using 1 add_io_client_inv[of "sys cs st" r m for cs] by (auto simp: Let_def)
qed (auto simp: io_inv_def sharers_def clear_driver_bit_def split: option.split)

lemma fold_execute_effect_inv: "io_inv st \<Longrightarrow> io_inv (fold execute_effect es st)"
  by (induction es arbitrary: st) (simp_all add: execute_effect_inv)

lemma execute_reply_tables:
  "io_clients (execute_reply wr pm st) = io_clients (fold execute_effect (pm_effects pm) st)"
  "msg_fd_clients (execute_reply wr pm st) = msg_fd_clients (fold execute_effect (pm_effects pm) st)"
  by (simp_all add: execute_reply_def Let_def split: option.split)

lemma execute_reply_inv: "io_inv st \<Longrightarrow> io_inv (execute_reply wr pm st)"
  using fold_execute_effect_inv io_inv_cong[OF execute_reply_tables] by blast

lemma handle_event_inv:
  assumes "io_inv st" "f = listener_fd fs \<longrightarrow> io_clients st (os_dup os) = None"
  shows "io_inv (snd (handle_event v fs f os st))"
proof -
  have cong: "io_inv (sys cs st)" "io_inv (st\<lparr>pending_fds := p\<rparr>)" "io_inv (sys cs (set_driver_bit q st))" for cs p q
    using assms(1) by (simp_all add: io_inv_def sharers_def set_driver_bit_def)
  show ?thesis
    using assms(2) unfolding handle_event_def Let_def case_prod_unfold
    by (simp add: cong assms(1) handle_client_read_inv handle_accept_inv split: option.split)
qed

lemma io_reachable_inv: "io_reachable v fs shm st \<Longrightarrow> io_inv st"
  by (induction rule: io_reachable.induct) (auto intro: io_inv_init handle_event_inv execute_reply_inv)

text \<open>C10. In every state of the I/O thread the table of process sockets lists, for each
  socket, exactly the clients that use it, each once, and has no entry for a socket
  without clients.\<close>

theorem io_tables_consistent:
  assumes "io_reachable version fs shm st"
  shows "set (or_default (msg_fd_clients st m)) = {f. \<exists>c. io_clients st f = Some c \<and> ic_msg_fd c = m} \<and>
    distinct (or_default (msg_fd_clients st m)) \<and> msg_fd_clients st m \<noteq> Some []"
  using io_invD[OF io_reachable_inv[OF assms]] by (simp add: sharers_def)

definition ex_fds :: io_fds where
  "ex_fds = \<lparr>listener_fd = 3, sig_fd = 4, shutdown_read = 5, wake_read = 6, death_fd = - 1\<rparr>"

definition ex_os :: os_results where
  "ex_os = \<lparr>os_accept = 9, os_pipe = Some (11, 12), os_send = 4, os_dup = 10, os_read = 0,
     os_buf = [], os_recv = [], os_recvs = []\<rparr>"

definition ex_shm :: "u64 \<Rightarrow> queue_object" where
  "ex_shm = (\<lambda>_. \<lparr>q_seq = 0, internal_bits = 0\<rparr>)"

definition ex_accepted :: io_state where
  "ex_accepted = snd (handle_event 860 ex_fds 3 ex_os (io_init ex_shm))"

lemma ex_accepted_reachable: "io_reachable 860 ex_fds ex_shm ex_accepted"
  unfolding ex_accepted_def
  by (rule io_reachable.event, rule io_reachable.start) (simp add: io_init_def)

lemma ex_accepted_tables:
  "io_clients ex_accepted = [10 \<mapsto> \<lparr>ic_msg_fd = 9, recv_buf = []\<rparr>]"
  "msg_fd_clients ex_accepted = [9 \<mapsto> [10]]"
  by (simp_all add: ex_accepted_def handle_event_def handle_accept_def ex_fds_def ex_os_def io_init_def
      add_io_client_def push_entry_def)

theorem io_tables_consistent_witness:
  "set (or_default (msg_fd_clients ex_accepted 9)) = {f. \<exists>c. io_clients ex_accepted f = Some c \<and> ic_msg_fd c = 9} \<and>
   msg_fd_clients ex_accepted 9 = Some [10]"
  using io_tables_consistent[OF ex_accepted_reachable, of 9] ex_accepted_tables by simp

text \<open>When a client is disconnected the I/O thread closes its request pipe, and closes
  the process socket exactly if no other client uses it; the other clients stay.\<close>

theorem socket_closed_with_last_client:
  assumes "io_reachable version fs shm st" "io_clients st f = Some c"
  shows "calls (disconnect_io_client f st) = calls st @ EpollDel f #
      (if \<exists>g d. g \<noteq> f \<and> io_clients st g = Some d \<and> ic_msg_fd d = ic_msg_fd c then []
       else [EpollDel (ic_msg_fd c), Close (ic_msg_fd c)]) @ [Close f] \<and>
    io_clients (disconnect_io_client f st) = (io_clients st)(f := None)"
proof -
  note inv = io_reachable_inv[OF assms(1)]
  have "sharers st (ic_msg_fd c) = {f} \<longleftrightarrow>
      \<not> (\<exists>g d. g \<noteq> f \<and> io_clients st g = Some d \<and> ic_msg_fd d = ic_msg_fd c)"
    using assms(2) by (auto simp: sharers_def)
  then show ?thesis
    using disconnect_tables[OF inv assms(2)] by simp
qed

theorem socket_closed_with_last_client_witness:
  "calls (disconnect_io_client 10 ex_accepted) =
     calls ex_accepted @ [EpollDel 10, EpollDel 9, Close 9, Close 10]"
  using socket_closed_with_last_client[OF ex_accepted_reachable, of 10 "\<lparr>ic_msg_fd = 9, recv_buf = []\<rparr>"]
  by (simp add: ex_accepted_tables)

section \<open>Writing a reply\<close>

fun written_to :: "fd \<Rightarrow> syscall list \<Rightarrow> bytes" where
  "written_to t [] = []"
| "written_to t (Write u b # cs) = (if u = t then b else []) @ written_to t cs"
| "written_to t (_ # cs) = written_to t cs"

lemma written_to_append [simp]: "written_to t (a @ b) = written_to t a @ written_to t b"
  by (induction t a rule: written_to.induct) auto

lemma write_loop_prefix:
  "\<exists>r. drop k data = written_to t (write_loop wr t data k) @ r"
proof (induction wr t data k rule: write_loop.induct)
  case (1 wr t data k)
  show ?case
  proof (cases "k < length data \<and> 0 < wr k")
    case True
    then obtain r where "drop (k + nat (wr k)) data = written_to t (write_loop wr t data (k + nat (wr k))) @ r"
      using 1 by auto
    then have "drop k data = take (nat (wr k)) (drop k data) @ written_to t (write_loop wr t data (k + nat (wr k))) @ r"
      by (metis append_take_drop_id drop_drop add.commute)
    then show ?thesis using True by (subst write_loop.simps) (auto simp: Let_def)
  next
    case False
    then have "write_loop wr t data k = []" by (subst write_loop.simps) (auto simp: Let_def)
    then show ?thesis by simp
  qed
qed

lemma write_loop_complete:
  "(\<And>j. j < length data \<Longrightarrow> 0 < wr j) \<Longrightarrow> written_to t (write_loop wr t data k) = drop k data"
proof (induction wr t data k rule: write_loop.induct)
  case (1 wr t data k)
  show ?case
  proof (cases "k < length data")
    case True
    then have "written_to t (write_loop wr t data (k + nat (wr k))) = drop (k + nat (wr k)) data"
      using 1(1)[OF True refl] 1(2)[OF True] 1(2) by simp
    moreover have "take (nat (wr k)) (drop k data) @ drop (k + nat (wr k)) data = drop k data"
      by (metis append_take_drop_id drop_drop add.commute)
    ultimately show ?thesis
      using True 1(2)[OF True] by (subst write_loop.simps) (simp add: Let_def)
  next
    case False
    then show ?thesis by (subst write_loop.simps) simp
  qed
qed

lemma execute_effect_written: "written_to t (calls (execute_effect e st)) = written_to t (calls st)"
  by (induction e st rule: execute_effect.induct)
    (auto simp: add_io_client_def clear_driver_bit_def Let_def split: option.split)

lemma fold_execute_effect_written: "written_to t (calls (fold execute_effect es st)) = written_to t (calls st)"
  by (induction es arbitrary: st) (simp_all add: execute_effect_written)

text \<open>C20. A reply is written to the descriptor the client gave for replies, the one in the
  message if there is one: as long as every write makes progress, the bytes written there
  are exactly the reply, however the kernel splits it.\<close>

theorem reply_delivered:
  assumes "\<And>j. j < length (pm_reply pm) \<Longrightarrow> 0 < wr j" "pm_reply_fd pm = Some t"
  shows "written_to t (calls (execute_reply wr pm st)) = written_to t (calls st) @ pm_reply pm \<and>
    client_reply_fds (execute_reply wr pm st) (pm_client pm) = Some t"
  using write_loop_complete[of "pm_reply pm" wr t 0] assms
  by (simp add: execute_reply_def Let_def fold_execute_effect_written)

theorem reply_delivered_witness:
  "written_to 20 (calls (execute_reply (\<lambda>_. 2)
     \<lparr>pm_client = 10, pm_reply = [1, 2, 3], pm_reply_fd = Some 20, pm_effects = [SendFd 9 30 1]\<rparr> ex_accepted)) = [1, 2, 3]"
proof -
  have "written_to 20 (calls ex_accepted) = []"
    by (simp add: ex_accepted_def handle_event_def handle_accept_def ex_fds_def ex_os_def io_init_def add_io_client_def)
  then show ?thesis
    using reply_delivered[of "\<lparr>pm_client = 10, pm_reply = [1, 2, 3], pm_reply_fd = Some 20, pm_effects = [SendFd 9 30 1]\<rparr>"
        "\<lambda>_. 2" 20 ex_accepted] by simp
qed

section \<open>Authority\<close>

lemma map_of_put_client [simp]: "map_of (put_client f c xs) = (map_of xs)(f \<mapsto> c)"
  by (induction f c xs rule: put_client.induct) auto

lemma put_client_nonempty [simp]: "put_client f c xs \<noteq> []"
  by (induction f c xs rule: put_client.induct) auto

lemma track_peak_clients_simps [simp]:
  "clients (track_peak_clients ev) = clients ev" "linger_deadline (track_peak_clients ev) = linger_deadline ev"
  by (simp_all add: track_peak_clients_def)

text \<open>A pending shutdown survives a new connection: once the linger deadline is set,
  registering a new client leaves it in place, and the next housekeeping after the
  deadline stops the server although the client is connected.\<close>

theorem linger_ignores_new_client:
  assumes "linger_deadline ev = Some d" "client_at ev f = None"
    and "process_request dispatch disconnect t
           \<lparr>rm_client = f, rm_header = control_header (- 1), rm_buf = [], rm_inflight = [], rm_msg_fd = m\<rparr>
           known ev = Some (r, known', ev')"
    and "\<And>n e. clients (checks n e) = clients e \<and> linger_deadline (checks n e) = linger_deadline e"
    and "last_housekeep lp + TICK_MS \<le> now" "d \<le> now'"
  shows "client_at (snd (housekeeping checks now now' lp ev')) f = Some (client_new f m) \<and>
    stopped (fst (housekeeping checks now now' lp ev'))"
proof -
  have ev': "ev' = track_peak_clients (ev\<lparr>clients := put_client f (client_new f m) (clients ev)\<rparr>)"
    using assms(2,3) by (auto simp: process_request_def control_header_def register_client_def)
  have "client_at ev' f = Some (client_new f m)" "linger_deadline ev' = Some d"
    using assms(1) by (simp_all add: ev')
  then show ?thesis
    using assms(4-6) by (auto simp: housekeeping_def Let_def)
qed

definition ex_authority :: authority where
  "ex_authority = \<lparr>clients = [], process_inflight_fds = Map.empty, peak_clients = 1, total_requests = 5,
     linger_deadline = Some 5000, linger_secs = 5, pending_pipe_watches = [],
     pending_queue_fd_watches = [], pending_queue_fd_rearms = [], closed = []\<rparr>"

definition ex_loop :: authority_loop where
  "ex_loop = \<lparr>last_housekeep = 0, tick_count = 0, shutdown_flag = False, stopped = False\<rparr>"

definition ex_joined :: authority where
  "ex_joined = snd (register_client 10 9 {} ex_authority)"

theorem linger_ignores_new_client_witness:
  "client_at (snd (housekeeping (\<lambda>_ e. e) 5010 5010 ex_loop ex_joined)) 10 = Some (client_new 10 9) \<and>
   stopped (fst (housekeeping (\<lambda>_ e. e) 5010 5010 ex_loop ex_joined))"
proof (rule linger_ignores_new_client[where ev = ex_authority and d = 5000 and f = 10 and m = 9 and t = 0
      and known = "{}" and r = None and known' = "{10}" and dispatch = "\<lambda>e _ _ _. (Vararg [], e)" and disconnect = "\<lambda>_ e. e"])
  show "process_request (\<lambda>e _ _ _. (Vararg [], e)) (\<lambda>_ e. e) 0
      \<lparr>rm_client = 10, rm_header = control_header (- 1), rm_buf = [], rm_inflight = [], rm_msg_fd = 9\<rparr> {} ex_authority
    = Some (None, {10}, ex_joined)"
    by (simp add: process_request_def control_header_def register_client_def ex_joined_def ex_authority_def)
qed (simp_all add: ex_authority_def ex_loop_def TICK_MS_def)

text \<open>A client can forge the control message that reports a lost connection: a request
  whose code is -2 is forwarded like any other, and the authority disconnects the client
  and sends no reply, while the I/O thread still has the client connected.\<close>

theorem forged_disconnect:
  assumes "io_clients st f = Some c" "recv_buf c = []" "req h = - 2" "wire_ok (h, body)"
  shows "\<exists>m st'. handle_client_read f (int (length (wire (h, body)))) (wire (h, body)) rx st = ([m], st') \<and>
     process_request dispatch disconnect now m known ev =
       Some (None, drop_connection disconnect now f known ev) \<and>
     io_clients st' f \<noteq> None"
proof -
  have ne: "wire (h, body) \<noteq> []" using header_bytes_length[of h] by (auto simp: wire_def HEADER_LEN_def simp del: header_bytes_length)
  have "unfinished []" by (rule unfinished_short) (simp add: HEADER_LEN_def)
  then have fr: "frames (wire (h, body)) = ([(h, wire (h, body))], [])"
    using frames_wire[of "[(h, body)]" "[]"] assms(4) by simp
  obtain ms rest pend where fw: "forward_requests f (ic_msg_fd c) rx (wire (h, body)) (pending_fds st) = (ms, rest, pend)"
    by (metis prod_cases3)
  obtain m where m: "ms = [m]" "rm_header m = h" "rm_client m = f"
    using forward_requests_frames[OF fw] fr by (cases ms) (auto simp: frame_of_def)
  show ?thesis
    using assms(1-3) ne fw m by (simp add: handle_client_read_def process_request_def)
qed

theorem forged_disconnect_witness:
  "\<exists>m st'. handle_client_read 10 67 (wire (ex_request (- 2))) [] ex_accepted = ([m], st') \<and>
     process_request (\<lambda>e _ _ _. (Vararg [], e)) (\<lambda>_ e. e) 0 m {10} ex_authority =
       Some (None, drop_connection (\<lambda>_ e. e) 0 10 {10} ex_authority) \<and> io_clients st' 10 \<noteq> None"
  using forged_disconnect[of ex_accepted 10 "\<lparr>ic_msg_fd = 9, recv_buf = []\<rparr>" "fst (ex_request (- 2))" "snd (ex_request (- 2))" "[]"]
  by (simp add: ex_accepted_tables ex_request_def wire_ok_def HEADER_LEN_def total_size_def GENERIC_REQUEST_def wire_def)

section \<open>The bounded channels\<close>

text \<open>The two threads between two calls of \<^verbatim>\<open>epoll_wait\<close>: \<open>batch\<close> is what the I/O thread still
  has to send in this round, \<open>reqs\<close> and \<open>reps\<close> are the channels, \<open>hand\<close> is the request the
  authority is working on.  Sending to a full channel blocks.  \<open>answer\<close> gives the reply
  to a request, none for a control message.  The I/O thread takes replies only when its
  batch is out.\<close>

definition CHANNEL_BOUND :: nat where
  "CHANNEL_BOUND = 256"

record chans =
  batch :: "request_msg list"
  reqs :: "request_msg list"
  hand :: "request_msg option"
  reps :: "reply_msg list"

inductive cstep :: "(request_msg \<Rightarrow> reply_msg option) \<Rightarrow> chans \<Rightarrow> chans \<Rightarrow> bool" for answer where
  io_send: "batch s = m # ms \<Longrightarrow> length (reqs s) < CHANNEL_BOUND \<Longrightarrow>
     cstep answer s (s\<lparr>batch := ms, reqs := reqs s @ [m]\<rparr>)"
| auth_recv: "hand s = None \<Longrightarrow> reqs s = m # ms \<Longrightarrow> cstep answer s (s\<lparr>hand := Some m, reqs := ms\<rparr>)"
| auth_control: "hand s = Some m \<Longrightarrow> answer m = None \<Longrightarrow> cstep answer s (s\<lparr>hand := None\<rparr>)"
| auth_reply: "hand s = Some m \<Longrightarrow> answer m = Some r \<Longrightarrow> length (reps s) < CHANNEL_BOUND \<Longrightarrow>
     cstep answer s (s\<lparr>hand := None, reps := reps s @ [r]\<rparr>)"
| io_reply: "batch s = [] \<Longrightarrow> reps s = r # rs \<Longrightarrow> cstep answer s (s\<lparr>reps := rs\<rparr>)"

definition cstuck :: "(request_msg \<Rightarrow> reply_msg option) \<Rightarrow> chans \<Rightarrow> bool" where
  "cstuck answer s \<longleftrightarrow> (\<nexists>s'. cstep answer s s')"

definition execution :: "(request_msg \<Rightarrow> reply_msg option) \<Rightarrow> (nat \<Rightarrow> chans) \<Rightarrow> bool" where
  "execution answer run \<longleftrightarrow>
     (\<forall>i. cstep answer (run i) (run (Suc i)) \<or> cstuck answer (run i) \<and> run (Suc i) = run i)"

definition cwork :: "chans \<Rightarrow> nat" where
  "cwork s = 4 * length (batch s) + 3 * length (reqs s) + (case hand s of None \<Rightarrow> 0 | Some _ \<Rightarrow> 2) + length (reps s)"

definition in_hand :: "chans \<Rightarrow> nat" where
  "in_hand s = (case hand s of None \<Rightarrow> 0 | Some _ \<Rightarrow> 1)"

definition cload :: "chans \<Rightarrow> nat" where
  "cload s = length (batch s) + length (reqs s) + in_hand s + length (reps s)"

lemma cstep_work: "cstep answer s s' \<Longrightarrow> cwork s' < cwork s"
  by (induction rule: cstep.induct) (auto simp: cwork_def)

lemma cstep_load: "cstep answer s s' \<Longrightarrow> cload s' \<le> cload s"
  by (induction rule: cstep.induct) (auto simp: cload_def in_hand_def)

lemma cstuck_full:
  assumes "cstuck answer s" "batch s \<noteq> []"
  shows "CHANNEL_BOUND \<le> length (reqs s)" "CHANNEL_BOUND \<le> length (reps s)" "hand s \<noteq> None"
proof -
  obtain m ms where b: "batch s = m # ms" using assms(2) by (cases "batch s") auto
  show q: "CHANNEL_BOUND \<le> length (reqs s)"
    using assms(1) cstep.io_send[OF b] by (meson cstuck_def not_less)
  show h: "hand s \<noteq> None"
  proof
    assume n: "hand s = None"
    obtain r rs where "reqs s = r # rs" using q by (cases "reqs s") (auto simp: CHANNEL_BOUND_def)
    then show False using cstep.auth_recv[OF n] assms(1) by (auto simp: cstuck_def)
  qed
  then obtain x where x: "hand s = Some x" by blast
  show "CHANNEL_BOUND \<le> length (reps s)"
    using cstep.auth_control[OF x] cstep.auth_reply[OF x] assms(1)
    by (cases "answer x") (auto simp: cstuck_def not_less[symmetric])
qed

lemma execution_load: "execution answer run \<Longrightarrow> cload (run i) \<le> cload (run 0)"
proof (induction i)
  case (Suc i)
  then consider "cstep answer (run i) (run (Suc i))" | "run (Suc i) = run i"
    by (auto simp: execution_def)
  then have "cload (run (Suc i)) \<le> cload (run i)"
    by cases (simp_all add: cstep_load)
  then show ?case using Suc by simp
qed simp

lemma execution_stops: "execution answer run \<Longrightarrow> \<exists>i. cstuck answer (run i)"
proof (rule ccontr)
  assume ex: "execution answer run" and "\<nexists>i. cstuck answer (run i)"
  then have dec: "cwork (run (Suc i)) < cwork (run i)" for i
    using cstep_work[of answer "run i" "run (Suc i)"] by (auto simp: execution_def)
  have "cwork (run i) + i \<le> cwork (run 0)" for i
  proof (induction i)
    case (Suc i)
    from Suc dec[of i] show ?case by (auto simp: Suc_le_eq)
  qed simp
  from this[of "Suc (cwork (run 0))"] show False by simp
qed

text \<open>C9. The threads do not block each other for good when the I/O thread sends at most
  256 messages between two looks at the reply channel: in every execution from such a
  round's start, whatever the scheduling and whatever was left in the request channel,
  the I/O thread gets all its messages out.\<close>

theorem batch_gets_sent:
  assumes "execution answer run" "reps (run 0) = []"
    and "length (reqs (run 0)) \<le> CHANNEL_BOUND" "length (batch (run 0)) \<le> CHANNEL_BOUND"
  shows "\<exists>i. batch (run i) = []"
proof (rule ccontr)
  assume none: "\<nexists>i. batch (run i) = []"
  obtain i where i: "cstuck answer (run i)" using execution_stops[OF assms(1)] by blast
  have ne: "batch (run i) \<noteq> []" using none by blast
  have "in_hand (run i) = 1" "1 \<le> length (batch (run i))"
    using cstuck_full(3)[OF i ne] ne by (auto simp: in_hand_def Suc_le_eq)
  then have "2 * CHANNEL_BOUND + 2 \<le> cload (run i)"
    using cstuck_full(1,2)[OF i ne] by (simp add: cload_def)
  moreover have "cload (run 0) \<le> 2 * CHANNEL_BOUND + 1"
    using assms(2-4) by (auto simp: cload_def in_hand_def split: option.split)
  ultimately show False using execution_load[OF assms(1), of i] by simp
qed

definition ex_msg :: request_msg where
  "ex_msg = \<lparr>rm_client = 10, rm_header = control_header 1, rm_buf = [], rm_inflight = [], rm_msg_fd = - 1\<rparr>"

definition ex_reply :: reply_msg where
  "ex_reply = \<lparr>pm_client = 10, pm_reply = [], pm_reply_fd = None, pm_effects = []\<rparr>"

definition ex_chans :: "nat \<Rightarrow> chans" where
  "ex_chans n = \<lparr>batch = replicate n ex_msg, reqs = [], hand = None, reps = []\<rparr>"

lemma execution_exists: "\<exists>run. execution answer run \<and> run 0 = s"
proof -
  define next_state where "next_state = (\<lambda>s. if cstuck answer s then s else (SOME t. cstep answer s t))"
  define run where "run = rec_nat s (\<lambda>_. next_state)"
  have "cstep answer t (next_state t) \<or> cstuck answer t \<and> next_state t = t" for t
    by (auto simp: next_state_def cstuck_def intro: someI)
  then have "execution answer run \<and> run 0 = s"
    by (simp add: execution_def run_def)
  then show ?thesis by blast
qed

theorem batch_gets_sent_witness:
  "\<exists>run. run 0 = ex_chans 256 \<and> execution (\<lambda>_. Some ex_reply) run \<and> (\<exists>i. batch (run i) = [])"
proof -
  obtain run where r: "execution (\<lambda>_. Some ex_reply) run" "run 0 = ex_chans 256"
    using execution_exists by blast
  then show ?thesis
    using batch_gets_sent[OF r(1)] by (auto simp: ex_chans_def CHANNEL_BOUND_def)
qed

lemma cstep_run:
  "n \<le> length (batch s) \<Longrightarrow> length (reps s) + n \<le> CHANNEL_BOUND \<Longrightarrow> reqs s = [] \<Longrightarrow> hand s = None \<Longrightarrow>
   (\<And>m. answer m \<noteq> None) \<Longrightarrow>
   \<exists>t. (cstep answer)\<^sup>*\<^sup>* s t \<and> batch t = drop n (batch s) \<and> reqs t = [] \<and> hand t = None \<and> length (reps t) = length (reps s) + n"
proof (induction n arbitrary: s)
  case (Suc n)
  obtain m ms where b: "batch s = m # ms" using Suc.prems(1) by (cases "batch s") auto
  obtain r where r: "answer m = Some r" using Suc.prems(5) by blast
  let ?s1 = "s\<lparr>batch := ms, reqs := [m]\<rparr>"
  let ?s2 = "?s1\<lparr>hand := Some m, reqs := []\<rparr>"
  let ?s3 = "?s2\<lparr>hand := None, reps := reps s @ [r]\<rparr>"
  have 1: "cstep answer s ?s1"
    using cstep.io_send[OF b, of answer] Suc.prems(3) by (simp add: CHANNEL_BOUND_def)
  have 2: "cstep answer ?s1 ?s2"
    using cstep.auth_recv[of ?s1 m "[]" answer] Suc.prems(4) by simp
  have 3: "cstep answer ?s2 ?s3"
    using cstep.auth_reply[of ?s2 m answer r] r Suc.prems(2) by simp
  obtain t where t: "(cstep answer)\<^sup>*\<^sup>* ?s3 t" "batch t = drop n ms" "reqs t = []" "hand t = None"
    "length (reps t) = length (reps s) + Suc n"
    using Suc.IH[of ?s3] Suc.prems b by auto
  have "(cstep answer)\<^sup>*\<^sup>* s t"
    using 1 2 3 t(1) by (meson converse_rtranclp_into_rtranclp)
  then show ?case using t b by auto
qed auto

lemma cstep_fill:
  "n \<le> length (batch s) \<Longrightarrow> length (reqs s) + n \<le> CHANNEL_BOUND \<Longrightarrow>
   \<exists>t. (cstep answer)\<^sup>*\<^sup>* s t \<and> batch t = drop n (batch s) \<and> length (reqs t) = length (reqs s) + n \<and> hand t = hand s \<and> reps t = reps s"
proof (induction n arbitrary: s)
  case (Suc n)
  obtain m ms where b: "batch s = m # ms" using Suc.prems(1) by (cases "batch s") auto
  let ?s1 = "s\<lparr>batch := ms, reqs := reqs s @ [m]\<rparr>"
  have 1: "cstep answer s ?s1" using cstep.io_send[OF b, of answer] Suc.prems(2) by simp
  obtain t where "(cstep answer)\<^sup>*\<^sup>* ?s1 t" "batch t = drop n ms" "length (reqs t) = length (reqs s) + Suc n"
    "hand t = hand s" "reps t = reps s"
    using Suc.IH[of ?s1] Suc.prems b by auto
  then show ?case using 1 b by (auto intro: converse_rtranclp_into_rtranclp)
qed auto

text \<open>C37. Beyond that bound the two threads can block each other for good: from empty
  channels, a round of 514 or more requests can reach a state in which the I/O thread
  waits for room in the full request channel and the authority for room in the full
  reply channel.\<close>

theorem channels_can_deadlock:
  assumes "2 * CHANNEL_BOUND + 2 \<le> length ms" "\<And>m. answer m \<noteq> None"
  shows "\<exists>t. (cstep answer)\<^sup>*\<^sup>* \<lparr>batch = ms, reqs = [], hand = None, reps = []\<rparr> t \<and>
     batch t \<noteq> [] \<and> cstuck answer t"
proof -
  let ?s = "\<lparr>batch = ms, reqs = [], hand = None, reps = []\<rparr>"
  obtain a where a: "(cstep answer)\<^sup>*\<^sup>* ?s a" "batch a = drop CHANNEL_BOUND ms" "reqs a = []" "hand a = None"
    "length (reps a) = CHANNEL_BOUND"
    using cstep_run[of CHANNEL_BOUND ?s answer] assms by auto
  have len1: "1 \<le> length (batch a)" "length (reqs a) + 1 \<le> CHANNEL_BOUND"
    using a(2,3) assms(1) by (simp_all add: CHANNEL_BOUND_def)
  obtain b where b: "(cstep answer)\<^sup>*\<^sup>* a b" "batch b = drop (CHANNEL_BOUND + 1) ms" "length (reqs b) = 1"
    "hand b = None" "length (reps b) = CHANNEL_BOUND"
    using cstep_fill[OF len1, of answer] a(2-5) by (auto simp: CHANNEL_BOUND_def)
  obtain m where m: "reqs b = [m]" using b(3) by (metis One_nat_def length_0_conv length_Suc_conv)
  let ?c = "b\<lparr>hand := Some m, reqs := []\<rparr>"
  have c: "cstep answer b ?c" using cstep.auth_recv[OF b(4) m] by simp
  have len2: "CHANNEL_BOUND \<le> length (batch ?c)" "length (reqs ?c) + CHANNEL_BOUND \<le> CHANNEL_BOUND"
    using b(2) assms(1) by (simp_all add: CHANNEL_BOUND_def)
  obtain d where d: "(cstep answer)\<^sup>*\<^sup>* ?c d" "batch d = drop (2 * CHANNEL_BOUND + 1) ms"
    "length (reqs d) = CHANNEL_BOUND" "hand d = Some m" "length (reps d) = CHANNEL_BOUND"
    using cstep_fill[OF len2, of answer] b(2-5) by (auto simp: CHANNEL_BOUND_def)
  have ne: "batch d \<noteq> []" using d(2) assms(1) by simp
  have "cstuck answer d"
    using d(3-5) assms(2)[of m] ne by (auto simp: cstuck_def elim!: cstep.cases)
  moreover have "(cstep answer)\<^sup>*\<^sup>* ?s d"
    using a(1) b(1) c d(1) by (meson rtranclp_trans converse_rtranclp_into_rtranclp)
  ultimately show ?thesis using ne by blast
qed

theorem channels_can_deadlock_witness:
  "\<exists>t. (cstep (\<lambda>_. Some ex_reply))\<^sup>*\<^sup>* (ex_chans 514) t \<and> batch t \<noteq> [] \<and> cstuck (\<lambda>_. Some ex_reply) t"
  using channels_can_deadlock[of "replicate 514 ex_msg" "\<lambda>_. Some ex_reply"]
  by (simp add: CHANNEL_BOUND_def ex_chans_def)
end
