(* ===== verification/Session.thy ===== *)
theory Session
  imports Prelude
begin

text \<open>
  The session shared memory of \<^verbatim>\<open>triskelion/event_loop/mod.rs\<close>: a table of user entries followed by
  a pool of shared objects, the allocators of both, and the sequence-lock writes.  The memory
  is the content of the memfd, which the mapping and \<^verbatim>\<open>pwrite\<close> both change.  A write through the
  mapping outside of it is \<open>None\<close>.
\<close>

section \<open>Layout\<close>

definition SHARED_OBJECT_STRIDE :: nat where "SHARED_OBJECT_STRIDE = 1024"
definition USER_ENTRY_SIZE :: nat where "USER_ENTRY_SIZE = 32"
definition USER_ENTRIES :: nat where "USER_ENTRIES = 32744"
definition FIRST_USER_HANDLE :: u32 where "FIRST_USER_HANDLE = 0x20"
definition DESKTOP_OFFSET :: nat where "DESKTOP_OFFSET = USER_ENTRY_SIZE * USER_ENTRIES"
definition SESSION_SIZE :: nat where "SESSION_SIZE = DESKTOP_OFFSET + 4 * 1024 * 1024"
definition DESKTOP_LOCATOR_ID :: u64 where "DESKTOP_LOCATOR_ID = 0x100"

lemmas layout_defs = SHARED_OBJECT_STRIDE_def USER_ENTRY_SIZE_def USER_ENTRIES_def DESKTOP_OFFSET_def
  SESSION_SIZE_def

record session =
  session_fd :: fd
  session_mapped :: bool
  session_mem :: bytes
  next_shared_offset :: u64
  next_shared_id :: u64
  next_user_handle_index :: u32
  user_handle_free_list :: "u32 list"

section \<open>Operations\<close>

subsection \<open>Writes\<close>

text \<open>Writes through the mapping, and \<^verbatim>\<open>pwrite\<close> to the memfd.  What \<^verbatim>\<open>pwrite\<close> puts past the end of the
  mapping only grows the file.\<close>

definition map_write :: "(nat \<times> bytes) list \<Rightarrow> session \<Rightarrow> session option" where
  "map_write ws s = map_option (\<lambda>m. s\<lparr>session_mem := m\<rparr>) (puts ws (session_mem s))"

definition pwrite :: "nat \<Rightarrow> bytes \<Rightarrow> session \<Rightarrow> session" where
  "pwrite off bs s =
     (if session_fd s < 0 then s
      else s\<lparr>session_mem := map (\<lambda>i. if off \<le> i \<and> i < off + length bs then bs ! (i - off) else session_mem s ! i)
                [0..<length (session_mem s)]\<rparr>)"

text \<open>The stores that make a fresh object: sequence number 0 and the identifier.\<close>

definition init_object :: "u64 \<Rightarrow> u64 \<Rightarrow> session \<Rightarrow> session option" where
  "init_object off i s =
     (if session_mapped s \<and> unat off + SHARED_OBJECT_STRIDE \<le> length (session_mem s)
      then map_write [(unat off, u64_to_le 0), (unat off + 8, u64_to_le i)] s
      else Some s)"

text \<open>\<open>None\<close> is also the panic of the checked addition.\<close>

definition bump_object :: "session \<Rightarrow> (u64 \<times> u64 \<times> session) option" where
  "bump_object s =
     (let off = next_shared_offset s; i = next_shared_id s in
      if unat off + SHARED_OBJECT_STRIDE < 2 ^ 64
      then Some (off, i, s\<lparr>next_shared_offset := off + of_nat SHARED_OBJECT_STRIDE, next_shared_id := i + 1\<rparr>)
      else None)"

definition alloc_shared_object :: "session \<Rightarrow> (bytes \<times> session) option" where
  "alloc_shared_object s = do {
     (off, i, s) \<leftarrow> bump_object s;
     s \<leftarrow> init_object off i s;
     Some (u64_to_le i @ u64_to_le off, s) }"

subsection \<open>User handles\<close>

definition user_handle :: "u32 \<Rightarrow> u32" where
  "user_handle index = push_bit 1 index + FIRST_USER_HANDLE"

definition handle_slot :: "u32 \<Rightarrow> u32" where
  "handle_slot h = drop_bit 1 (h - FIRST_USER_HANDLE)"

definition take_handle_index :: "session \<Rightarrow> u32 \<times> session" where
  "take_handle_index s =
     (if user_handle_free_list s \<noteq> []
      then (last (user_handle_free_list s), s\<lparr>user_handle_free_list := butlast (user_handle_free_list s)\<rparr>)
      else (next_user_handle_index s, s\<lparr>next_user_handle_index := next_user_handle_index s + 1\<rparr>))"

definition user_entry :: "u64 \<Rightarrow> u32 \<Rightarrow> u32 \<Rightarrow> u64 \<Rightarrow> u16 \<Rightarrow> bytes" where
  "user_entry off tid pid i ty =
     u64_to_le off @ u32_to_le tid @ u32_to_le pid @ u64_to_le i @ u16_to_le ty @ u16_to_le 0 @ [0, 0, 0, 0]"

definition alloc_user_handle :: "u16 \<Rightarrow> u32 \<Rightarrow> u32 \<Rightarrow> session \<Rightarrow> (u32 \<times> session) option" where
  "alloc_user_handle ty tid pid s =
     (let (index, s) = take_handle_index s in do {
        (off, i, s) \<leftarrow> bump_object s;
        s \<leftarrow> init_object off i s;
        Some (user_handle index, pwrite (unat index * USER_ENTRY_SIZE) (user_entry off tid pid i ty) s) })"

definition reassign_user_handle_owner :: "u32 \<Rightarrow> u32 \<Rightarrow> u32 \<Rightarrow> session \<Rightarrow> session" where
  "reassign_user_handle_owner h tid pid s =
     (if h < FIRST_USER_HANDLE then s
      else pwrite (unat (handle_slot h) * USER_ENTRY_SIZE + 8) (u32_to_le tid @ u32_to_le pid) s)"

text \<open>Returning an index: \<^verbatim>\<open>handle_free_user_handle\<close> checks the range, \<^verbatim>\<open>handle_destroy_window\<close> only
  the lower bound.  The results are the status and the new state.\<close>

definition free_user_handle :: "u32 \<Rightarrow> session \<Rightarrow> u32 \<times> session" where
  "free_user_handle h s =
     (if h < FIRST_USER_HANDLE then (0xC0000008, s)
      else if next_user_handle_index s \<le> handle_slot h then (0xC0000008, s)
      else (0, s\<lparr>user_handle_free_list := user_handle_free_list s @ [handle_slot h]\<rparr>))"

definition recycle_window_handle :: "u32 \<Rightarrow> session \<Rightarrow> session" where
  "recycle_window_handle h s =
     (if FIRST_USER_HANDLE \<le> h
      then s\<lparr>user_handle_free_list := user_handle_free_list s @ [handle_slot h]\<rparr> else s)"

subsection \<open>Sequence-lock writes\<close>

definition seq_at :: "nat \<Rightarrow> bytes \<Rightarrow> u64" where
  "seq_at off m = u64_from_le (take 8 (drop off m))"

text \<open>The stores of one protected write, in order.  The fields are offsets into the data region.\<close>

definition seqlock_stores :: "nat \<Rightarrow> u64 \<Rightarrow> (nat \<times> bytes) list \<Rightarrow> (nat \<times> bytes) list" where
  "seqlock_stores off old fs =
     (off, u64_to_le (old OR 1))
     # map (\<lambda>(o', bs). (off + 16 + o', bs)) fs
     @ [(off, u64_to_le ((old AND NOT 1) + 2))]"

text \<open>The memories another process can see while a list of stores is carried out, the first one included.\<close>

fun store_trace :: "(nat \<times> bytes) list \<Rightarrow> bytes \<Rightarrow> bytes list" where
  "store_trace [] m = [m]"
| "store_trace ((off, bs) # ws) m =
     m # (case put off bs m of None \<Rightarrow> [] | Some m' \<Rightarrow> store_trace ws m')"

text \<open>The sum in the range check wraps.\<close>

definition object_in_range :: "u64 \<Rightarrow> session \<Rightarrow> bool" where
  "object_in_range off s \<longleftrightarrow> session_mapped s \<and> unat (off + 1024) \<le> length (session_mem s)"

definition shared_write :: "u64 \<Rightarrow> (bytes \<Rightarrow> (nat \<times> bytes) list) \<Rightarrow> session \<Rightarrow> session option" where
  "shared_write off flds s =
     (if object_in_range off s
      then map_write (seqlock_stores (unat off) (seq_at (unat off) (session_mem s))
                       (flds (drop (unat off + 16) (session_mem s)))) s
      else Some s)"

definition set_window_shm :: "u64 \<Rightarrow> bytes \<Rightarrow> u32 \<Rightarrow> session \<Rightarrow> session option" where
  "set_window_shm off class_locator dpi =
     shared_write off (\<lambda>_. [(0, class_locator), (16, u32_to_le dpi)])"

definition u32_at :: "nat \<Rightarrow> bytes \<Rightarrow> u32" where
  "u32_at off m = u32_from_le (take 4 (drop off m))"

text \<open>The bits of a message queue: \<^verbatim>\<open>wake_bits\<close> at offset 12 of the data, \<^verbatim>\<open>changed_bits\<close> at 20.\<close>

definition locator_offset :: "bytes \<Rightarrow> u64" where
  "locator_offset loc = u64_from_le (take 8 (drop 8 loc))"

definition write_queue_bits :: "(u32 \<Rightarrow> u32) \<Rightarrow> bytes \<Rightarrow> session \<Rightarrow> session option" where
  "write_queue_bits g loc =
     shared_write (locator_offset loc)
       (\<lambda>d. [(12, u32_to_le (g (u32_at 12 d))), (20, u32_to_le (g (u32_at 20 d)))])"

definition set_queue_bits :: "u32 \<Rightarrow> bytes \<Rightarrow> session \<Rightarrow> session option" where
  "set_queue_bits bits = write_queue_bits (\<lambda>w. w OR bits)"

definition clear_queue_bits :: "u32 \<Rightarrow> bytes \<Rightarrow> session \<Rightarrow> session option" where
  "clear_queue_bits bits = write_queue_bits (\<lambda>w. w AND NOT bits)"

subsection \<open>Creation\<close>

text \<open>\<open>fd\<close> is the memfd, \<open>ok\<close> whether the mapping succeeded, \<open>w\<close> and \<open>h\<close> the default resolution.\<close>

definition desktop_fields :: "u32 \<Rightarrow> u32 \<Rightarrow> (nat \<times> bytes) list" where
  "desktop_fields w h =
     [(DESKTOP_OFFSET, u64_to_le 0), (DESKTOP_OFFSET + 8, u64_to_le DESKTOP_LOCATOR_ID),
      (DESKTOP_OFFSET + 16, u32_to_le 0), (DESKTOP_OFFSET + 16 + 24, u32_to_le w),
      (DESKTOP_OFFSET + 16 + 28, u32_to_le h), (DESKTOP_OFFSET + 16 + 288, u64_to_le 1)]"

definition session_new :: "fd \<Rightarrow> bool \<Rightarrow> u32 \<Rightarrow> u32 \<Rightarrow> session option" where
  "session_new f ok w h =
     (let s = \<lparr>session_fd = f, session_mapped = (0 \<le> f \<and> ok), session_mem = replicate SESSION_SIZE 0,
               next_shared_offset = of_nat (DESKTOP_OFFSET + SHARED_OBJECT_STRIDE),
               next_shared_id = DESKTOP_LOCATOR_ID + 1, next_user_handle_index = 0,
               user_handle_free_list = []\<rparr>
      in if session_mapped s then map_write (desktop_fields w h) s else Some s)"

section \<open>Frame facts\<close>

text \<open>A list of writes that all stay clear of a range leaves the range alone.\<close>

lemma puts_frame:
  "puts fs b = Some b' \<Longrightarrow> \<forall>f\<in>set fs. y \<le> fst f \<or> fst f + length (snd f) \<le> x \<Longrightarrow> slice x y b' = slice x y b"
proof (induction fs arbitrary: b)
  case (Cons f fs)
  then obtain b1 where b1: "put (fst f) (snd f) b = Some b1" "puts fs b1 = Some b'"
    by (cases f) (auto simp: bind_eq_Some_conv)
  then show ?case using Cons slice_put_other[OF b1(1), of y x] by auto
qed simp

lemma puts_length: "puts fs b = Some b' \<Longrightarrow> length b' = length b"
  by (induction fs b rule: puts.induct) (auto simp: bind_eq_Some_conv dest: put_length)

lemma puts_in_range: "\<forall>f\<in>set fs. fst f + length (snd f) \<le> length b \<Longrightarrow> \<exists>b'. puts fs b = Some b'"
proof (induction fs arbitrary: b)
  case (Cons f fs)
  then obtain b1 where b1: "put (fst f) (snd f) b = Some b1" by (cases f) (auto simp: put_def)
  then show ?case using Cons.IH[of b1] Cons.prems put_length[OF b1] by (cases f) auto
qed simp

lemma rd_u64_frame:
  "puts fs b = Some b' \<Longrightarrow> \<forall>f\<in>set fs. off + 8 \<le> fst f \<or> fst f + length (snd f) \<le> off \<Longrightarrow> rd_u64 off b' = rd_u64 off b"
  by (simp add: rd_u64_def puts_frame)

lemma pwrite_puts:
  assumes "0 \<le> session_fd s" and "off + length bs \<le> length (session_mem s)"
  shows "map_write [(off, bs)] s = Some (pwrite off bs s)"
proof -
  obtain m where m: "put off bs (session_mem s) = Some m" using assms(2) by (simp add: put_def)
  have "m = map (\<lambda>i. if off \<le> i \<and> i < off + length bs then bs ! (i - off) else session_mem s ! i)
      [0..<length (session_mem s)]"
    by (rule nth_equalityI) (simp_all add: put_length[OF m] nth_put[OF m])
  then show ?thesis using assms(1) m by (simp add: map_write_def pwrite_def)
qed

lemma pwrite_simps [simp]:
  "session_fd (pwrite off bs s) = session_fd s" "session_mapped (pwrite off bs s) = session_mapped s"
  "length (session_mem (pwrite off bs s)) = length (session_mem s)"
  "next_shared_offset (pwrite off bs s) = next_shared_offset s" "next_shared_id (pwrite off bs s) = next_shared_id s"
  "next_user_handle_index (pwrite off bs s) = next_user_handle_index s"
  "user_handle_free_list (pwrite off bs s) = user_handle_free_list s"
  by (simp_all add: pwrite_def)

lemma map_write_simps:
  assumes "map_write ws s = Some s'"
  shows "puts ws (session_mem s) = Some (session_mem s')" and "length (session_mem s') = length (session_mem s)"
    and "s' = s\<lparr>session_mem := session_mem s'\<rparr>"
  using assms puts_length by (auto simp: map_write_def)

section \<open>The layout invariant\<close>

definition object_offset :: "nat \<Rightarrow> nat" where
  "object_offset j = DESKTOP_OFFSET + SHARED_OBJECT_STRIDE * j"

definition POOL_OBJECTS :: nat where "POOL_OBJECTS = 4096"

text \<open>The user entry of an index names an object that carries the same identifier.\<close>

definition resolves :: "nat \<Rightarrow> bytes \<Rightarrow> u32 \<Rightarrow> u64 \<Rightarrow> bool" where
  "resolves k m index i \<longleftrightarrow>
     (\<exists>off j. rd_u64 (USER_ENTRY_SIZE * unat index) m = Some off \<and>
        rd_u64 (USER_ENTRY_SIZE * unat index + 16) m = Some i \<and>
        unat off = object_offset j \<and> 0 < j \<and> j < k \<and> rd_u64 (object_offset j + 8) m = Some i)"

text \<open>\<open>live\<close> gives the identifier of every index in use, \<open>k\<close> counts the objects handed out.\<close>

definition session_inv :: "(u32 \<rightharpoonup> u64) \<Rightarrow> nat \<Rightarrow> session \<Rightarrow> bool" where
  "session_inv live k s \<longleftrightarrow>
     0 \<le> session_fd s \<and> session_mapped s \<and> length (session_mem s) = SESSION_SIZE \<and>
     1 \<le> k \<and> k \<le> POOL_OBJECTS \<and> unat (next_shared_offset s) = object_offset k \<and>
     distinct (user_handle_free_list s) \<and> set (user_handle_free_list s) \<inter> dom live = {} \<and>
     set (user_handle_free_list s) \<union> dom live = {i. i < next_user_handle_index s} \<and>
     unat (next_user_handle_index s) \<le> USER_ENTRIES \<and>
     (\<forall>index i. live index = Some i \<longrightarrow> resolves k (session_mem s) index i)"

text \<open>Writes clear of the user entries and of the identifiers leave every resolution intact.\<close>

definition clear_of_ids :: "nat \<Rightarrow> nat \<times> bytes \<Rightarrow> bool" where
  "clear_of_ids k f \<longleftrightarrow> DESKTOP_OFFSET \<le> fst f \<and>
     (\<forall>j<k. object_offset j + 16 \<le> fst f \<or> fst f + length (snd f) \<le> object_offset j + 8)"

lemma resolves_frame:
  assumes "resolves k m index i" and "puts ws m = Some m'" and "unat index < USER_ENTRIES"
    and "\<forall>f\<in>set ws. clear_of_ids k f"
  shows "resolves k m' index i"
proof -
  have "USER_ENTRY_SIZE * unat index + 24 \<le> DESKTOP_OFFSET" using assms(3) by (simp add: layout_defs)
  then have e: "rd_u64 (USER_ENTRY_SIZE * unat index) m' = rd_u64 (USER_ENTRY_SIZE * unat index) m"
    "rd_u64 (USER_ENTRY_SIZE * unat index + 16) m' = rd_u64 (USER_ENTRY_SIZE * unat index + 16) m"
    using assms(4) by (auto intro!: rd_u64_frame[OF assms(2)] simp: clear_of_ids_def)
  have "rd_u64 (object_offset j + 8) m' = rd_u64 (object_offset j + 8) m" if "j < k" for j
    using assms(4) that by (intro rd_u64_frame[OF assms(2)]) (auto simp: clear_of_ids_def add.commute)
  then show ?thesis using assms(1) unfolding resolves_def e by metis
qed

lemma session_inv_live:
  assumes "session_inv live k s" and "live index = Some i"
  shows "index < next_user_handle_index s" and "unat index < USER_ENTRIES" and "resolves k (session_mem s) index i"
proof -
  from assms have "index \<in> set (user_handle_free_list s) \<union> dom live" by auto
  then show l: "index < next_user_handle_index s" using assms(1) unfolding session_inv_def by blast
  then show "unat index < USER_ENTRIES" using assms(1) by (simp add: session_inv_def word_less_nat_alt)
  show "resolves k (session_mem s) index i" using assms by (simp add: session_inv_def)
qed

lemma session_inv_map_write:
  assumes "session_inv live k s" and "map_write ws s = Some s'" and "\<forall>f\<in>set ws. clear_of_ids k f"
  shows "session_inv live k s'"
proof -
  note w = map_write_simps[OF assms(2)]
  have "\<forall>index i. live index = Some i \<longrightarrow> resolves k (session_mem s') index i"
    using session_inv_live(2,3)[OF assms(1)] resolves_frame[OF _ w(1) _ assms(3)] by blast
  moreover have "s' = s\<lparr>session_mem := session_mem s'\<rparr>" by (rule w(3))
  ultimately show ?thesis using assms(1) w(2) by (cases s; cases s') (simp add: session_inv_def)
qed

section \<open>Every operation keeps the layout\<close>

lemma object_offset_less: "j < k \<Longrightarrow> object_offset j + SHARED_OBJECT_STRIDE \<le> object_offset k"
proof -
  assume "j < k"
  then have "SHARED_OBJECT_STRIDE * Suc j \<le> SHARED_OBJECT_STRIDE * k" by (intro mult_le_mono2) simp
  then show ?thesis by (simp add: object_offset_def)
qed

lemma object_in_pool: "j < POOL_OBJECTS \<Longrightarrow> object_offset j + SHARED_OBJECT_STRIDE \<le> SESSION_SIZE"
  using object_offset_less[of j POOL_OBJECTS] by (simp add: object_offset_def POOL_OBJECTS_def layout_defs)

lemma resolves_mono: "resolves k m index i \<Longrightarrow> k \<le> k' \<Longrightarrow> resolves k' m index i"
  unfolding resolves_def by fastforce

text \<open>Taking the next object: it lies in the pool, is fresh, and disturbs nothing.\<close>

lemma take_object:
  assumes inv: "session_inv live k s" and room: "k < POOL_OBJECTS"
  obtains off s' where "bump_object s = Some (off, next_shared_id s,
      s\<lparr>next_shared_offset := off + of_nat SHARED_OBJECT_STRIDE, next_shared_id := next_shared_id s + 1\<rparr>)"
    and "init_object off (next_shared_id s)
      (s\<lparr>next_shared_offset := off + of_nat SHARED_OBJECT_STRIDE, next_shared_id := next_shared_id s + 1\<rparr>) = Some s'"
    and "off = next_shared_offset s" and "unat off = object_offset k" and "session_inv live (k + 1) s'"
    and "rd_u64 (object_offset k + 8) (session_mem s') = Some (next_shared_id s)"
    and "user_handle_free_list s' = user_handle_free_list s" and "next_user_handle_index s' = next_user_handle_index s"
proof -
  define off where "off = next_shared_offset s"
  have off: "unat off = object_offset k" using inv by (simp add: off_def session_inv_def)
  have fits: "object_offset k + SHARED_OBJECT_STRIDE \<le> SESSION_SIZE" using room by (rule object_in_pool)
  then have no_wrap: "unat off + SHARED_OBJECT_STRIDE < 2 ^ 64" unfolding off by (simp add: layout_defs)
  define s1 where "s1 = s\<lparr>next_shared_offset := off + of_nat SHARED_OBJECT_STRIDE, next_shared_id := next_shared_id s + 1\<rparr>"
  have "unat (off + of_nat SHARED_OBJECT_STRIDE) = object_offset (k + 1)"
    using no_wrap by (simp add: unat_word_ariths unat_of_nat off object_offset_def SHARED_OBJECT_STRIDE_def)
  then have inv1: "session_inv live (k + 1) s1"
    using inv room resolves_mono[of k _ _ _ "k + 1"] by (auto simp: session_inv_def s1_def)
  let ?ws = "[(object_offset k, u64_to_le 0), (object_offset k + 8, u64_to_le (next_shared_id s))]"
  from fits inv have "\<exists>m. puts ?ws (session_mem s1) = Some m"
    by (intro puts_in_range) (auto simp: s1_def session_inv_def SHARED_OBJECT_STRIDE_def)
  then obtain s' where w: "map_write ?ws s1 = Some s'" by (auto simp: map_write_def)
  have "\<forall>f\<in>set ?ws. clear_of_ids k f"
    using object_offset_less by (fastforce simp: clear_of_ids_def SHARED_OBJECT_STRIDE_def object_offset_def)
  note old = resolves_frame[OF _ map_write_simps(1)[OF w] _ this]
  have m: "map_write ?ws s1 = Some (s1\<lparr>session_mem := session_mem s'\<rparr>)"
    using w map_write_simps(3)[OF w] by simp
  then have s': "s' = s1\<lparr>session_mem := session_mem s'\<rparr>" using w by simp
  have "resolves (k + 1) (session_mem s') index i" if "live index = Some i" for index i
    using session_inv_live(2,3)[OF inv that] old[of index i] resolves_mono[of k _ _ _ "k + 1"]
    by (simp add: s1_def)
  then have "session_inv live (k + 1) s'"
    using inv1 map_write_simps(2)[OF w] s' by (cases s'; cases s1) (simp add: session_inv_def)
  moreover have "rd_u64 (object_offset k + 8) (session_mem s') = Some (next_shared_id s)"
    using map_write_simps(1)[OF w] by (auto simp: bind_eq_Some_conv intro: c64.rd_put_same)
  moreover have "init_object off (next_shared_id s) s1 = Some s'"
    using inv fits w by (simp add: init_object_def off s1_def session_inv_def)
  moreover have "user_handle_free_list s' = user_handle_free_list s" "next_user_handle_index s' = next_user_handle_index s"
    by (subst s', simp add: s1_def)+
  ultimately show ?thesis
    using that[of off s'] no_wrap off by (simp add: bump_object_def Let_def s1_def off_def)
qed

lemma alloc_shared_object_inv:
  assumes "session_inv live k s" and "k < POOL_OBJECTS"
  shows "\<exists>s'. alloc_shared_object s = Some (u64_to_le (next_shared_id s) @ u64_to_le (next_shared_offset s), s') \<and>
     session_inv live (k + 1) s'"
  by (rule take_object[OF assms]) (simp add: alloc_shared_object_def)

text \<open>The index an allocation uses is not in use, and is the one its handle encodes.\<close>

lemma user_handle_unat: "unat index < USER_ENTRIES \<Longrightarrow> unat (user_handle index) = 2 * unat index + 32"
  by (simp add: user_handle_def push_bit_eq_mult unat_word_ariths layout_defs FIRST_USER_HANDLE_def)

lemma user_handle_ge: "unat index < USER_ENTRIES \<Longrightarrow> FIRST_USER_HANDLE \<le> user_handle index"
  by (simp add: word_le_nat_alt user_handle_unat) (simp add: FIRST_USER_HANDLE_def)

lemma handle_slot_user_handle: "unat index < USER_ENTRIES \<Longrightarrow> handle_slot (user_handle index) = index"
proof -
  assume a: "unat index < USER_ENTRIES"
  have "unat (user_handle index - FIRST_USER_HANDLE) = 2 * unat index"
    using user_handle_ge[OF a] user_handle_unat[OF a] by (simp add: unat_sub FIRST_USER_HANDLE_def)
  then show ?thesis by (simp add: handle_slot_def word_unat_eq_iff drop_bit_eq_div unat_div)
qed

definition handle_room :: "session \<Rightarrow> bool" where
  "handle_room s \<longleftrightarrow> user_handle_free_list s \<noteq> [] \<or> unat (next_user_handle_index s) < USER_ENTRIES"

lemma take_index:
  assumes inv: "session_inv live k s" and room: "handle_room s"
  obtains index fl n where "take_handle_index s = (index, s\<lparr>user_handle_free_list := fl, next_user_handle_index := n\<rparr>)"
    and "index \<notin> dom live" and "unat index < USER_ENTRIES" and "distinct fl" and "index \<notin> set fl"
    and "set fl \<inter> dom live = {}" and "insert index (set fl \<union> dom live) = {i. i < n}" and "unat n \<le> USER_ENTRIES"
proof (cases "user_handle_free_list s = []")
  case True
  let ?n = "next_user_handle_index s"
  have dom: "dom live = {i. i < ?n}" and n: "unat ?n < USER_ENTRIES"
    using inv room True by (auto simp: session_inv_def handle_room_def)
  then have n1: "unat (?n + 1) = unat ?n + 1" by (intro unat_inc_u32) (simp add: layout_defs)
  have "{i. i < ?n + 1} = insert ?n {i. i < ?n}"
    by (auto simp: word_less_nat_alt n1 less_Suc_eq) (simp add: word_unat_eq_iff)
  then show ?thesis using that[where index = ?n and fl = "[]" and n = "?n + 1"] True dom n n1
    by (simp add: take_handle_index_def)
next
  case False
  then obtain fs l where f: "user_handle_free_list s = fs @ [l]" using append_butlast_last_id by metis
  have d: "distinct fs" "l \<notin> set fs" "set fs \<inter> dom live = {}" "l \<notin> dom live"
    "insert l (set fs \<union> dom live) = {i. i < next_user_handle_index s}"
    "unat (next_user_handle_index s) \<le> USER_ENTRIES" using inv by (auto simp: session_inv_def f)
  then have "unat l < USER_ENTRIES" by (auto simp: word_less_nat_alt)
  then show ?thesis using that[where index = l and fl = fs and n = "next_user_handle_index s"] d
    by (simp add: take_handle_index_def f)
qed

lemma init_object_lists:
  "init_object off i (s\<lparr>user_handle_free_list := fl, next_user_handle_index := n\<rparr>) =
     map_option (\<lambda>t. t\<lparr>user_handle_free_list := fl, next_user_handle_index := n\<rparr>) (init_object off i s)"
  by (cases s) (simp add: init_object_def map_write_def option.map_comp comp_def)

lemma bump_object_lists:
  "bump_object (s\<lparr>user_handle_free_list := fl, next_user_handle_index := n\<rparr>) =
     map_option (\<lambda>(off, i, t). (off, i, t\<lparr>user_handle_free_list := fl, next_user_handle_index := n\<rparr>)) (bump_object s)"
  by (simp add: bump_object_def Let_def)

text \<open>Writing the entry of one index leaves the other indices resolved.\<close>

lemma resolves_entry_frame:
  assumes "resolves k m index i" and "put (unat j * USER_ENTRY_SIZE) bs m = Some m'" and "length bs \<le> USER_ENTRY_SIZE"
    and "index \<noteq> j" and "unat j < USER_ENTRIES"
  shows "resolves k m' index i"
proof -
  have "unat index \<noteq> unat j" using assms(4) by (simp add: word_unat_eq_iff)
  then have "unat index * 32 + 24 \<le> unat j * 32 \<or> unat j * 32 + 32 \<le> unat index * 32" by arith
  then have e: "rd_u64 (USER_ENTRY_SIZE * unat index) m' = rd_u64 (USER_ENTRY_SIZE * unat index) m"
    "rd_u64 (USER_ENTRY_SIZE * unat index + 16) m' = rd_u64 (USER_ENTRY_SIZE * unat index + 16) m"
    using assms(3) by (auto intro!: c64.rd_put_other[OF assms(2)] simp: USER_ENTRY_SIZE_def)
  have "rd_u64 (object_offset o' + 8) m' = rd_u64 (object_offset o' + 8) m" for o'
    using assms(3,5) by (intro c64.rd_put_other[OF assms(2)]) (simp add: object_offset_def layout_defs)
  then show ?thesis using assms(1) unfolding resolves_def e by metis
qed

lemma rd_u64_slice_sub:
  "slice a c b = Some (xs @ u64_to_le w @ ys) \<Longrightarrow> off = a + length xs \<Longrightarrow> rd_u64 off b = Some w"
proof (rule rd_u64_slice)
  assume s: "slice a c b = Some (xs @ u64_to_le w @ ys)" and "off = a + length xs"
  moreover from slice_length[OF s] have "c = a + (length xs + 8 + length ys)" by (auto simp: slice_def split: if_splits)
  ultimately show "slice off (off + 8) b = Some (u64_to_le w)" using slice_sub[OF s, of off "off + 8"] by simp
qed

lemma alloc_user_handle_inv:
  assumes inv: "session_inv live k s" and room: "k < POOL_OBJECTS" "handle_room s"
  obtains index s' where "alloc_user_handle ty tid pid s = Some (user_handle index, s')" and "index \<notin> dom live"
    and "unat index < USER_ENTRIES" and "session_inv (live(index \<mapsto> next_shared_id s)) (k + 1) s'"
    and "slice (unat index * USER_ENTRY_SIZE) (unat index * USER_ENTRY_SIZE + USER_ENTRY_SIZE) (session_mem s') =
           Some (user_entry (next_shared_offset s) tid pid (next_shared_id s) ty)"
proof -
  obtain off s2 where o: "bump_object s = Some (off, next_shared_id s,
      s\<lparr>next_shared_offset := off + of_nat SHARED_OBJECT_STRIDE, next_shared_id := next_shared_id s + 1\<rparr>)"
    "init_object off (next_shared_id s)
      (s\<lparr>next_shared_offset := off + of_nat SHARED_OBJECT_STRIDE, next_shared_id := next_shared_id s + 1\<rparr>) = Some s2"
    "off = next_shared_offset s" "unat off = object_offset k" "session_inv live (k + 1) s2"
    "rd_u64 (object_offset k + 8) (session_mem s2) = Some (next_shared_id s)"
    by (rule take_object[OF inv room(1)]) (rule that)
  obtain index fl n where t: "take_handle_index s = (index, s\<lparr>user_handle_free_list := fl, next_user_handle_index := n\<rparr>)"
    "index \<notin> dom live" "unat index < USER_ENTRIES" "distinct fl" "index \<notin> set fl" "set fl \<inter> dom live = {}"
    "insert index (set fl \<union> dom live) = {i. i < n}" "unat n \<le> USER_ENTRIES"
    by (rule take_index[OF inv room(2)]) (rule that)
  define e where "e = user_entry off tid pid (next_shared_id s) ty"
  define s' where "s' = pwrite (unat index * USER_ENTRY_SIZE) e (s2\<lparr>user_handle_free_list := fl, next_user_handle_index := n\<rparr>)"
  have run: "alloc_user_handle ty tid pid s = Some (user_handle index, s')"
    using o(1,2) t(1) by (simp add: alloc_user_handle_def bump_object_lists init_object_lists s'_def e_def)
  have len: "length e = USER_ENTRY_SIZE" by (simp add: e_def user_entry_def USER_ENTRY_SIZE_def)
  have m: "0 \<le> session_fd s2" "length (session_mem s2) = SESSION_SIZE" using o(5) by (simp_all add: session_inv_def)
  have fits: "unat index * USER_ENTRY_SIZE + USER_ENTRY_SIZE \<le> DESKTOP_OFFSET" using t(3) by (simp add: layout_defs)
  then have p: "put (unat index * USER_ENTRY_SIZE) e (session_mem s2) = Some (session_mem s')"
    using pwrite_puts[of "s2\<lparr>user_handle_free_list := fl, next_user_handle_index := n\<rparr>" "unat index * USER_ENTRY_SIZE" e]
      m len map_write_simps(1) by (fastforce simp: s'_def SESSION_SIZE_def bind_eq_Some_conv)
  have sl: "slice (unat index * USER_ENTRY_SIZE) (unat index * USER_ENTRY_SIZE + USER_ENTRY_SIZE) (session_mem s') = Some e"
    by (rule slice_put_same[OF p]) (simp add: len)
  have "rd_u64 (USER_ENTRY_SIZE * unat index) (session_mem s') = Some off"
    by (rule rd_u64_slice_sub[where xs = "[]" and a = "unat index * USER_ENTRY_SIZE" and c = "unat index * USER_ENTRY_SIZE + USER_ENTRY_SIZE"
        and ys = "u32_to_le tid @ u32_to_le pid @ u64_to_le (next_shared_id s) @ u16_to_le ty @ u16_to_le 0 @ [0, 0, 0, 0]"]) (use sl in \<open>simp_all add: e_def user_entry_def\<close>)
  moreover have "rd_u64 (USER_ENTRY_SIZE * unat index + 16) (session_mem s') = Some (next_shared_id s)"
    by (rule rd_u64_slice_sub[where xs = "u64_to_le off @ u32_to_le tid @ u32_to_le pid" and a = "unat index * USER_ENTRY_SIZE" and c = "unat index * USER_ENTRY_SIZE + USER_ENTRY_SIZE"
        and ys = "u16_to_le ty @ u16_to_le 0 @ [0, 0, 0, 0]"])
      (use sl in \<open>simp_all add: e_def user_entry_def\<close>)
  moreover have "rd_u64 (object_offset k + 8) (session_mem s') = Some (next_shared_id s)"
    using o(6) c64.rd_put_other[OF p, of "object_offset k + 8"] fits by (simp add: object_offset_def len)
  ultimately have new: "resolves (k + 1) (session_mem s') index (next_shared_id s)"
    using o(4) inv by (auto simp: resolves_def session_inv_def)
  have old: "resolves (k + 1) (session_mem s') j i" if "live j = Some i" for j i
    using resolves_entry_frame[OF session_inv_live(3)[OF o(5) that] p] len t(2,3) that by auto
  have "session_inv (live(index \<mapsto> next_shared_id s)) (k + 1) s'"
    using o(5) t new old by (auto simp: session_inv_def s'_def)
  with run t(2,3) sl o(3) show ?thesis using that e_def by blast
qed

lemma return_index_inv:
  assumes "session_inv live k s" and "live index = Some i"
  shows "session_inv (live(index := None)) k (s\<lparr>user_handle_free_list := user_handle_free_list s @ [index]\<rparr>)"
proof -
  have "index \<in> dom live" using assms(2) by auto
  then show ?thesis using assms(1) unfolding session_inv_def by auto
qed

lemma free_user_handle_inv:
  assumes "session_inv live k s" and "live index = Some i"
  shows "\<exists>s'. free_user_handle (user_handle index) s = (0, s') \<and> session_inv (live(index := None)) k s'"
    and "session_inv (live(index := None)) k (recycle_window_handle (user_handle index) s)"
  using return_index_inv[OF assms] session_inv_live(1,2)[OF assms] user_handle_ge handle_slot_user_handle
  by (auto simp: free_user_handle_def recycle_window_handle_def not_less not_le[symmetric])

lemma reassign_owner_inv:
  assumes "session_inv live k s" and "live index = Some i"
  shows "session_inv live k (reassign_user_handle_owner (user_handle index) tid pid s)"
proof -
  note idx = session_inv_live[OF assms]
  let ?ws = "[(unat index * USER_ENTRY_SIZE + 8, u32_to_le tid @ u32_to_le pid)]"
  have fits: "unat index * USER_ENTRY_SIZE + 16 \<le> DESKTOP_OFFSET" using idx(2) by (simp add: layout_defs)
  have w: "map_write ?ws s = Some (pwrite (unat index * USER_ENTRY_SIZE + 8) (u32_to_le tid @ u32_to_le pid) s)"
    using assms(1) fits by (intro pwrite_puts) (auto simp: session_inv_def SESSION_SIZE_def)
  then have p: "puts ?ws (session_mem s) =
      Some (session_mem (pwrite (unat index * USER_ENTRY_SIZE + 8) (u32_to_le tid @ u32_to_le pid) s))"
    by (rule map_write_simps(1))
  have "resolves k (session_mem (pwrite (unat index * USER_ENTRY_SIZE + 8) (u32_to_le tid @ u32_to_le pid) s)) j x"
    if "live j = Some x" for j x
  proof -
    have "unat j * 32 + 24 \<le> unat index * 32 \<or> unat index * 32 + 32 \<le> unat j * 32 \<or> unat j = unat index" by arith
    then have e: "rd_u64 (USER_ENTRY_SIZE * unat j + d) (session_mem (pwrite (unat index * USER_ENTRY_SIZE + 8)
          (u32_to_le tid @ u32_to_le pid) s)) = rd_u64 (USER_ENTRY_SIZE * unat j + d) (session_mem s)" if "d = 0 \<or> d = 16" for d
      using that by (intro rd_u64_frame[OF p]) (auto simp: USER_ENTRY_SIZE_def)
    have "rd_u64 (object_offset o' + 8) (session_mem (pwrite (unat index * USER_ENTRY_SIZE + 8)
          (u32_to_le tid @ u32_to_le pid) s)) = rd_u64 (object_offset o' + 8) (session_mem s)" for o'
      using fits by (intro rd_u64_frame[OF p]) (auto simp: object_offset_def)
    then show ?thesis using session_inv_live(3)[OF assms(1) that] e[of 0] e[of 16]
      unfolding resolves_def by (simp only: add_0_right) metis
  qed
  then show ?thesis using assms(1) user_handle_ge[OF idx(2)] handle_slot_user_handle[OF idx(2)]
    by (auto simp: reassign_user_handle_owner_def session_inv_def not_less)
qed

text \<open>A protected write to an object of the pool, with its fields inside the object.\<close>

definition fields_fit :: "(bytes \<Rightarrow> (nat \<times> bytes) list) \<Rightarrow> bool" where
  "fields_fit flds \<longleftrightarrow> (\<forall>d. \<forall>f\<in>set (flds d). fst f + length (snd f) \<le> 1008)"

lemma seqlock_stores_within:
  assumes "f \<in> set (seqlock_stores off old fs)" and "\<forall>f\<in>set fs. fst f + length (snd f) \<le> 1008"
  shows "off \<le> fst f" and "fst f + length (snd f) \<le> off + 1024"
    and "fst f + length (snd f) \<le> off + 8 \<or> off + 16 \<le> fst f"
  using assms by (auto simp: seqlock_stores_def)

lemma shared_write_inv:
  assumes inv: "session_inv live k s" and j: "j < POOL_OBJECTS" "unat off = object_offset j" and fit: "fields_fit flds"
  shows "\<exists>s'. shared_write off flds s = Some s' \<and> session_inv live k s'"
proof -
  let ?ws = "seqlock_stores (unat off) (seq_at (unat off) (session_mem s)) (flds (drop (unat off + 16) (session_mem s)))"
  have last: "object_offset j + 1024 \<le> SESSION_SIZE" using object_in_pool[OF j(1)] by (simp add: SHARED_OBJECT_STRIDE_def)
  then have "unat off + 1024 < 2 ^ 64" by (simp add: j(2) layout_defs)
  then have "unat (off + 1024) = unat off + 1024" by (simp add: unat_word_ariths)
  then have ok: "object_in_range off s" using inv last j(2) by (simp add: object_in_range_def session_inv_def)
  have within: "unat off \<le> fst f" "fst f + length (snd f) \<le> unat off + 1024"
      "fst f + length (snd f) \<le> unat off + 8 \<or> unat off + 16 \<le> fst f" if "f \<in> set ?ws" for f
    using seqlock_stores_within[OF that] fit by (auto simp: fields_fit_def)
  have "\<exists>m. puts ?ws (session_mem s) = Some m"
    using within last inv j(2) by (intro puts_in_range) (fastforce simp: session_inv_def)
  then obtain s' where w: "map_write ?ws s = Some s'" by (auto simp: map_write_def)
  have "clear_of_ids k f" if "f \<in> set ?ws" for f
    unfolding clear_of_ids_def
  proof (intro conjI allI impI)
    show "DESKTOP_OFFSET \<le> fst f" using within(1)[OF that] j(2) by (simp add: object_offset_def)
    fix j'
    consider "j' < j" | "j' = j" | "j < j'" by linarith
    then show "object_offset j' + 16 \<le> fst f \<or> fst f + length (snd f) \<le> object_offset j' + 8"
      using within[OF that] object_offset_less[of j' j] object_offset_less[of j j'] j(2)
      by cases (auto simp: SHARED_OBJECT_STRIDE_def)
  qed
  then have "session_inv live k s'" using session_inv_map_write[OF inv w] by blast
  then show ?thesis using ok w by (simp add: shared_write_def)
qed

lemma session_new_inv:
  assumes "0 \<le> f"
  shows "\<exists>s. session_new f True w h = Some s \<and> session_inv Map.empty 1 s"
proof -
  have "\<exists>m. puts (desktop_fields w h) (replicate SESSION_SIZE (0 :: u8)) = Some m"
    by (rule puts_in_range) (auto simp: desktop_fields_def SESSION_SIZE_def)
  then obtain m where m: "puts (desktop_fields w h) (replicate SESSION_SIZE (0 :: u8)) = Some m" ..
  have "unat (of_nat (DESKTOP_OFFSET + SHARED_OBJECT_STRIDE) :: u64) = object_offset 1"
    by (simp add: object_offset_def layout_defs)
  then show ?thesis using assms m puts_length[OF m]
    by (simp add: session_new_def map_write_def session_inv_def POOL_OBJECTS_def)
qed

section \<open>Sequences of operations\<close>

text \<open>The operations on handles in use and objects of the pool, with the identifiers they give out.\<close>

inductive session_step :: "(u32 \<rightharpoonup> u64) \<times> nat \<times> session \<Rightarrow> (u32 \<rightharpoonup> u64) \<times> nat \<times> session \<Rightarrow> bool" where
  new_handle: "alloc_user_handle ty tid pid s = Some (h, s') \<Longrightarrow> k < POOL_OBJECTS \<Longrightarrow> handle_room s \<Longrightarrow>
    session_step (live, k, s) (live(handle_slot h \<mapsto> next_shared_id s), k + 1, s')"
| new_object: "alloc_shared_object s = Some (loc, s') \<Longrightarrow> k < POOL_OBJECTS \<Longrightarrow>
    session_step (live, k, s) (live, k + 1, s')"
| free: "live index = Some i \<Longrightarrow> free_user_handle (user_handle index) s = (0, s') \<Longrightarrow>
    session_step (live, k, s) (live(index := None), k, s')"
| destroy: "live index = Some i \<Longrightarrow>
    session_step (live, k, s) (live(index := None), k, recycle_window_handle (user_handle index) s)"
| owner: "live index = Some i \<Longrightarrow>
    session_step (live, k, s) (live, k, reassign_user_handle_owner (user_handle index) tid pid s)"
| data_write: "shared_write off flds s = Some s' \<Longrightarrow> unat off = object_offset j \<Longrightarrow> j < POOL_OBJECTS \<Longrightarrow> fields_fit flds \<Longrightarrow>
    session_step (live, k, s) (live, k, s')"

lemma session_step_inv:
  "session_step a b \<Longrightarrow> (case a of (live, k, s) \<Rightarrow> session_inv live k s) \<Longrightarrow> (case b of (live, k, s) \<Rightarrow> session_inv live k s)"
proof (induction rule: session_step.induct)
  case (new_handle ty tid pid s h s' k live)
  then have inv: "session_inv live k s" by simp
  obtain index t where "alloc_user_handle ty tid pid s = Some (user_handle index, t)" "unat index < USER_ENTRIES"
    "session_inv (live(index \<mapsto> next_shared_id s)) (k + 1) t"
    by (rule alloc_user_handle_inv[OF inv new_handle(2,3), of ty tid pid]) (rule that)
  then show ?case using new_handle(1) handle_slot_user_handle[of index] by simp
next
  case (new_object s loc s' k live)
  then show ?case using alloc_shared_object_inv[of live k s] by auto
next
  case (free live index i s s' k)
  then show ?case using free_user_handle_inv(1)[of live k s index i] by auto
next
  case (destroy live index i k s)
  then show ?case using free_user_handle_inv(2)[of live k s index i] by simp
next
  case (owner live index i k s tid pid)
  then show ?case using reassign_owner_inv[of live k s index i tid pid] by simp
next
  case (data_write off flds s s' j live k)
  then show ?case using shared_write_inv[of live k s j off flds] by auto
qed

lemma session_steps_inv:
  "session_step\<^sup>*\<^sup>* a b \<Longrightarrow> (case a of (live, k, s) \<Rightarrow> session_inv live k s) \<Longrightarrow> (case b of (live, k, s) \<Rightarrow> session_inv live k s)"
  by (induction rule: rtranclp_induct) (auto dest: session_step_inv)

lemma alloc_user_handle_index:
  "alloc_user_handle ty tid pid s = Some (h, s') \<Longrightarrow> h = user_handle (fst (take_handle_index s))"
  by (auto simp: alloc_user_handle_def bind_eq_Some_conv split: prod.splits)

lemma alloc_user_handle_free_list:
  assumes "alloc_user_handle ty tid pid s = Some (h, s')"
  shows "user_handle_free_list s' = user_handle_free_list (snd (take_handle_index s))"
  using assms by (auto simp: alloc_user_handle_def bind_eq_Some_conv bump_object_def init_object_def map_write_def
      Let_def split: prod.splits if_splits)

lemma init_object_simps:
  assumes "init_object off i s = Some s'"
  shows "session_fd s' = session_fd s \<and> length (session_mem s') = length (session_mem s) \<and>
    s' = s\<lparr>session_mem := session_mem s'\<rparr>"
proof (cases "session_mapped s \<and> unat off + SHARED_OBJECT_STRIDE \<le> length (session_mem s)")
  case True
  with assms have "map_write [(unat off, u64_to_le 0), (unat off + 8, u64_to_le i)] s = Some s'"
    by (simp add: init_object_def)
  from map_write_simps(2)[OF this] this show ?thesis by (auto simp: map_write_def simp del: puts.simps)
qed (use assms in \<open>auto simp: init_object_def\<close>)

text \<open>Creating and destroying a window uses up an object and leaves no handle in use.\<close>

lemma churn_step:
  assumes "session_inv Map.empty k s" and "k < POOL_OBJECTS"
  shows "\<exists>s'. session_step\<^sup>*\<^sup>* (Map.empty, k, s) (Map.empty, k + 1, s')"
proof -
  have "handle_room s"
  proof (cases "user_handle_free_list s = []")
    case True
    then have "{i. i < next_user_handle_index s} = {}" using assms(1) by (simp add: session_inv_def)
    then have "next_user_handle_index s = 0" using word_gt_0 by fastforce
    then show ?thesis by (simp add: handle_room_def USER_ENTRIES_def)
  qed (simp add: handle_room_def)
  note room = assms(2) this
  obtain index s1 where a: "alloc_user_handle 1 0 0 s = Some (user_handle index, s1)" "unat index < USER_ENTRIES"
    by (rule alloc_user_handle_inv[OF assms(1) room, of 1 0 0]) (rule that)
  have "session_step (Map.empty, k, s) ([index \<mapsto> next_shared_id s], k + 1, s1)"
    using session_step.new_handle[OF a(1) room, of Map.empty] by (simp add: handle_slot_user_handle[OF a(2)])
  moreover have "session_step ([index \<mapsto> next_shared_id s], k + 1, s1)
      (Map.empty, k + 1, recycle_window_handle (user_handle index) s1)"
    using session_step.destroy[of "[index \<mapsto> next_shared_id s]" index] by simp
  ultimately show ?thesis by (blast intro: rtranclp.rtrancl_into_rtrancl)
qed

lemma churn:
  "session_inv Map.empty 1 s \<Longrightarrow> n < POOL_OBJECTS \<Longrightarrow> \<exists>s'. session_step\<^sup>*\<^sup>* (Map.empty, 1, s) (Map.empty, n + 1, s')"
proof (induction n)
  case (Suc n)
  then obtain s1 where s1: "session_step\<^sup>*\<^sup>* (Map.empty, 1, s) (Map.empty, n + 1, s1)" by auto
  then have "session_inv Map.empty (n + 1) s1" using session_steps_inv[OF s1] Suc.prems(1) by simp
  then obtain s2 where "session_step\<^sup>*\<^sup>* (Map.empty, n + 1, s1) (Map.empty, n + 1 + 1, s2)"
    using churn_step[of "n + 1" s1] Suc.prems(2) by auto
  with s1 show ?case using rtranclp_trans[OF s1] by auto
qed auto

text \<open>What an observer sees during a list of stores.\<close>

lemma clear_low_bit: "\<not> bit (w :: u64) 0 \<Longrightarrow> w AND NOT 1 = w"
  by (intro bit_word_eqI) (auto simp: bit_simps intro!: Nat.gr0I)

lemma seq_at_rd: "off + 8 \<le> length m \<Longrightarrow> rd_u64 off m = Some (seq_at off m)"
  by (simp add: seq_at_def rd_u64_def slice_def)

lemma seq_at_put:
  assumes "put off (u64_to_le w) m = Some m'"
  shows "seq_at off m' = w"
proof -
  have "off + 8 \<le> length m'" using assms put_length[OF assms] by (simp add: put_def split: if_splits)
  from seq_at_rd[OF this] c64.rd_put_same[OF assms] show ?thesis by simp
qed

lemma seq_at_put_other:
  assumes "put o' bs m = Some m'" and "off + 8 \<le> o'"
  shows "seq_at off m' = seq_at off m"
proof -
  have "o' \<le> length m" using assms(1) by (simp add: put_def split: if_splits)
  then show ?thesis using c64.rd_put_other[OF assms(1), of off] assms(2) seq_at_rd[of off m] seq_at_rd[of off m']
    put_length[OF assms(1)] by simp
qed

lemma store_trace_seq:
  "x \<in> set (store_trace ws m) \<Longrightarrow> \<forall>f\<in>set ws. off + 16 \<le> fst f \<Longrightarrow> seq_at off x = seq_at off m"
proof (induction ws arbitrary: m)
  case (Cons f ws)
  show ?case
  proof (cases "put (fst f) (snd f) m")
    case None
    then show ?thesis using Cons.prems(1) by (cases f) (simp del: put_None_iff)
  next
    case (Some m')
    then have "x = m \<or> x \<in> set (store_trace ws m')" using Cons.prems(1) by (cases f) simp
    moreover have "seq_at off m' = seq_at off m" using Cons.prems(2) by (intro seq_at_put_other[OF Some]) simp
    ultimately show ?thesis using Cons.IH[of m'] Cons.prems(2) by auto
  qed
qed simp

lemma store_trace_snoc:
  assumes "\<forall>f\<in>set ws. fst f + length (snd f) \<le> length m" and "off + 8 \<le> length m"
  obtains mf where "store_trace (ws @ [(off, u64_to_le w)]) m = store_trace ws m @ [mf]" and "seq_at off mf = w"
proof -
  have "\<exists>mf. store_trace (ws @ [(off, u64_to_le w)]) m = store_trace ws m @ [mf] \<and> seq_at off mf = w"
    using assms
  proof (induction ws arbitrary: m)
    case Nil
    then obtain mf where "put off (u64_to_le w) m = Some mf" by (auto simp: put_def)
    then show ?case using seq_at_put by (simp del: put_None_iff)
  next
    case (Cons f ws)
    then obtain m1 where m1: "put (fst f) (snd f) m = Some m1" by (auto simp: put_def)
    have "\<exists>mf. store_trace (ws @ [(off, u64_to_le w)]) m1 = store_trace ws m1 @ [mf] \<and> seq_at off mf = w"
      using Cons.prems put_length[OF m1] by (intro Cons.IH) auto
    then show ?case using m1 by (cases f) (simp del: put_None_iff)
  qed
  then show ?thesis using that by blast
qed

lemma even_seq_values:
  assumes "even (S :: u64)"
  shows "S \<noteq> (S AND NOT 1) + 2" and "S \<noteq> S OR 1" and "(S AND NOT 1) + 2 \<noteq> S OR 1" and "odd (S OR 1)"
proof -
  have low: "S AND NOT 1 = S" using assms by (intro clear_low_bit) (simp add: bit_0)
  show o: "odd (S OR 1)" by (simp add: even_or_iff)
  then show "S \<noteq> S OR 1" using assms by metis
  show "S \<noteq> (S AND NOT 1) + 2" unfolding low by simp
  have "even (S + 2)" using assms by simp
  then show "(S AND NOT 1) + 2 \<noteq> S OR 1" using o by (metis low)
qed

text \<open>The first handle of a session.\<close>

lemma first_handle:
  obtains s0 s1 where "session_new 5 True 1920 1080 = Some s0" and "alloc_user_handle 1 0 0 s0 = Some (user_handle 0, s1)"
    and "session_inv [0 \<mapsto> next_shared_id s0] 2 s1"
    and "session_step\<^sup>*\<^sup>* (Map.empty, 1, s0) ([0 \<mapsto> next_shared_id s0], 2, s1)"
proof -
  obtain s0 where s0: "session_new 5 True 1920 1080 = Some s0" "session_inv Map.empty 1 s0"
    using session_new_inv[of 5 1920 1080] by auto
  then have z: "next_user_handle_index s0 = 0" "user_handle_free_list s0 = []"
    by (auto simp: session_new_def map_write_def)
  then have room: "(1 :: nat) < POOL_OBJECTS" "handle_room s0" by (simp_all add: POOL_OBJECTS_def handle_room_def USER_ENTRIES_def)
  obtain h s1 where a: "alloc_user_handle 1 0 0 s0 = Some (h, s1)"
    by (rule alloc_user_handle_inv[OF s0(2) room, of 1 0 0]) (rule that)
  then have "h = user_handle 0" using z alloc_user_handle_index[OF a] by (simp add: take_handle_index_def)
  with a have a0: "alloc_user_handle 1 0 0 s0 = Some (user_handle 0, s1)" by simp
  have step: "session_step (Map.empty, 1, s0) ([0 \<mapsto> next_shared_id s0], 2, s1)"
    using session_step.new_handle[OF a0 room, of Map.empty]
    by (simp only: handle_slot_user_handle[of 0] USER_ENTRIES_def unat_0 zero_less_numeral nat_1_add_1)
  from session_step_inv[OF step] s0(2) have "session_inv [0 \<mapsto> next_shared_id s0] 2 s1" by simp
  then show ?thesis using that s0(1) a0 step by blast
qed

section \<open>Properties of the session memory\<close>



text \<open>
  C36. Destroying the same window twice hands the same handle to the next two windows: the index is put
  on the free list without asking whether it is in use.
\<close>

theorem double_destroy_duplicates_handle:
  assumes "FIRST_USER_HANDLE \<le> h"
    and "alloc_user_handle ty tid pid (recycle_window_handle h (recycle_window_handle h s)) = Some (h1, s1)"
    and "alloc_user_handle ty' tid' pid' s1 = Some (h2, s2)"
  shows "h1 = h2 \<and> h1 = user_handle (handle_slot h)"
proof -
  let ?t = "recycle_window_handle h (recycle_window_handle h s)"
  have "user_handle_free_list ?t = user_handle_free_list s @ [handle_slot h, handle_slot h]"
    using assms(1) by (simp add: recycle_window_handle_def)
  then have t: "fst (take_handle_index ?t) = handle_slot h"
    "user_handle_free_list (snd (take_handle_index ?t)) = user_handle_free_list s @ [handle_slot h]"
    by (simp_all add: take_handle_index_def butlast_append)
  then have "fst (take_handle_index s1) = handle_slot h"
    using alloc_user_handle_free_list[OF assms(2)] by (simp add: take_handle_index_def)
  then show ?thesis using alloc_user_handle_index[OF assms(2)] alloc_user_handle_index[OF assms(3)] t(1) by simp
qed

definition session_unmapped :: session where
  "session_unmapped = \<lparr>session_fd = -1, session_mapped = False, session_mem = [], next_shared_offset = 1048832,
     next_shared_id = 0x101, next_user_handle_index = 3, user_handle_free_list = []\<rparr>"

theorem double_destroy_duplicates_handle_witness:
  "\<exists>s1 s2. FIRST_USER_HANDLE \<le> 0x24 \<and>
     alloc_user_handle 1 8 4 (recycle_window_handle 0x24 (recycle_window_handle 0x24 session_unmapped)) = Some (0x24, s1) \<and>
     alloc_user_handle 1 12 4 s1 = Some (0x24, s2)"
proof -
  let ?t = "recycle_window_handle 0x24 (recycle_window_handle 0x24 session_unmapped)"
  have le: "FIRST_USER_HANDLE \<le> 0x24" by (simp add: FIRST_USER_HANDLE_def)
  have "\<exists>h1 s1 h2 s2. alloc_user_handle 1 8 4 ?t = Some (h1, s1) \<and> alloc_user_handle 1 12 4 s1 = Some (h2, s2)"
    by (simp add: session_unmapped_def alloc_user_handle_def recycle_window_handle_def FIRST_USER_HANDLE_def
        take_handle_index_def bump_object_def init_object_def pwrite_def Let_def SHARED_OBJECT_STRIDE_def)
  then obtain h1 s1 h2 s2 where a: "alloc_user_handle 1 8 4 ?t = Some (h1, s1)" "alloc_user_handle 1 12 4 s1 = Some (h2, s2)"
    by auto
  have "user_handle (handle_slot 0x24) = 0x24" by code_simp
  with double_destroy_duplicates_handle[OF le a] a le show ?thesis by auto
qed

text \<open>
  The table has room for 32744 user entries and the allocator does not stop there: the entry of the
  next index is written over the desktop object, whose sequence number becomes the new offset and
  whose identifier becomes the new thread and process.
\<close>

theorem user_entry_overruns_desktop:
  assumes "0 \<le> session_fd s" and "length (session_mem s) = SESSION_SIZE"
    and "user_handle_free_list s = []" and "unat (next_user_handle_index s) = USER_ENTRIES"
    and "DESKTOP_OFFSET + 16 \<le> unat (next_shared_offset s)"
    and "alloc_user_handle ty tid pid s = Some (h, s')"
  shows "rd_u64 DESKTOP_OFFSET (session_mem s') = Some (next_shared_offset s) \<and>
         slice (DESKTOP_OFFSET + 8) (DESKTOP_OFFSET + 16) (session_mem s') = Some (u32_to_le tid @ u32_to_le pid)"
proof -
  define e where "e = user_entry (next_shared_offset s) tid pid (next_shared_id s) ty"
  from assms(6) obtain t where t: "s' = pwrite DESKTOP_OFFSET e t" "session_fd t = session_fd s"
      "length (session_mem t) = length (session_mem s)"
    using assms(3,4)
    by (auto simp: alloc_user_handle_def take_handle_index_def bump_object_def Let_def bind_eq_Some_conv
        DESKTOP_OFFSET_def mult.commute e_def split: if_splits dest!: init_object_simps)
  have len: "length e = USER_ENTRY_SIZE" by (simp add: e_def user_entry_def USER_ENTRY_SIZE_def)
  have p: "put DESKTOP_OFFSET e (session_mem t) = Some (session_mem s')"
    using pwrite_puts[of t DESKTOP_OFFSET e] t assms(1,2) len map_write_simps(1)
    by (fastforce simp: bind_eq_Some_conv layout_defs)
  have sl: "slice DESKTOP_OFFSET (DESKTOP_OFFSET + USER_ENTRY_SIZE) (session_mem s') = Some e"
    by (rule slice_put_same[OF p]) (simp add: len)
  have "rd_u64 DESKTOP_OFFSET (session_mem s') = Some (next_shared_offset s)"
    by (rule rd_u64_slice_sub[where xs = "[]" and a = DESKTOP_OFFSET and c = "DESKTOP_OFFSET + USER_ENTRY_SIZE" and
        ys = "u32_to_le tid @ u32_to_le pid @ u64_to_le (next_shared_id s) @ u16_to_le ty @ u16_to_le 0 @ [0, 0, 0, 0]"])
      (use sl in \<open>simp_all add: e_def user_entry_def\<close>)
  moreover have "take 8 (drop 8 e) = u32_to_le tid @ u32_to_le pid"
    by (simp add: e_def user_entry_def)
  ultimately show ?thesis using slice_sub[OF sl, of "DESKTOP_OFFSET + 8" "DESKTOP_OFFSET + 16"]
    by (simp add: USER_ENTRY_SIZE_def)
qed

theorem user_entry_overruns_desktop_witness:
  "\<exists>s s'. alloc_user_handle 1 8 4 s = Some (user_handle 32744, s') \<and>
     rd_u64 DESKTOP_OFFSET (session_mem s') = Some (next_shared_offset s)"
proof -
  define s where "s = \<lparr>session_fd = 5, session_mapped = False, session_mem = replicate SESSION_SIZE 0,
     next_shared_offset = of_nat (DESKTOP_OFFSET + SHARED_OBJECT_STRIDE), next_shared_id = DESKTOP_LOCATOR_ID + 1,
     next_user_handle_index = 32744, user_handle_free_list = []\<rparr>"
  have "\<exists>s'. alloc_user_handle 1 8 4 s = Some (user_handle 32744, s')"
    by (simp add: s_def alloc_user_handle_def take_handle_index_def bump_object_def init_object_def Let_def layout_defs)
  then obtain s' where a: "alloc_user_handle 1 8 4 s = Some (user_handle 32744, s')" ..
  have "DESKTOP_OFFSET + 16 \<le> unat (next_shared_offset s)" by (simp add: s_def layout_defs)
  moreover have "unat (next_user_handle_index s) = USER_ENTRIES" by (simp add: s_def USER_ENTRIES_def)
  moreover have "0 \<le> session_fd s" "length (session_mem s) = SESSION_SIZE" "user_handle_free_list s = []"
    by (simp_all add: s_def)
  ultimately have "rd_u64 DESKTOP_OFFSET (session_mem s') = Some (next_shared_offset s)"
    using user_entry_overruns_desktop[OF _ _ _ _ _ a] by blast
  with a show ?thesis by blast
qed

text \<open>
  The objects of the pool are never given back: creating and destroying 4095 windows one after the
  other uses it up with no window left.  From then on an allocation still answers with a locator,
  writes nothing, and the object it names ends outside the memory.
\<close>

theorem exhausted_pool_still_answers:
  assumes "0 \<le> f" and "session_new f True w h = Some s0"
  shows "\<exists>s s'. session_step\<^sup>*\<^sup>* (Map.empty, 1, s0) (Map.empty, POOL_OBJECTS, s) \<and>
           alloc_shared_object s = Some (u64_to_le (next_shared_id s) @ u64_to_le (next_shared_offset s), s') \<and>
           session_mem s' = session_mem s \<and>
           length (session_mem s) < unat (next_shared_offset s) + SHARED_OBJECT_STRIDE"
proof -
  have inv0: "session_inv Map.empty 1 s0" using session_new_inv[OF assms(1), of w h] assms(2) by auto
  obtain s where s: "session_step\<^sup>*\<^sup>* (Map.empty, 1, s0) (Map.empty, POOL_OBJECTS, s)"
    using churn[OF inv0, of "POOL_OBJECTS - 1"] by (auto simp: POOL_OBJECTS_def)
  then have "session_inv Map.empty POOL_OBJECTS s" using session_steps_inv[OF s] inv0 by simp
  then have "unat (next_shared_offset s) = SESSION_SIZE" "length (session_mem s) = SESSION_SIZE"
    by (simp_all add: session_inv_def object_offset_def POOL_OBJECTS_def layout_defs)
  then have "\<exists>s'. alloc_shared_object s = Some (u64_to_le (next_shared_id s) @ u64_to_le (next_shared_offset s), s') \<and>
      session_mem s' = session_mem s \<and> length (session_mem s) < unat (next_shared_offset s) + SHARED_OBJECT_STRIDE"
    by (simp add: alloc_shared_object_def bump_object_def init_object_def Let_def layout_defs)
  with s show ?thesis by auto
qed

theorem exhausted_pool_still_answers_witness:
  "\<exists>s0 s s'. session_new 5 True 1920 1080 = Some s0 \<and> session_step\<^sup>*\<^sup>* (Map.empty, 1, s0) (Map.empty, POOL_OBJECTS, s) \<and>
     alloc_shared_object s = Some (u64_to_le (next_shared_id s) @ u64_to_le (next_shared_offset s), s')"
proof -
  obtain s0 where s0: "session_new 5 True 1920 1080 = Some s0" using session_new_inv[of 5 1920 1080] by auto
  from exhausted_pool_still_answers[OF _ this] s0 show ?thesis by auto
qed

text \<open>
  The locator of a thread that has no queue yet is all zeros, and setting its queue bits writes over
  the entry of the first user handle: its offset moves by two and the handle no longer leads to
  its object.
\<close>

theorem zero_locator_breaks_first_handle:
  assumes "session_inv live k s" and "live 0 = Some i"
  shows "\<exists>s'. set_queue_bits bits (replicate 16 0) s = Some s' \<and> (\<forall>i'. \<not> resolves k (session_mem s') 0 i')"
proof -
  obtain off j where off: "rd_u64 0 (session_mem s) = Some off" "unat off = object_offset j" and "j < k"
    using session_inv_live(3)[OF assms] by (auto simp: resolves_def)
  then have j: "j < 4096" using assms(1) by (simp add: session_inv_def POOL_OBJECTS_def)
  have z: "locator_offset (replicate 16 0) = 0" by code_simp
  let ?d = "drop 16 (session_mem s)"
  let ?ws = "seqlock_stores 0 off [(12, u32_to_le (u32_at 12 ?d OR bits)), (20, u32_to_le (u32_at 20 ?d OR bits))]"
  have len: "length (session_mem s) = SESSION_SIZE" and ok: "object_in_range 0 s"
    using assms(1) by (simp_all add: session_inv_def object_in_range_def layout_defs)
  have seq: "seq_at 0 (session_mem s) = off"
    using off(1) by (simp add: seq_at_def rd_u64_def slice_def split: if_splits)
  have "\<exists>m. puts ?ws (session_mem s) = Some m"
    by (rule puts_in_range) (auto simp: seqlock_stores_def len layout_defs)
  then obtain m where m: "puts ?ws (session_mem s) = Some m" ..
  have "even (unat off)" by (simp add: off(2) object_offset_def layout_defs)
  then have "\<not> bit off 0" by (simp add: bit_0) (transfer, simp add: even_nat_iff)
  then have "off AND NOT 1 = off" by (rule clear_low_bit)
  then have low: "off AND - 2 = off" by simp
  from m obtain m1 where "put 0 (u64_to_le (off + 2)) m1 = Some m"
    by (auto simp: seqlock_stores_def puts_append bind_eq_Some_conv low)
  then have rd: "rd_u64 0 m = Some (off + 2)" by (rule c64.rd_put_same)
  have "object_offset j + 2 < 2 ^ 64" using j by (simp add: object_offset_def layout_defs)
  then have off2: "unat (off + 2) = object_offset j + 2"
    unfolding unat_word_ariths off(2) by simp
  have "unat (off + 2) \<noteq> object_offset j'" for j'
  proof
    assume "unat (off + 2) = object_offset j'"
    then have "1024 * j + 2 = 1024 * j'" by (simp add: off2 object_offset_def SHARED_OBJECT_STRIDE_def)
    then have "1024 dvd 1024 * j + 2" by (metis dvd_triv_left)
    then have "1024 dvd (2 :: nat)" using dvd_add_right_iff[of 1024 "1024 * j" 2] by (metis dvd_triv_left)
    then show False by (simp add: nat_dvd_not_less)
  qed
  then have "\<not> resolves k m 0 i'" for i'
    using rd by (auto simp: resolves_def)
  moreover have "set_queue_bits bits (replicate 16 0) s = Some (s\<lparr>session_mem := m\<rparr>)"
    using ok seq m by (simp add: set_queue_bits_def write_queue_bits_def shared_write_def z map_write_def)
  ultimately show ?thesis by auto
qed

theorem zero_locator_breaks_first_handle_witness:
  "\<exists>s0 s1 s2. session_new 5 True 1920 1080 = Some s0 \<and> alloc_user_handle 1 0 0 s0 = Some (user_handle 0, s1) \<and>
     set_queue_bits 0x8000 (replicate 16 0) s1 = Some s2 \<and> \<not> resolves 2 (session_mem s2) 0 0x101"
proof -
  obtain s0 s1 where a: "session_new 5 True 1920 1080 = Some s0" "alloc_user_handle 1 0 0 s0 = Some (user_handle 0, s1)"
    "session_inv [0 \<mapsto> next_shared_id s0] 2 s1" by (rule first_handle) (rule that)
  from zero_locator_breaks_first_handle[OF a(3), of "next_shared_id s0" "0x8000"] a(1,2) show ?thesis by auto
qed



section \<open>The user shared data page\<close>

text \<open>A \<^verbatim>\<open>KSYSTEM_TIME\<close> at \<open>base\<close>: \<^verbatim>\<open>LowPart\<close>, \<^verbatim>\<open>High1Time\<close> at 4, \<^verbatim>\<open>High2Time\<close> at 8, stored in this order.\<close>

definition ksystem_stores :: "nat \<Rightarrow> u64 \<Rightarrow> (nat \<times> bytes) list" where
  "ksystem_stores base t =
     [(base + 8, u32_to_le (ucast (drop_bit 32 t))), (base, u32_to_le (ucast t)),
      (base + 4, u32_to_le (ucast (drop_bit 32 t)))]"

text \<open>\<open>sec\<close> and \<open>nsec\<close> are the monotonic clock.\<close>

definition usd_stores :: "u64 \<Rightarrow> u64 \<Rightarrow> (nat \<times> bytes) list" where
  "usd_stores sec nsec =
     (let ticks = sec * 10000000 + nsec div 100; tick_count = ticks div 10000 in
      ksystem_stores 0x008 ticks @ ksystem_stores 0x320 tick_count @ [(0, u32_to_le (ucast tick_count))])"

definition update_usd_time :: "u64 \<Rightarrow> u64 \<Rightarrow> bytes option \<Rightarrow> bytes option option" where
  "update_usd_time sec nsec usd =
     (case usd of None \<Rightarrow> Some None | Some m \<Rightarrow> map_option Some (puts (usd_stores sec nsec) m))"

text \<open>The value a reader assembles from the three words.\<close>

definition ksystem_read :: "nat \<Rightarrow> bytes \<Rightarrow> bytes \<Rightarrow> u64" where
  "ksystem_read base hm lm = push_bit 32 (ucast (u32_at (base + 4) hm)) OR ucast (u32_at base lm)"

lemma u32_at_rd: "off + 4 \<le> length m \<Longrightarrow> rd_u32 off m = Some (u32_at off m)"
  by (simp add: u32_at_def rd_u32_def slice_def)

lemma u32_at_put:
  assumes "put off (u32_to_le w) m = Some m'"
  shows "u32_at off m' = w"
proof -
  have "off + 4 \<le> length m'" using assms put_length[OF assms] by (simp add: put_def split: if_splits)
  from u32_at_rd[OF this] c32.rd_put_same[OF assms] show ?thesis by simp
qed

lemma u32_at_put_other:
  assumes "put o' bs m = Some m'" and "off + 4 \<le> o' \<or> o' + length bs \<le> off" and "off + 4 \<le> length m"
  shows "u32_at off m' = u32_at off m"
  using c32.rd_put_other[OF assms(1), of off] assms(2,3) u32_at_rd[of off m] u32_at_rd[of off m']
    put_length[OF assms(1)] by simp

lemma join_halves: "push_bit 32 (ucast (ucast (drop_bit 32 (t :: u64)) :: u32)) OR ucast (ucast t :: u32) = t"
  by (intro bit_word_eqI) (auto simp: bit_simps)

text \<open>
  C35. The three words of a system time are stored high word first and high word last.  A reader that
  takes \<^verbatim>\<open>High1Time\<close>, then \<^verbatim>\<open>LowPart\<close>, then \<^verbatim>\<open>High2Time\<close> while an update is under way, and finds the two
  high words equal, has the time before or the time after the update, never a mixture.
\<close>

theorem system_time_reads_whole:
  assumes "base + 12 \<le> length m"
    and "u32_at base m = ucast t0" and "u32_at (base + 4) m = ucast (drop_bit 32 t0)"
    and "u32_at (base + 8) m = ucast (drop_bit 32 t0)"
    and "mems = store_trace (ksystem_stores base t1) m"
    and "a \<le> b" and "b \<le> c" and "c < length mems"
    and "u32_at (base + 4) (mems ! a) = u32_at (base + 8) (mems ! c)"
  shows "ksystem_read base (mems ! a) (mems ! b) \<in> {t0, t1}"
proof -
  define hi lo where "hi = (\<lambda>t :: u64. ucast (drop_bit 32 t) :: u32)" and "lo = (\<lambda>t :: u64. ucast t :: u32)"
  obtain m1 where m1: "put (base + 8) (u32_to_le (hi t1)) m = Some m1" using assms(1) by (auto simp: put_def)
  obtain m2 where m2: "put base (u32_to_le (lo t1)) m1 = Some m2" using assms(1) put_length[OF m1] by (auto simp: put_def)
  obtain m3 where m3: "put (base + 4) (u32_to_le (hi t1)) m2 = Some m3"
    using assms(1) put_length[OF m1] put_length[OF m2] by (auto simp: put_def)
  have mems: "mems = [m, m1, m2, m3]" using m1 m2 m3 by (simp add: assms(5) ksystem_stores_def hi_def lo_def)
  have len: "length m1 = length m" "length m2 = length m"
    using put_length[OF m1] put_length[OF m2] by simp_all
  note other = u32_at_put_other[OF m1] u32_at_put_other[OF m2] u32_at_put_other[OF m3]
  have lows: "map (u32_at base) mems = [lo t0, lo t0, lo t1, lo t1]"
    using assms(1,2) other[of base] u32_at_put[OF m2] len by (simp add: mems lo_def)
  have high1: "map (u32_at (base + 4)) mems = [hi t0, hi t0, hi t0, hi t1]"
    using assms(1,3) other[of "base + 4"] u32_at_put[OF m3] len by (simp add: mems hi_def)
  have high2: "map (u32_at (base + 8)) mems = [hi t0, hi t1, hi t1, hi t1]"
    using assms(1,4) other[of "base + 8"] u32_at_put[OF m1] len by (simp add: mems hi_def)
  have join: "push_bit 32 (ucast (hi t)) OR ucast (lo t) = t" for t by (simp add: hi_def lo_def join_halves)
  have n: "c < 4" "b < 4" "a < 4" and len4: "length mems = 4" using assms(6,7,8) by (simp_all add: mems)
  have four: "[x, x, x, y] ! i = (if i < 3 then x else y)" "[x, y, y, y] ! i = (if i < 1 then x else y)"
    "[x, x, y, y] ! i = (if i < 2 then x else y)" if "i < 4" for i :: nat and x y :: u32
    using that by (auto simp: nth_Cons')
  have at: "u32_at base (mems ! b) = (if b < 2 then lo t0 else lo t1)"
    "u32_at (base + 4) (mems ! a) = (if a < 3 then hi t0 else hi t1)"
    "u32_at (base + 8) (mems ! c) = (if c < 1 then hi t0 else hi t1)"
    using nth_map[of b mems "u32_at base"] nth_map[of a mems "u32_at (base + 4)"] nth_map[of c mems "u32_at (base + 8)"] n
    unfolding lows high1 high2 by (simp_all only: four len4)
  have r: "ksystem_read base (mems ! a) (mems ! b) =
      push_bit 32 (ucast (if a < 3 then hi t0 else hi t1)) OR ucast (if b < 2 then lo t0 else lo t1)"
    by (simp only: ksystem_read_def at)
  have eq: "(if a < 3 then hi t0 else hi t1) = (if c < 1 then hi t0 else hi t1)" using assms(9) at by simp
  consider "3 \<le> a" "2 \<le> b" | "a < 3" "b < 2" | "a < 3" "2 \<le> b" "1 \<le> c" using assms(6,7) by linarith
  then show ?thesis
  proof cases
    case 3
    then have "hi t0 = hi t1" using eq by simp
    then show ?thesis using 3 r join[of t1] by simp
  qed (use r join in simp_all)
qed

theorem system_time_reads_whole_witness:
  "let mems = store_trace (ksystem_stores 0 0x200000001) (replicate 12 0) in
     ksystem_read 0 (mems ! 0) (mems ! 0) = 0 \<and> ksystem_read 0 (mems ! 3) (mems ! 3) = 0x200000001"
proof -
  define mems where "mems = store_trace (ksystem_stores 0 0x200000001) (replicate 12 0)"
  have "u32_at 0 (replicate 12 0) = ucast (0 :: u64)" "u32_at (0 + 4) (replicate 12 0) = ucast (drop_bit 32 (0 :: u64))"
    "u32_at (0 + 8) (replicate 12 0) = ucast (drop_bit 32 (0 :: u64))" by code_simp+
  note hyps = this mems_def
  have l: "0 < length mems" "3 < length mems" "u32_at (0 + 4) (mems ! 0) = u32_at (0 + 8) (mems ! 0)"
    "u32_at (0 + 4) (mems ! 3) = u32_at (0 + 8) (mems ! 3)" unfolding mems_def by code_simp+
  have "ksystem_read 0 (mems ! 0) (mems ! 0) \<noteq> 0x200000001" "ksystem_read 0 (mems ! 3) (mems ! 3) \<noteq> 0"
    unfolding mems_def by code_simp+
  with system_time_reads_whole[OF _ hyps order_refl order_refl l(1,3)]
    system_time_reads_whole[OF _ hyps order_refl order_refl l(2,4)]
  show ?thesis by (simp add: mems_def)
qed

end
