(* ===== verification/EventLoop.thy ===== *)
theory EventLoop
  imports Csp Objects Shm SideTables SentMessages Registry Session
begin

text \<open>
  The server state (\<^verbatim>\<open>EventLoop\<close> in \<^verbatim>\<open>triskelion/event_loop/mod.rs\<close>) and the helpers the request
  handlers share (\<^verbatim>\<open>mod.rs\<close> and the lower half of \<^verbatim>\<open>handles.rs\<close>).  The record extends the state of
  the request loop; it is built in three steps so that a handler names only the fields it
  uses.

  A kernel synchronisation object (\<^verbatim>\<open>Arc<NtsyncObj>\<close>) is its descriptor.  What the server does to
  such objects is appended to \<open>sync_ops\<close>, the descriptors it closes itself to \<open>closed\<close>.  The
  results of system calls are the argument \<open>k\<close> of a handler.

  The request and reply structs are generated at build time.  A handler takes its request
  as \<open>'r option\<close>, \<open>None\<close> when the buffer is shorter than the struct; a reply is its error code,
  the values of its fields in order, and its variable part.
\<close>

section \<open>State\<close>

datatype sync_op = SetEvent fd | ResetEvent fd | PulseEvent fd | KillMutex fd u32 | ReleaseSem fd u32 | UnlockMutex fd u32

record completion_msg =
  ckey :: u64
  cvalue :: u64
  information :: u64
  cstatus :: u32

record completion_waiter =
  cw_client_fd :: fd
  cw_pid :: u32
  cw_wait_handle :: u32

record pending_read =
  pr_fd :: fd
  pr_max_bytes :: nat

record completed_pipe_read =
  cr_client_fd :: fd
  cr_data :: bytes
  cr_pid :: u32

record async_pipe_read =
  ar_pipe_fd :: fd
  ar_max_bytes :: nat
  ar_pid :: u32
  ar_wait_handle :: u32
  ar_client_fd :: fd

record pending_wait =
  pw_deadline :: nat
  pw_client_fd :: fd
  pw_cookie :: u64

datatype pipe_state = Listening | Connected

record pipe_listen_async =
  la_server_client_fd :: fd
  la_cookie :: u64
  la_user :: u64
  la_sb :: u64
  la_async_event :: u32
  la_user_arg :: u64

record named_pipe_info =
  np_server_pid :: u32
  np_server_handle :: u32
  np_client_data_fd :: fd
  np_state :: pipe_state
  np_listen_event :: "(u32 \<times> u32) option"
  np_listen_async :: "pipe_listen_async option"

record pending_pipe_waiter =
  ppw_pid :: u32
  ppw_wait_handle :: u32

record win_timer =
  wt_when :: nat
  wt_rate_ms :: u32
  wt_win :: u32
  wt_msg :: u32
  wt_id :: u64
  wt_lparam :: u64

record window_state =
  ws_style :: u32
  ws_ex_style :: u32
  ws_is_unicode :: u16
  ws_owner :: u32
  ws_parent :: u32
  ws_tid :: u32
  ws_id :: u64
  ws_instance :: u64
  ws_user_data :: u64
  ws_dpi_context :: u32
  ws_window_rect :: bytes
  ws_client_rect :: bytes
  ws_visible_rect :: bytes
  ws_surface_rect :: bytes
  ws_paint_flags :: u16
  ws_needs_paint :: bool
  ws_window_text :: bytes
  ws_extra_bytes :: bytes

record el_objects = authority +
  msg_fd_map :: "fd \<rightharpoonup> fd"
  srv :: server_state
  reg :: registry
  shm :: shm_manager
  side :: side_tables
  has_ntsync :: bool
  ntsync_objects :: "u32 \<times> u32 \<rightharpoonup> fd \<times> u32"
  ntsync_objects_created :: u64
  ntsync_recyclable :: "(u32 \<times> u32) set"
  named_sync :: "ustr \<rightharpoonup> fd \<times> u32"
  process_exit_events :: "u32 \<rightharpoonup> (u32 \<times> u32 \<times> fd) list"
  thread_exit_events :: "fd \<rightharpoonup> (u32 \<times> u32 \<times> fd) list"
  client_alerts :: "fd \<rightharpoonup> fd"
  client_worker_interrupts :: "fd \<rightharpoonup> fd"
  client_apc_flags :: "fd \<rightharpoonup> bool"
  deferred_event_signals :: "fd \<rightharpoonup> (u32 \<times> u32) list"
  process_idle_events :: "u32 \<rightharpoonup> fd"
  sync_ops :: "sync_op list"

record el_waits = el_objects +
  pending_waits :: "pending_wait list"
  pending_wakes :: "fd \<rightharpoonup> (u64 \<times> int) list"
  pending_kernel_apcs :: "fd \<rightharpoonup> bytes list"
  jobs :: "u64 \<rightharpoonup> job"
  process_job :: "u32 \<rightharpoonup> u64"
  completion_queues :: "u32 \<rightharpoonup> completion_msg list"
  completion_waiters :: "u32 \<rightharpoonup> completion_waiter list"
  thread_completion_cache :: "fd \<rightharpoonup> completion_msg"
  pending_reads :: "u32 \<times> u64 \<rightharpoonup> pending_read"
  completed_ioctls :: "u32 \<times> u64 \<rightharpoonup> u32"
  pending_pipe_reads :: "async_pipe_read list"
  completed_pipe_reads :: "completed_pipe_read list"
  nt_timers :: "(u32 \<times> u32 \<times> nat \<times> u32) list"
  kernel_object_ptrs :: "((u32 \<times> u32 \<times> u32) \<times> u64) list"
  named_pipes :: "ustr \<rightharpoonup> named_pipe_info list"
  pending_pipe_waiters :: "ustr \<rightharpoonup> pending_pipe_waiter list"

record event_loop = el_waits +
  system_pids :: "u32 set"
  shutdown_event :: "fd option"
  process_winstations :: "u32 \<rightharpoonup> u32"
  window_states :: "u32 \<rightharpoonup> window_state"
  window_properties :: "u32 \<times> u32 \<rightharpoonup> u64"
  clipboard_listeners :: "u32 set"
  win_timers_pending :: "u32 \<rightharpoonup> win_timer list"
  win_timers_expired :: "u32 \<rightharpoonup> win_timer list"
  sent_tracker :: sent_messages
  caret_state :: "u32 \<rightharpoonup> u32 \<times> bytes \<times> int \<times> int"
  next_timer_ids :: "u32 \<rightharpoonup> u64"
  thread_quit_state :: "u32 \<rightharpoonup> int \<times> bool"
  sess :: session
  desktop_top_window :: u32
  desktop_msg_window :: u32
  sid_bytes :: bytes

section \<open>The initial state\<close>

text \<open>\<open>hint\<close> is the parsed \<^verbatim>\<open>QUARK_LINGER_HINT\<close>.\<close>

definition linger_of_hint :: "u64 option \<Rightarrow> u64" where
  "linger_of_hint hint =
     (let mb = (case hint of None \<Rightarrow> 0 | Some h \<Rightarrow> h) div (1024 * 1024) in min (max mb 5) 30)"

text \<open>The empty tables of \<^verbatim>\<open>EventLoop::new\<close>, before the desktop windows are created.  The registry and
  the queue memory are built by their own constructors; \<open>dev\<close> says whether the kernel device opened.\<close>

definition event_loop_init ::
    "server_state \<Rightarrow> registry \<Rightarrow> shm_manager \<Rightarrow> session \<Rightarrow> bool \<Rightarrow> bytes \<Rightarrow> u64 option \<Rightarrow> event_loop" where
  "event_loop_init st rg sh se dev sid hint =
     \<lparr>clients = [], process_inflight_fds = Map.empty, peak_clients = 0, total_requests = 0,
      linger_deadline = None, linger_secs = linger_of_hint hint, pending_pipe_watches = [],
      pending_queue_fd_watches = [], pending_queue_fd_rearms = [], closed = [],
      msg_fd_map = Map.empty, srv = st, reg = rg, shm = sh, side = side_tables_new, has_ntsync = dev,
      ntsync_objects = Map.empty, ntsync_objects_created = 0, ntsync_recyclable = {},
      named_sync = Map.empty, process_exit_events = Map.empty, thread_exit_events = Map.empty,
      client_alerts = Map.empty, client_worker_interrupts = Map.empty, client_apc_flags = Map.empty,
      deferred_event_signals = Map.empty, process_idle_events = Map.empty, sync_ops = [],
      pending_waits = [], pending_wakes = Map.empty, pending_kernel_apcs = Map.empty,
      jobs = Map.empty, process_job = Map.empty, completion_queues = Map.empty,
      completion_waiters = Map.empty, thread_completion_cache = Map.empty, pending_reads = Map.empty,
      completed_ioctls = Map.empty, pending_pipe_reads = [], completed_pipe_reads = [], nt_timers = [],
      kernel_object_ptrs = [], named_pipes = Map.empty, pending_pipe_waiters = Map.empty,
      system_pids = {}, shutdown_event = None, process_winstations = Map.empty,
      window_states = Map.empty, window_properties = Map.empty, clipboard_listeners = {},
      win_timers_pending = Map.empty, win_timers_expired = Map.empty, sent_tracker = sent_messages_new,
      caret_state = Map.empty, next_timer_ids = Map.empty, thread_quit_state = Map.empty,
      sess = se, desktop_top_window = 0, desktop_msg_window = 0, sid_bytes = sid\<rparr>"

section \<open>Replies\<close>

datatype hreply = HReply (hr_error: u32) (hr_fields: "u64 list") (hr_data: bytes)

abbreviation header_reply :: "u32 \<Rightarrow> hreply" where
  "header_reply e \<equiv> HReply e [] []"

lemma unat_field: "unat (ucast (b :: u32) :: u64) = unat b"
  using unat_u32_lt[of b] by (simp add: unsigned_ucast_eq take_bit_nat_eq_self)

lemma field_eq_iff: "ucast (b :: u32) = (ucast a :: u64) \<longleftrightarrow> b = a"
  by (simp add: word_unat_eq_iff unat_field)

text \<open>\<^verbatim>\<open>reply_fixed\<close> and \<^verbatim>\<open>reply_vararg\<close> on the bytes of a struct of at most 64 bytes.\<close>

definition pad64 :: "bytes \<Rightarrow> bytes" where
  "pad64 s = s @ replicate (64 - length s) 0"

definition reply_fixed :: "bytes \<Rightarrow> reply" where
  "reply_fixed s = Fixed (pad64 s) 64"

definition reply_vararg :: "bytes \<Rightarrow> bytes \<Rightarrow> reply" where
  "reply_vararg s v = Vararg (pad64 s @ v)"

definition VARARG_OFF :: nat where
  "VARARG_OFF = 64"

definition max_reply_vararg :: "bytes \<Rightarrow> u32" where
  "max_reply_vararg buf = (if 12 \<le> length buf then u32_from_le (take 4 (drop 8 buf)) else 0)"

text \<open>\<^verbatim>\<open>if buf.len() > VARARG_OFF { &buf[VARARG_OFF..] } else { &[] }\<close>\<close>

definition vararg_or_empty :: "bytes \<Rightarrow> bytes" where
  "vararg_or_empty buf = (if VARARG_OFF < length buf then drop VARARG_OFF buf else [])"

section \<open>Clients and handles\<close>

definition client_thread_id :: "'a authority_scheme \<Rightarrow> fd \<Rightarrow> u32 option" where
  "client_thread_id ev f =
     (case client_at ev f of None \<Rightarrow> None | Some c \<Rightarrow> if thread_id c \<noteq> 0 then Some (thread_id c) else None)"

definition client_pid :: "'a authority_scheme \<Rightarrow> fd \<Rightarrow> u32" where
  "client_pid ev f = (case client_at ev f of None \<Rightarrow> 0 | Some c \<Rightarrow> process_id c)"

definition nonzero_pid :: "'a authority_scheme \<Rightarrow> fd \<Rightarrow> u32 option" where
  "nonzero_pid ev f =
     (case client_at ev f of None \<Rightarrow> None | Some c \<Rightarrow> if process_id c \<noteq> 0 then Some (process_id c) else None)"

text \<open>\<^verbatim>\<open>clients.get_mut(&fd)\<close> followed by an assignment to the record.\<close>

definition update_client :: "fd \<Rightarrow> (client \<Rightarrow> client) \<Rightarrow> 'a authority_scheme \<Rightarrow> 'a authority_scheme" where
  "update_client f g ev =
     (case client_at ev f of None \<Rightarrow> ev | Some c \<Rightarrow> ev\<lparr>clients := put_client f (g c) (clients ev)\<rparr>)"

lemma put_client_at: "map_of (put_client f c cs) f = Some c"
  by (induction f c cs rule: put_client.induct) auto

lemma put_client_other: "f' \<noteq> f \<Longrightarrow> map_of (put_client f c cs) f' = map_of cs f'"
  by (induction f c cs rule: put_client.induct) auto

lemma client_at_update:
  "client_at (update_client f g ev) f' = (if f' = f then map_option g (client_at ev f) else client_at ev f')"
  by (simp add: update_client_def put_client_at put_client_other split: option.splits)

definition close_fds :: "fd list \<Rightarrow> 'a authority_scheme \<Rightarrow> 'a authority_scheme" where
  "close_fds fds ev = ev\<lparr>closed := authority.closed ev @ fds\<rparr>"

text \<open>\<^verbatim>\<open>state.processes.get(&pid).and_then(|p| p.handles.get(handle))\<close>\<close>

definition handle_at :: "'a el_objects_scheme \<Rightarrow> u32 \<Rightarrow> u32 \<Rightarrow> handle_entry option" where
  "handle_at ev pid h = do { p \<leftarrow> processes (srv ev) pid; ht_get (handles p) h }"

definition set_handles :: "u32 \<Rightarrow> process \<Rightarrow> handle_table \<Rightarrow> 'a el_objects_scheme \<Rightarrow> 'a el_objects_scheme" where
  "set_handles pid p t ev =
     ev\<lparr>srv := (srv ev)\<lparr>processes := (processes (srv ev))(pid \<mapsto> p\<lparr>handles := t\<rparr>)\<rparr>\<rparr>"

definition new_object_id :: "'a el_objects_scheme \<Rightarrow> u64 \<times> 'a el_objects_scheme" where
  "new_object_id ev = (let (oid, s) = alloc_object_id (srv ev) in (oid, ev\<lparr>srv := s\<rparr>))"

definition alloc_handle_for_client :: "fd \<Rightarrow> u64 \<Rightarrow> 'a el_objects_scheme \<Rightarrow> u32 \<times> 'a el_objects_scheme" where
  "alloc_handle_for_client f oid ev =
     (case nonzero_pid ev f of
        None \<Rightarrow> (0, ev)
      | Some pid \<Rightarrow>
        case processes (srv ev) pid of
          None \<Rightarrow> (0, ev)
        | Some p \<Rightarrow> let (h, t) = allocate (handles p) oid in (h, set_handles pid p t ev))"

definition FD_TYPE_FILE :: u32 where "FD_TYPE_FILE = 1"

text \<open>\<open>efd\<close> is the result of \<^verbatim>\<open>eventfd\<close>.\<close>

definition alloc_waitable_handle :: "fd \<Rightarrow> fd \<Rightarrow> 'a el_objects_scheme \<Rightarrow> u32 \<times> 'a el_objects_scheme" where
  "alloc_waitable_handle f efd ev =
     (let (oid, ev) = new_object_id ev in
      if efd < 0 then (0, ev)
      else case nonzero_pid ev f of
        None \<Rightarrow> (0, close_fds [efd] ev)
      | Some pid \<Rightarrow>
        case processes (srv ev) pid of
          None \<Rightarrow> (0, close_fds [efd] ev)
        | Some p \<Rightarrow>
          let (h, t) = allocate_full (handles p) (with_fd oid efd FD_TYPE_FILE 0x001F0003 0x20)
          in (h, set_handles pid p t ev))"

section \<open>Synchronisation objects\<close>

definition sync :: "sync_op list \<Rightarrow> 'a el_objects_scheme \<Rightarrow> 'a el_objects_scheme" where
  "sync os ev = ev\<lparr>sync_ops := sync_ops ev @ os\<rparr>"

text \<open>\<open>created\<close> is what the kernel answers; without the device there is nothing to ask.\<close>

definition get_or_create_event :: "fd option \<Rightarrow> 'a el_objects_scheme \<Rightarrow> fd option" where
  "get_or_create_event created ev = (if has_ntsync ev then created else None)"

definition put_sync :: "u32 \<times> u32 \<Rightarrow> fd \<times> u32 \<Rightarrow> 'a el_objects_scheme \<Rightarrow> 'a el_objects_scheme" where
  "put_sync key obj ev = ev\<lparr>ntsync_objects := (ntsync_objects ev)(key \<mapsto> obj)\<rparr>"

definition insert_recyclable_event :: "u32 \<Rightarrow> u32 \<Rightarrow> fd \<Rightarrow> u32 \<Rightarrow> 'a el_objects_scheme \<Rightarrow> 'a el_objects_scheme" where
  "insert_recyclable_event pid h obj ty ev =
     (put_sync (pid, h) (obj, ty) ev)\<lparr>ntsync_recyclable := insert (pid, h) (ntsync_recyclable ev),
        ntsync_objects_created := ntsync_objects_created ev + 1\<rparr>"

definition remove_ntsync_obj :: "u32 \<Rightarrow> u32 \<Rightarrow> 'a el_objects_scheme \<Rightarrow> 'a el_objects_scheme" where
  "remove_ntsync_obj pid h ev = ev\<lparr>ntsync_recyclable := ntsync_recyclable ev - {(pid, h)}\<rparr>"

text \<open>\<^verbatim>\<open>if let Some((obj, _)) = ntsync_objects.get(&key) { obj.event_set() }\<close>\<close>

definition signal :: "u32 \<times> u32 \<Rightarrow> 'a el_objects_scheme \<Rightarrow> 'a el_objects_scheme" where
  "signal key ev = (case ntsync_objects ev key of None \<Rightarrow> ev | Some (obj, _) \<Rightarrow> sync [SetEvent obj] ev)"

definition get_or_create_alert :: "fd \<Rightarrow> fd option \<Rightarrow> 'a el_objects_scheme \<Rightarrow> fd \<times> 'a el_objects_scheme" where
  "get_or_create_alert f created ev =
     (case client_alerts ev f of
        Some a \<Rightarrow> (a, ev)
      | None \<Rightarrow>
        case get_or_create_event created ev of
          Some obj \<Rightarrow> (obj, ev\<lparr>client_alerts := (client_alerts ev)(f \<mapsto> obj)\<rparr>)
        | None \<Rightarrow> (- 1, ev))"

definition get_or_create_worker_interrupt :: "fd \<Rightarrow> fd option \<Rightarrow> 'a el_objects_scheme \<Rightarrow> fd \<times> 'a el_objects_scheme" where
  "get_or_create_worker_interrupt f created ev =
     (case client_worker_interrupts ev f of
        Some a \<Rightarrow> (a, ev)
      | None \<Rightarrow>
        case get_or_create_event created ev of
          Some obj \<Rightarrow> (obj, ev\<lparr>client_worker_interrupts := (client_worker_interrupts ev)(f \<mapsto> obj)\<rparr>)
        | None \<Rightarrow> (- 1, ev))"

definition get_or_create_apc_flag :: "fd \<Rightarrow> 'a el_objects_scheme \<Rightarrow> bool \<times> 'a el_objects_scheme" where
  "get_or_create_apc_flag f ev =
     (case client_apc_flags ev f of
        Some b \<Rightarrow> (b, ev)
      | None \<Rightarrow> (False, ev\<lparr>client_apc_flags := (client_apc_flags ev)(f \<mapsto> False)\<rparr>))"

section \<open>Queue bits\<close>

text \<open>\<^verbatim>\<open>clients.values().find(|c| c.thread_id == tid)\<close>\<close>

definition client_of_tid :: "'a authority_scheme \<Rightarrow> u32 \<Rightarrow> (fd \<times> client) option" where
  "client_of_tid ev tid = List.find (\<lambda>(_, c). thread_id c = tid) (clients ev)"

text \<open>The bits are set in the queue's shared object and the queue is signalled; a queue handle is made
  when the thread has none.  \<open>efd\<close> is the result of creating its descriptor.\<close>

definition set_queue_bits_for_tid :: "u32 \<Rightarrow> u32 \<Rightarrow> fd \<Rightarrow> 'a event_loop_scheme \<Rightarrow> 'a event_loop_scheme option" where
  "set_queue_bits_for_tid tid bits efd ev =
     (case client_of_tid ev tid of
        None \<Rightarrow> Some ev
      | Some (f, c) \<Rightarrow> do {
          s \<leftarrow> set_queue_bits bits (queue_locator c) (sess ev);
          (let ev = ev\<lparr>sess := s\<rparr>;
               (qh, ev) = (if queue_handle c = 0
                  then let (h, ev) = alloc_waitable_handle f efd ev
                       in (h, if h \<noteq> 0 then update_client f (queue_handle_update (\<lambda>_. h)) ev else ev)
                  else (queue_handle c, ev))
           in Some (if qh \<noteq> 0 then signal (process_id c, qh) ev else ev)) })"

definition clear_queue_bits_for_tid :: "u32 \<Rightarrow> u32 \<Rightarrow> 'a event_loop_scheme \<Rightarrow> 'a event_loop_scheme option" where
  "clear_queue_bits_for_tid tid bits ev =
     (case client_of_tid ev tid of
        None \<Rightarrow> Some ev
      | Some (_, c) \<Rightarrow> map_option (\<lambda>s. ev\<lparr>sess := s\<rparr>) (clear_queue_bits bits (queue_locator c) (sess ev)))"

text \<open>\<^verbatim>\<open>send_wake_up\<close>: the sixteen bytes written to the wait descriptor of a client.\<close>

definition wake_up_reply :: "u64 \<Rightarrow> u32 \<Rightarrow> bytes" where
  "wake_up_reply cookie signaled = u64_to_le cookie @ u32_to_le signaled @ u32_to_le 0"

definition send_wake_up :: "'a authority_scheme \<Rightarrow> pending_wait \<Rightarrow> u32 \<Rightarrow> (fd \<times> bytes) option" where
  "send_wake_up ev pw signaled =
     (case client_at ev (pw_client_fd pw) of
        None \<Rightarrow> None
      | Some c \<Rightarrow> map_option (\<lambda>w. (w, wake_up_reply (pw_cookie pw) signaled)) (wait_fd c))"

section \<open>A small server\<close>

text \<open>One client on socket 5 with message socket 6, thread 36 of process 32; used in examples.\<close>

definition one_client :: event_loop where
  "one_client =
     (event_loop_init
        (server_state_new\<lparr>processes := [32 \<mapsto> (process_new 32)\<lparr>threads := [36]\<rparr>], srv_threads := [36 \<mapsto> thread_new 32]\<rparr>)
        (registry_blank []) (projr (shm_create ''0'' 3 0 True (\<lambda>_. init_at 0))) session_unmapped True [] None)
      \<lparr>clients := [(5, (client_new 5 6)\<lparr>process_id := 32, thread_id := 36\<rparr>)]\<rparr>"

lemma one_client_simps [simp]:
  "clients one_client = [(5, (client_new 5 6)\<lparr>process_id := 32, thread_id := 36\<rparr>)]"
  "processes (srv one_client) = [32 \<mapsto> (process_new 32)\<lparr>threads := [36]\<rparr>]"
  "srv_threads (srv one_client) = [36 \<mapsto> thread_new 32]"
  "ntsync_objects one_client = Map.empty" "has_ntsync one_client" "authority.closed one_client = []"
  by (simp_all add: one_client_def event_loop_init_def)

end
