(* ===== verification/Completion.thy ===== *)
theory Completion
  imports EventLoop "HOL-Library.Multiset" "HOL-Library.AList"
begin

text \<open>
  \<^verbatim>\<open>triskelion/event_loop/completion.rs\<close>: jobs, completion ports, kernel timers, debug and device
  objects, and the kernel object pointers.  A request is the tuple of the fields its handler
  reads, \<open>None\<close> when the buffer is too short; instants are nanoseconds of the monotonic clock.
\<close>

section \<open>Operations\<close>

subsection \<open>Waitable objects without a descriptor of their own\<close>

text \<open>\<open>efd\<close> and \<open>obj\<close> are the results of creating the descriptor and the kernel event.\<close>

definition create_waitable :: "fd \<Rightarrow> fd \<Rightarrow> fd option \<Rightarrow> 'a el_objects_scheme \<Rightarrow> hreply \<times> 'a el_objects_scheme" where
  "create_waitable f efd obj ev =
     (let (h, ev) = alloc_waitable_handle f efd ev in
      if h = 0 then (header_reply 0xC0000017, ev)
      else (HReply 0 [ucast h] [],
            case get_or_create_event obj ev of
              None \<Rightarrow> ev | Some o' \<Rightarrow> put_sync (client_pid ev f, h) (o', 1) ev))"

definition handle_create_completion :: "fd \<Rightarrow> fd \<Rightarrow> fd option \<Rightarrow> 'a el_objects_scheme \<Rightarrow> hreply \<times> 'a el_objects_scheme" where
  "handle_create_completion = create_waitable"

definition handle_create_timer :: "fd \<Rightarrow> fd \<Rightarrow> fd option \<Rightarrow> 'a el_objects_scheme \<Rightarrow> hreply \<times> 'a el_objects_scheme" where
  "handle_create_timer = create_waitable"

definition job_new :: job where
  "job_new = \<lparr>job_processes = [], num_processes = 0, total_processes = 0, limit_flags = 0,
     completion_port_handle = None, completion_key = 0\<rparr>"

definition handle_create_job :: "fd \<Rightarrow> fd \<Rightarrow> fd option \<Rightarrow> 'a el_waits_scheme \<Rightarrow> hreply \<times> 'a el_waits_scheme" where
  "handle_create_job f efd obj ev =
     (let (h, ev) = alloc_waitable_handle f efd ev in
      if h = 0 then (header_reply 0xC0000017, ev)
      else
        let pid = client_pid ev f;
            oid = (case handle_at ev pid h of None \<Rightarrow> 0 | Some e \<Rightarrow> object_id e);
            ev = (case get_or_create_event obj ev of
                    None \<Rightarrow> ev | Some o' \<Rightarrow> put_sync (pid, h) (o', 1) ev)
        in (HReply 0 [ucast h] [], ev\<lparr>jobs := (jobs ev)(oid \<mapsto> job_new)\<rparr>))"

subsection \<open>Jobs\<close>

text \<open>\<^verbatim>\<open>jobs.get_mut(&oid)\<close> followed by an assignment.\<close>

definition update_job :: "u64 \<Rightarrow> (job \<Rightarrow> job) \<Rightarrow> 'a el_waits_scheme \<Rightarrow> 'a el_waits_scheme" where
  "update_job oid g ev =
     (case jobs ev oid of None \<Rightarrow> ev | Some j \<Rightarrow> ev\<lparr>jobs := (jobs ev)(oid \<mapsto> g j)\<rparr>)"

definition on_job_handle :: "fd \<Rightarrow> u32 \<Rightarrow> (job \<Rightarrow> job) \<Rightarrow> 'a el_waits_scheme \<Rightarrow> 'a el_waits_scheme" where
  "on_job_handle f h g ev =
     (case handle_at ev (client_pid ev f) h of None \<Rightarrow> ev | Some e \<Rightarrow> update_job (object_id e) g ev)"

text \<open>Request fields: \<^verbatim>\<open>handle\<close>, \<^verbatim>\<open>limit_flags\<close>.\<close>

definition handle_set_job_limits :: "fd \<Rightarrow> (u32 \<times> u32) option \<Rightarrow> 'a el_waits_scheme \<Rightarrow> hreply \<times> 'a el_waits_scheme" where
  "handle_set_job_limits f rq ev =
     (case rq of
        None \<Rightarrow> (header_reply 0, ev)
      | Some (h, fl) \<Rightarrow> (header_reply 0, on_job_handle f h (limit_flags_update (\<lambda>_. fl)) ev))"

text \<open>Request fields: \<^verbatim>\<open>job\<close>, \<^verbatim>\<open>port\<close>, \<^verbatim>\<open>key\<close>.\<close>

definition handle_set_job_completion_port ::
    "fd \<Rightarrow> (u32 \<times> u32 \<times> u64) option \<Rightarrow> 'a el_waits_scheme \<Rightarrow> hreply \<times> 'a el_waits_scheme" where
  "handle_set_job_completion_port f rq ev =
     (case rq of
        None \<Rightarrow> (header_reply 0xC000000D, ev)
      | Some (h, port, key) \<Rightarrow>
        (header_reply 0,
         on_job_handle f h (\<lambda>j. j\<lparr>completion_port_handle := Some port, completion_key := key\<rparr>) ev))"

text \<open>Handing a message to a port: the waiter registered last takes it, else it is queued.\<close>

definition post_completion :: "u32 \<Rightarrow> completion_msg \<Rightarrow> 'a el_waits_scheme \<Rightarrow> 'a el_waits_scheme" where
  "post_completion port msg ev =
     (case completion_waiters ev port of
        Some (w # ws) \<Rightarrow>
          let waiter = last (w # ws); rest = butlast (w # ws);
              ev = ev\<lparr>thread_completion_cache := (thread_completion_cache ev)(cw_client_fd waiter \<mapsto> msg)\<rparr>;
              ev = signal (cw_pid waiter, cw_wait_handle waiter) ev
          in ev\<lparr>completion_waiters := (completion_waiters ev)(port := if rest = [] then None else Some rest)\<rparr>
      | _ \<Rightarrow>
          ev\<lparr>completion_queues := (completion_queues ev)(port \<mapsto>
               (case completion_queues ev port of None \<Rightarrow> [] | Some q \<Rightarrow> q) @ [msg])\<rparr>)"

definition job_add_process :: "u32 \<Rightarrow> job \<Rightarrow> job" where
  "job_add_process pid j =
     (if pid \<in> set (job_processes j) then j
      else j\<lparr>job_processes := job_processes j @ [pid], num_processes := num_processes j + 1,
             total_processes := total_processes j + 1\<rparr>)"

definition JOB_OBJECT_MSG_NEW_PROCESS :: u32 where "JOB_OBJECT_MSG_NEW_PROCESS = 1"

text \<open>Request fields: \<^verbatim>\<open>job\<close>, \<^verbatim>\<open>process\<close>.\<close>

definition handle_assign_job :: "fd \<Rightarrow> (u32 \<times> u32) option \<Rightarrow> 'a el_waits_scheme \<Rightarrow> hreply \<times> 'a el_waits_scheme" where
  "handle_assign_job f rq ev =
     (case rq of
        None \<Rightarrow> (header_reply 0xC000000D, ev)
      | Some (jh, ph) \<Rightarrow>
        let caller = client_pid ev f in
        case (handle_at ev caller jh, handle_at ev caller ph) of
          (Some je, Some pe) \<Rightarrow>
            let oid = object_id je; target = ucast (object_id pe) in
            (case processes (srv ev) target of
               None \<Rightarrow> (header_reply 0xC000010A, ev)
             | Some p \<Rightarrow>
               if threads p = [] then (header_reply 0xC000010A, ev)
               else
                 let info = do { j \<leftarrow> jobs ev oid; port \<leftarrow> completion_port_handle j;
                                 Some (port, completion_key j) };
                     ev = update_job oid (job_add_process target) ev;
                     ev = ev\<lparr>process_job := (process_job ev)(target \<mapsto> oid)\<rparr>
                 in (header_reply 0,
                     case info of None \<Rightarrow> ev
                     | Some (port, key) \<Rightarrow>
                       post_completion port \<lparr>ckey = key, cvalue = ucast target, information = 0,
                         cstatus = JOB_OBJECT_MSG_NEW_PROCESS\<rparr> ev))
        | _ \<Rightarrow> (header_reply 0xC0000008, ev))"

subsection \<open>Completion ports\<close>

text \<open>Request fields: \<^verbatim>\<open>handle\<close>, \<^verbatim>\<open>ckey\<close>, \<^verbatim>\<open>cvalue\<close>, \<^verbatim>\<open>information\<close>, \<^verbatim>\<open>status\<close>.\<close>

definition handle_add_completion :: "fd \<Rightarrow> (u32 \<times> completion_msg) option \<Rightarrow> 'a el_waits_scheme \<Rightarrow> hreply \<times> 'a el_waits_scheme" where
  "handle_add_completion f rq ev =
     (case rq of
        None \<Rightarrow> (header_reply 0xC000000D, ev)
      | Some (port, msg) \<Rightarrow> (header_reply 0, post_completion port msg ev))"

definition completion_fields :: "completion_msg \<Rightarrow> u64 list" where
  "completion_fields m = [ckey m, cvalue m, information m, ucast (cstatus m)]"

text \<open>\<open>obj\<close> is the result of creating the kernel event; the only request field is \<^verbatim>\<open>handle\<close>.\<close>

definition handle_remove_completion ::
    "fd \<Rightarrow> fd option \<Rightarrow> u32 option \<Rightarrow> 'a el_waits_scheme \<Rightarrow> hreply \<times> 'a el_waits_scheme" where
  "handle_remove_completion f obj rq ev =
     (case rq of
        None \<Rightarrow> (header_reply 0xC000000D, ev)
      | Some port \<Rightarrow>
        (case completion_queues ev port of
           Some (msg # q) \<Rightarrow>
             (HReply 0 (completion_fields msg @ [0]) [],
              ev\<lparr>completion_queues := (completion_queues ev)(port := if q = [] then None else Some q)\<rparr>)
         | _ \<Rightarrow>
             let pid = client_pid ev f;
                 ev = (if has_ntsync ev \<and> ntsync_objects ev (pid, port) = None
                       then case get_or_create_event obj ev of
                              None \<Rightarrow> ev | Some o' \<Rightarrow> insert_recyclable_event pid port o' 1 ev
                       else ev);
                 ws = (case completion_waiters ev port of None \<Rightarrow> [] | Some ws \<Rightarrow> ws)
             in (HReply 0x103 [0, 0, 0, 0, ucast port] [],
                 ev\<lparr>completion_waiters := (completion_waiters ev)(port \<mapsto>
                   ws @ [\<lparr>cw_client_fd = f, cw_pid = pid, cw_wait_handle = port\<rparr>])\<rparr>)))"

definition handle_get_thread_completion :: "fd \<Rightarrow> 'a el_waits_scheme \<Rightarrow> hreply \<times> 'a el_waits_scheme" where
  "handle_get_thread_completion f ev =
     (case thread_completion_cache ev f of
        Some msg \<Rightarrow> (HReply 0 (completion_fields msg) [],
                     ev\<lparr>thread_completion_cache := (thread_completion_cache ev)(f := None)\<rparr>)
      | None \<Rightarrow> (HReply 0x103 [0, 0, 0, 0] [], ev))"

definition handle_query_completion :: "u32 option \<Rightarrow> 'a el_waits_scheme \<Rightarrow> hreply" where
  "handle_query_completion rq ev =
     (let h = (case rq of None \<Rightarrow> 0 | Some h \<Rightarrow> h);
          depth = (case completion_queues ev h of None \<Rightarrow> 0 | Some q \<Rightarrow> word_of_nat (length q))
      in HReply 0 [ucast (depth :: u32)] [])"

text \<open>Request fields: \<^verbatim>\<open>handle\<close>, \<^verbatim>\<open>chandle\<close>, \<^verbatim>\<open>ckey\<close>.\<close>

definition handle_set_completion_info ::
    "fd \<Rightarrow> (u32 \<times> u32 \<times> u64) option \<Rightarrow> 'a el_objects_scheme \<Rightarrow> hreply \<times> 'a el_objects_scheme" where
  "handle_set_completion_info f rq ev =
     (case rq of
        None \<Rightarrow> (header_reply 0xC000000D, ev)
      | Some (h, ch, key) \<Rightarrow>
        (header_reply 0,
         ev\<lparr>side := (side ev)\<lparr>completion_bindings :=
           (completion_bindings (side ev))((client_pid ev f, h) \<mapsto> (ch, key))\<rparr>\<rparr>))"

subsection \<open>Timers\<close>

text \<open>\<open>ask\<close> is the kernel's answer to reading the state of an event.\<close>

definition prev_signaled :: "(fd \<Rightarrow> (u32 \<times> u32) option) \<Rightarrow> 'a el_objects_scheme \<Rightarrow> u32 \<times> u32 \<Rightarrow> u32" where
  "prev_signaled ask ev key =
     (case do { (obj, _) \<leftarrow> ntsync_objects ev key; ask obj } of None \<Rightarrow> 0 | Some (_, s) \<Rightarrow> s)"

definition TICKS_1601_TO_1970 :: "64 word" where
  "TICKS_1601_TO_1970 = 116444736000000000"

definition saturating_mul_u64 :: "u64 \<Rightarrow> u64 \<Rightarrow> u64" where
  "saturating_mul_u64 a b = (if unat a * unat b < 2 ^ 64 then a * b else - 1)"

text \<open>The delay of a timer in nanoseconds; \<open>wall\<close> is the wall clock in units of 100 ns since 1601.\<close>

definition timer_delay :: "64 word \<Rightarrow> 64 word \<Rightarrow> u64" where
  "timer_delay expire wall =
     (if expire = 0 then 0
      else if sint expire < 0 then saturating_mul_u64 (- expire) 100
      else if sint expire \<le> sint wall then 0
      else saturating_mul_u64 (expire - wall) 100)"

definition remove_timer :: "u32 \<Rightarrow> u32 \<Rightarrow> (u32 \<times> u32 \<times> nat \<times> u32) list \<Rightarrow> (u32 \<times> u32 \<times> nat \<times> u32) list" where
  "remove_timer pid h = filter (\<lambda>(p, g, _, _). \<not> (p = pid \<and> g = h))"

text \<open>Request fields: \<^verbatim>\<open>handle\<close>, \<^verbatim>\<open>expire\<close>, \<^verbatim>\<open>period\<close>.\<close>

definition handle_set_timer ::
    "fd \<Rightarrow> (fd \<Rightarrow> (u32 \<times> u32) option) \<Rightarrow> nat \<Rightarrow> 64 word \<Rightarrow> (u32 \<times> 64 word \<times> 32 word) option
      \<Rightarrow> 'a el_waits_scheme \<Rightarrow> hreply \<times> 'a el_waits_scheme" where
  "handle_set_timer f ask now wall rq ev =
     (case rq of
        None \<Rightarrow> (HReply 0xC000000D [0] [], ev)
      | Some (h, expire, period) \<Rightarrow>
        let pid = client_pid ev f;
            prev = prev_signaled ask ev (pid, h);
            deadline = now + unat (timer_delay expire wall);
            ev = ev\<lparr>nt_timers := remove_timer pid h (nt_timers ev)\<rparr>
        in (HReply 0 [ucast prev] [],
            if deadline \<le> now then signal (pid, h) ev
            else ev\<lparr>nt_timers := nt_timers ev @ [(pid, h, deadline, if 0 < sint period then period else 0)]\<rparr>))"

definition handle_cancel_timer ::
    "fd \<Rightarrow> (fd \<Rightarrow> (u32 \<times> u32) option) \<Rightarrow> u32 option \<Rightarrow> 'a el_waits_scheme \<Rightarrow> hreply \<times> 'a el_waits_scheme" where
  "handle_cancel_timer f ask rq ev =
     (case rq of
        None \<Rightarrow> (HReply 0xC000000D [0] [], ev)
      | Some h \<Rightarrow>
        let pid = client_pid ev f;
            prev = prev_signaled ask ev (pid, h);
            ev = ev\<lparr>nt_timers := remove_timer pid h (nt_timers ev)\<rparr>
        in (HReply 0 [ucast prev] [],
            case ntsync_objects ev (pid, h) of None \<Rightarrow> ev | Some (obj, _) \<Rightarrow> sync [ResetEvent obj] ev))"

definition handle_get_timer_info ::
    "fd \<Rightarrow> (fd \<Rightarrow> (u32 \<times> u32) option) \<Rightarrow> u32 option \<Rightarrow> 'a el_objects_scheme \<Rightarrow> hreply" where
  "handle_get_timer_info f ask rq ev =
     (case rq of
        None \<Rightarrow> header_reply 0xC000000D
      | Some h \<Rightarrow> HReply 0 [0, ucast (prev_signaled ask ev (client_pid ev f, h))] [])"

definition swap_remove :: "nat \<Rightarrow> 'b list \<Rightarrow> 'b list" where
  "swap_remove i xs = (butlast xs)[i := last xs]"

definition MS :: nat where "MS = 1000000"

text \<open>The loop of \<^verbatim>\<open>check_nt_timers\<close> from index \<open>i\<close>.\<close>

function check_timers_from :: "nat \<Rightarrow> nat \<Rightarrow> 'a el_waits_scheme \<Rightarrow> 'a el_waits_scheme" where
  "check_timers_from now i ev =
     (if i < length (nt_timers ev) then
        case nt_timers ev ! i of
          (pid, h, deadline, period) \<Rightarrow>
            if deadline \<le> now then
              let ev = signal (pid, h) ev in
              if 0 < period
              then check_timers_from now (i + 1)
                     (ev\<lparr>nt_timers := (nt_timers ev)[i := (pid, h, now + unat period * MS, period)]\<rparr>)
              else check_timers_from now i (ev\<lparr>nt_timers := swap_remove i (nt_timers ev)\<rparr>)
            else check_timers_from now (i + 1) ev
      else ev)"
  by pat_completeness auto
termination
  by (relation "measure (\<lambda>(_, i, ev). length (nt_timers ev) - i)")
    (auto simp: swap_remove_def signal_def sync_def Let_def split: option.splits)

definition check_nt_timers :: "nat \<Rightarrow> 'a el_waits_scheme \<Rightarrow> 'a el_waits_scheme" where
  "check_nt_timers now ev = check_timers_from now 0 ev"

subsection \<open>Debug objects and device managers\<close>

text \<open>A handle whose entry holds the descriptor of the kernel event itself.\<close>

definition create_event_handle :: "fd \<Rightarrow> fd option \<Rightarrow> 'a el_objects_scheme \<Rightarrow> hreply \<times> 'a el_objects_scheme" where
  "create_event_handle f obj ev =
     (let pid = client_pid ev f in
      case get_or_create_event obj ev of
        None \<Rightarrow> (HReply 0 [4] [], ev)
      | Some evt \<Rightarrow>
        let (oid, ev) = new_object_id ev in
        case processes (srv ev) pid of
          None \<Rightarrow> (HReply 0 [4] [], close_fds [evt] ev)
        | Some p \<Rightarrow>
          let (h, t) = allocate_full (handles p) (with_fd oid evt FD_TYPE_FILE 0x001F000F 0x20);
              ev = set_handles pid p t ev
          in if h \<noteq> 0
             then (HReply 0 [ucast h] [],
                   (put_sync (pid, h) (evt, 1) ev)\<lparr>ntsync_objects_created := ntsync_objects_created ev + 1\<rparr>)
             else (HReply 0 [4] [], close_fds [evt] ev))"

definition handle_create_debug_obj :: "fd \<Rightarrow> fd option \<Rightarrow> 'a el_objects_scheme \<Rightarrow> hreply \<times> 'a el_objects_scheme" where
  "handle_create_debug_obj = create_event_handle"

definition handle_create_device_manager :: "fd \<Rightarrow> fd option \<Rightarrow> 'a el_objects_scheme \<Rightarrow> hreply \<times> 'a el_objects_scheme" where
  "handle_create_device_manager = create_event_handle"

definition handle_debug_process :: "'r option \<Rightarrow> hreply" where
  "handle_debug_process rq = header_reply (if rq = None then 0xC000000D else 0)"

definition handle_wait_debug_event :: "'r option \<Rightarrow> hreply" where
  "handle_wait_debug_event rq =
     (if rq = None then header_reply 0xC000000D else HReply 0 [0, 0] [0, 0, 0, 0])"

definition handle_continue_debug_event :: "u32 option \<Rightarrow> hreply" where
  "handle_continue_debug_event rq =
     (case rq of
        None \<Rightarrow> header_reply 0xC000000D
      | Some st \<Rightarrow> header_reply (if st \<in> {0x80010001, 0x00010001, 0x00010002, 0x40010001} then 0 else 0xC000000D))"

subsection \<open>Kernel object pointers\<close>

text \<open>The hash map is a list of distinct keys in iteration order.\<close>

type_synonym kernel_ptrs = "((u32 \<times> u32 \<times> u32) \<times> u64) list"

text \<open>Request fields: \<^verbatim>\<open>manager\<close>, \<^verbatim>\<open>handle\<close>, \<^verbatim>\<open>user_ptr\<close>.\<close>

definition handle_set_kernel_object_ptr ::
    "fd \<Rightarrow> (u32 \<times> u32 \<times> u64) option \<Rightarrow> 'a el_waits_scheme \<Rightarrow> hreply \<times> 'a el_waits_scheme" where
  "handle_set_kernel_object_ptr f rq ev =
     (case rq of
        None \<Rightarrow> (header_reply 0xC000000D, ev)
      | Some (m, h, ptr) \<Rightarrow>
        (header_reply 0,
         ev\<lparr>kernel_object_ptrs := AList.update (client_pid ev f, m, h) ptr (kernel_object_ptrs ev)\<rparr>))"

definition handle_get_kernel_object_ptr :: "fd \<Rightarrow> (u32 \<times> u32) option \<Rightarrow> 'a el_waits_scheme \<Rightarrow> hreply" where
  "handle_get_kernel_object_ptr f rq ev =
     (case rq of
        None \<Rightarrow> HReply 0xC000000D [0] []
      | Some (m, h) \<Rightarrow>
        HReply 0 [case map_of (kernel_object_ptrs ev) (client_pid ev f, m, h) of None \<Rightarrow> 0 | Some p \<Rightarrow> p] [])"

definition handle_grab_kernel_object :: "'r option \<Rightarrow> hreply" where
  "handle_grab_kernel_object rq = header_reply (if rq = None then 0xC000000D else 0)"

definition handle_release_kernel_object ::
    "fd \<Rightarrow> (u32 \<times> u64) option \<Rightarrow> 'a el_waits_scheme \<Rightarrow> hreply \<times> 'a el_waits_scheme" where
  "handle_release_kernel_object f rq ev =
     (case rq of
        None \<Rightarrow> (header_reply 0xC000000D, ev)
      | Some (m, ptr) \<Rightarrow>
        (header_reply 0,
         ev\<lparr>kernel_object_ptrs := filter (\<lambda>((p, n, _), q).
           \<not> (p = client_pid ev f \<and> n = m \<and> q = ptr)) (kernel_object_ptrs ev)\<rparr>))"

definition handle_get_kernel_object_handle :: "fd \<Rightarrow> (u32 \<times> u64) option \<Rightarrow> 'a el_waits_scheme \<Rightarrow> hreply" where
  "handle_get_kernel_object_handle f rq ev =
     (case rq of
        None \<Rightarrow> HReply 0xC000000D [0] []
      | Some (m, ptr) \<Rightarrow>
        let h = (case List.find (\<lambda>((p, n, _), q). p = client_pid ev f \<and> n = m \<and> q = ptr) (kernel_object_ptrs ev) of
                   None \<Rightarrow> 0 | Some ((_, _, h), _) \<Rightarrow> h)
        in HReply (if h \<noteq> 0 then 0 else 0xC0000034) [ucast h] [])"

section \<open>Requests without state\<close>

definition handle_open_timer :: hreply where
  "handle_open_timer = HReply 0xC0000034 [0] []"

definition handle_add_fd_completion :: hreply where
  "handle_add_fd_completion = header_reply 0"

definition handle_open_completion :: hreply where
  "handle_open_completion = HReply 0xC0000034 [0] []"

definition handle_get_exception_status :: hreply where
  "handle_get_exception_status = header_reply 0"

text \<open>The 32 parameter bytes come first, as four words.\<close>

definition handle_get_next_device_request :: hreply where
  "handle_get_next_device_request = HReply 0x103 [0, 0, 0, 0, 0, 0, 0, 0] []"

definition handle_send_socket :: hreply where
  "handle_send_socket = HReply 0 [0, 0, 0] []"

definition handle_recv_socket :: hreply where
  "handle_recv_socket = HReply 0 [0, 0, 0] []"

definition handle_socket_get_events :: hreply where
  "handle_socket_get_events = HReply 0 [0] []"

definition handle_get_directory_cache_entry :: hreply where
  "handle_get_directory_cache_entry = HReply 0x8000001A [0] []"

definition handle_map_builtin_view :: hreply where
  "handle_map_builtin_view = header_reply 0"

definition handle_get_image_view_info :: hreply where
  "handle_get_image_view_info = HReply 0xC0000141 [0, 0] []"

definition handle_set_irp_result :: hreply where
  "handle_set_irp_result = header_reply 0"

text \<open>\<^verbatim>\<open>handle_init_window_info\<close> reads its request from the raw bytes.\<close>

definition handle_init_window_info :: "bytes \<Rightarrow> 'a event_loop_scheme \<Rightarrow> hreply \<times> 'a event_loop_scheme" where
  "handle_init_window_info buf ev =
     (header_reply 0,
      if 26 \<le> length buf then
        let h = u32_from_le (take 4 (drop 12 buf)) in
        case window_states ev h of
          None \<Rightarrow> ev
        | Some ws \<Rightarrow> ev\<lparr>window_states := (window_states ev)(h \<mapsto>
            ws\<lparr>ws_style := u32_from_le (take 4 (drop 16 buf)),
               ws_ex_style := u32_from_le (take 4 (drop 20 buf)),
               ws_is_unicode := u16_from_le (take 2 (drop 24 buf)),
               ws_paint_flags := ws_paint_flags ws OR 0x0040\<rparr>)\<rparr>
      else ev)"

declare check_timers_from.simps [simp del]

end
