(* ===== verification/CompletionProps.thy ===== *)
theory CompletionProps
  imports Completion
begin

text \<open>
  Properties of the kernel timers and the completion ports: the in-place timer scan against its
  specification, and what a port does with the messages posted to it.
\<close>

section \<open>Timers\<close>

text \<open>What one pass should do to a timer that is looked at once: the timer left in its place, if any,
  and the object to signal, if any.\<close>

type_synonym nt_timer = "u32 \<times> u32 \<times> nat \<times> u32"

definition timer_after :: "nat \<Rightarrow> nt_timer \<Rightarrow> nt_timer list" where
  "timer_after now t = (case t of (pid, h, deadline, period) \<Rightarrow>
     if deadline \<le> now then if 0 < period then [(pid, h, now + unat period * MS, period)] else []
     else [t])"

definition timer_signal :: "(u32 \<times> u32 \<rightharpoonup> fd \<times> u32) \<Rightarrow> nat \<Rightarrow> nt_timer \<Rightarrow> sync_op list" where
  "timer_signal objs now t = (case t of (pid, h, deadline, _) \<Rightarrow>
     if deadline \<le> now then case objs (pid, h) of None \<Rightarrow> [] | Some (obj, _) \<Rightarrow> [SetEvent obj] else [])"

lemma swap_remove_mset:
  assumes "i < length xs"
  shows "take i (swap_remove i xs) = take i xs" and "length (swap_remove i xs) = length xs - 1"
    and "add_mset (xs ! i) (mset (drop i (swap_remove i xs))) = mset (drop i xs)"
proof -
  from assms obtain ys z where xs: "xs = ys @ [z]" by (cases xs rule: rev_cases) auto
  show "take i (swap_remove i xs) = take i xs" "length (swap_remove i xs) = length xs - 1"
    using assms by (simp_all add: swap_remove_def xs)
  show "add_mset (xs ! i) (mset (drop i (swap_remove i xs))) = mset (drop i xs)"
  proof (cases "i < length ys")
    case True
    then have "drop i (ys[i := z]) = z # drop (Suc i) ys" "drop i ys = ys ! i # drop (Suc i) ys"
      by (simp_all add: Cons_nth_drop_Suc[symmetric])
    then show ?thesis using True by (simp add: swap_remove_def xs nth_append)
  next
    case False
    then have "i = length ys" using assms by (simp add: xs)
    then show ?thesis by (simp add: swap_remove_def xs)
  qed
qed

lemma signal_eq:
  "signal (pid, h) ev = sync (case ntsync_objects ev (pid, h) of None \<Rightarrow> [] | Some (obj, _) \<Rightarrow> [SetEvent obj]) ev"
  by (simp add: signal_def sync_def split: option.split)

text \<open>The loop from index \<open>i\<close>: the entries before \<open>i\<close> stay, the rest is treated once each.\<close>

definition timers_treated :: "nat \<Rightarrow> nat \<Rightarrow> 'a el_waits_scheme \<Rightarrow> 'a el_waits_scheme \<Rightarrow> bool" where
  "timers_treated now i ev ev' \<longleftrightarrow>
     (\<exists>ts ops. ev' = ev\<lparr>sync_ops := sync_ops ev @ ops, nt_timers := ts\<rparr> \<and>
        mset ts = mset (take i (nt_timers ev)) + mset (concat (map (timer_after now) (drop i (nt_timers ev)))) \<and>
        mset ops = mset (concat (map (timer_signal (ntsync_objects ev) now) (drop i (nt_timers ev)))))"

lemma timers_treated_step:
  assumes "timers_treated now j (ev\<lparr>sync_ops := sync_ops ev @ ops, nt_timers := ts\<rparr>) ev'"
    and "mset (take j ts) + mset (concat (map (timer_after now) (drop j ts))) =
      mset (take i (nt_timers ev)) + mset (concat (map (timer_after now) (drop i (nt_timers ev))))"
    and "mset ops + mset (concat (map (timer_signal (ntsync_objects ev) now) (drop j ts))) =
      mset (concat (map (timer_signal (ntsync_objects ev) now) (drop i (nt_timers ev))))"
  shows "timers_treated now i ev ev'"
proof -
  from assms(1) obtain us os where "ev' = ev\<lparr>sync_ops := sync_ops ev @ ops @ os, nt_timers := us\<rparr>"
    "mset us = mset (take j ts) + mset (concat (map (timer_after now) (drop j ts)))"
    "mset os = mset (concat (map (timer_signal (ntsync_objects ev) now) (drop j ts)))"
    unfolding timers_treated_def by (simp del: mset_concat) blast
  then show ?thesis unfolding timers_treated_def using assms(2,3)
    by (intro exI[of _ us] exI[of _ "ops @ os"]) (simp del: mset_concat)
qed

lemma concat_map_mset: "mset xs = mset ys \<Longrightarrow> mset (concat (map f xs)) = mset (concat (map f ys))"
proof -
  have "mset (concat (map f zs)) = (\<Sum>x\<in>#mset zs. mset (f x))" for zs by (induction zs) auto
  then show "mset xs = mset ys \<Longrightarrow> mset (concat (map f xs)) = mset (concat (map f ys))" by simp
qed

lemma check_timers_from_treats: "timers_treated now i ev (check_timers_from now i ev)"
proof (induction "length (nt_timers ev) - i" arbitrary: i ev rule: less_induct)
  case less
  let ?ts = "nt_timers ev"
  show ?case
  proof (cases "i < length ?ts")
    case False
    then have "check_timers_from now i ev = ev" by (simp add: check_timers_from.simps)
    then show ?thesis using False unfolding timers_treated_def by (intro exI[of _ ?ts] exI[of _ "[]"]) simp
  next
    case True
    obtain pid h d per where t: "?ts ! i = (pid, h, d, per)" by (cases "?ts ! i")
    have rest: "drop i ?ts = (pid, h, d, per) # drop (Suc i) ?ts" using True t by (simp add: Cons_nth_drop_Suc[symmetric])
    define sg where "sg = (case ntsync_objects ev (pid, h) of None \<Rightarrow> [] | Some (obj, _) \<Rightarrow> [SetEvent obj])"
    have sg: "timer_signal (ntsync_objects ev) now (pid, h, d, per) = (if d \<le> now then sg else [])"
      by (simp add: timer_signal_def sg_def)
    consider (waiting) "\<not> d \<le> now" | (periodic) "d \<le> now" "0 < per" | (once) "d \<le> now" "\<not> 0 < per" by blast
    then show ?thesis
    proof cases
      case waiting
      have run: "check_timers_from now i ev =
          check_timers_from now (i + 1) (ev\<lparr>sync_ops := sync_ops ev @ [], nt_timers := ?ts\<rparr>)"
        using True t waiting by (subst check_timers_from.simps) simp
      have IH: "timers_treated now (i + 1) (ev\<lparr>sync_ops := sync_ops ev @ [], nt_timers := ?ts\<rparr>) (check_timers_from now i ev)"
        unfolding run by (rule less) (use True in simp)
      have "take (i + 1) ?ts = take i ?ts @ [(pid, h, d, per)]" using True t by (simp add: take_Suc_conv_app_nth)
      then show ?thesis using waiting sg
        by (intro timers_treated_step[OF IH]) (simp_all add: rest timer_after_def del: mset_concat)
    next
      case periodic
      let ?t = "(pid, h, now + unat per * MS, per)" and ?us = "?ts[i := (pid, h, now + unat per * MS, per)]"
      have run: "check_timers_from now i ev =
          check_timers_from now (i + 1) (ev\<lparr>sync_ops := sync_ops ev @ sg, nt_timers := ?us\<rparr>)"
        using True t periodic by (subst check_timers_from.simps) (simp add: Let_def signal_eq sg_def sync_def)
      have IH: "timers_treated now (i + 1) (ev\<lparr>sync_ops := sync_ops ev @ sg, nt_timers := ?us\<rparr>) (check_timers_from now i ev)"
        unfolding run by (rule less) (use True in simp)
      have "take (i + 1) ?us = take i ?ts @ [?t]" "drop (i + 1) ?us = drop (Suc i) ?ts"
        using True by (simp_all add: take_Suc_conv_app_nth)
      then show ?thesis using periodic sg
        by (intro timers_treated_step[OF IH]) (simp_all only: rest, simp_all add: timer_after_def)
    next
      case once
      let ?us = "swap_remove i ?ts"
      have run: "check_timers_from now i ev =
          check_timers_from now i (ev\<lparr>sync_ops := sync_ops ev @ sg, nt_timers := ?us\<rparr>)"
        using True t once by (subst check_timers_from.simps) (simp add: Let_def signal_eq sg_def sync_def)
      have IH: "timers_treated now i (ev\<lparr>sync_ops := sync_ops ev @ sg, nt_timers := ?us\<rparr>) (check_timers_from now i ev)"
        unfolding run by (rule less) (use True swap_remove_mset(2)[OF True] in simp)
      have "mset (drop i ?us) = mset (drop (Suc i) ?ts)" using swap_remove_mset(3)[OF True] rest t by simp
      note same = concat_map_mset[OF this]
      show ?thesis
        by (rule timers_treated_step[OF IH])
          (simp_all only: same swap_remove_mset(1)[OF True] rest list.map concat.simps sg once, simp_all add: timer_after_def once)
    qed
  qed
qed

section \<open>Completion ports\<close>

text \<open>The messages and waiters of one port, absent tables read as empty.\<close>

definition port_queue :: "'a el_waits_scheme \<Rightarrow> u32 \<Rightarrow> completion_msg list" where
  "port_queue ev port = (case completion_queues ev port of None \<Rightarrow> [] | Some q \<Rightarrow> q)"

definition port_waiters :: "'a el_waits_scheme \<Rightarrow> u32 \<Rightarrow> completion_waiter list" where
  "port_waiters ev port = (case completion_waiters ev port of None \<Rightarrow> [] | Some ws \<Rightarrow> ws)"

text \<open>No port has both messages and waiters, and no empty list is stored.\<close>

definition ports_inv :: "'a el_waits_scheme \<Rightarrow> bool" where
  "ports_inv ev \<longleftrightarrow> (\<forall>port. completion_queues ev port \<noteq> Some [] \<and> completion_waiters ev port \<noteq> Some [] \<and>
     (completion_queues ev port = None \<or> completion_waiters ev port = None))"

lemma ports_invD:
  assumes "ports_inv ev"
  shows "port_queue ev port = [] \<Longrightarrow> completion_queues ev port = None"
    and "port_waiters ev port = [] \<Longrightarrow> completion_waiters ev port = None"
    and "port_queue ev port \<noteq> [] \<Longrightarrow> completion_waiters ev port = None"
    and "port_waiters ev port \<noteq> [] \<Longrightarrow> completion_queues ev port = None"
proof -
  note inv = spec[OF assms[unfolded ports_inv_def], of port]
  show "port_queue ev port = [] \<Longrightarrow> completion_queues ev port = None"
    "port_queue ev port \<noteq> [] \<Longrightarrow> completion_waiters ev port = None"
    using inv by (cases "completion_queues ev port"; simp add: port_queue_def)+
  show "port_waiters ev port = [] \<Longrightarrow> completion_waiters ev port = None"
    "port_waiters ev port \<noteq> [] \<Longrightarrow> completion_queues ev port = None"
    using inv by (cases "completion_waiters ev port"; simp add: port_waiters_def)+
qed

lemma waits_updates [simp]:
  "completion_queues (signal key ev) = completion_queues ev" "completion_waiters (signal key ev) = completion_waiters ev"
  "thread_completion_cache (signal key ev) = thread_completion_cache ev"
  "completion_queues (insert_recyclable_event pid h obj ty ev) = completion_queues ev"
  "completion_waiters (insert_recyclable_event pid h obj ty ev) = completion_waiters ev"
  "thread_completion_cache (insert_recyclable_event pid h obj ty ev) = thread_completion_cache ev"
  "completion_queues (update_job oid g ev) = completion_queues ev" "completion_waiters (update_job oid g ev) = completion_waiters ev"
  "thread_completion_cache (update_job oid g ev) = thread_completion_cache ev"
  by (simp_all add: signal_def sync_def insert_recyclable_event_def put_sync_def update_job_def split: option.split)

text \<open>The two ways of posting.\<close>

lemma post_queued:
  assumes "port_waiters ev port = []"
  shows "post_completion port msg ev = ev\<lparr>completion_queues := (completion_queues ev)(port \<mapsto> port_queue ev port @ [msg])\<rparr>"
  using assms by (auto simp: post_completion_def port_waiters_def port_queue_def split: option.splits list.splits)

lemma post_queued_queue:
  assumes "port_waiters ev port = []"
  shows "port_queue (post_completion port msg ev) port = port_queue ev port @ [msg]"
    and "port_waiters (post_completion port msg ev) port = []"
  using assms by (simp_all add: post_queued port_queue_def port_waiters_def)

lemma post_delivered:
  assumes "port_waiters ev port = ws @ [w]"
  shows "completion_queues (post_completion port msg ev) = completion_queues ev"
    and "completion_waiters (post_completion port msg ev) = (completion_waiters ev)(port := if ws = [] then None else Some ws)"
    and "thread_completion_cache (post_completion port msg ev) = (thread_completion_cache ev)(cw_client_fd w \<mapsto> msg)"
proof -
  from assms have c: "completion_waiters ev port = Some (ws @ [w])"
    by (auto simp: port_waiters_def split: option.splits)
  then show "completion_queues (post_completion port msg ev) = completion_queues ev"
    "completion_waiters (post_completion port msg ev) = (completion_waiters ev)(port := if ws = [] then None else Some ws)"
    "thread_completion_cache (post_completion port msg ev) = (thread_completion_cache ev)(cw_client_fd w \<mapsto> msg)"
    by (cases ws; simp add: post_completion_def Let_def)+
qed

lemma post_inv:
  assumes "ports_inv ev"
  shows "ports_inv (post_completion port msg ev)"
proof (cases "port_waiters ev port" rule: rev_cases)
  case Nil
  then show ?thesis using assms ports_invD(2)[OF assms Nil] by (simp add: post_queued ports_inv_def)
next
  case (snoc ws w)
  then have "completion_queues ev port = None" using ports_invD(4)[OF assms] by simp
  then show ?thesis using assms by (simp add: post_delivered[OF snoc] ports_inv_def)
qed

lemma remove_cases:
  assumes "handle_remove_completion f obj (Some port) ev = (r, ev')"
  shows "(\<exists>m q. port_queue ev port = m # q \<and> r = HReply 0 (completion_fields m @ [0]) [] \<and>
            ev' = ev\<lparr>completion_queues := (completion_queues ev)(port := if q = [] then None else Some q)\<rparr>) \<or>
         (port_queue ev port = [] \<and> r = HReply 0x103 [0, 0, 0, 0, ucast port] [] \<and>
            completion_queues ev' = completion_queues ev \<and> thread_completion_cache ev' = thread_completion_cache ev \<and>
            completion_waiters ev' = (completion_waiters ev)(port \<mapsto> port_waiters ev port @
              [\<lparr>cw_client_fd = f, cw_pid = client_pid ev f, cw_wait_handle = port\<rparr>]))"
proof (cases "port_queue ev port")
  case Nil
  then show ?thesis using assms
    by (auto simp: handle_remove_completion_def port_queue_def port_waiters_def get_or_create_event_def Let_def
        split: option.splits list.splits if_splits)
next
  case (Cons m q)
  then show ?thesis using assms
    by (auto simp: handle_remove_completion_def port_queue_def split: option.splits)
qed

lemma remove_inv:
  assumes "handle_remove_completion f obj rq ev = (r, ev')" and "ports_inv ev"
  shows "ports_inv ev'"
proof (cases rq)
  case None
  then show ?thesis using assms by (simp add: handle_remove_completion_def)
next
  case (Some port)
  show ?thesis using remove_cases[OF assms(1)[unfolded Some]]
  proof (elim disjE exE conjE)
    fix m q
    assume q: "port_queue ev port = m # q"
      and ev': "ev' = ev\<lparr>completion_queues := (completion_queues ev)(port := if q = [] then None else Some q)\<rparr>"
    from q have "completion_waiters ev port = None" using ports_invD(3)[OF assms(2)] by simp
    then show ?thesis using assms(2) by (simp add: ev' ports_inv_def)
  next
    assume "port_queue ev port = []" "completion_queues ev' = completion_queues ev"
      "completion_waiters ev' = (completion_waiters ev)(port \<mapsto> port_waiters ev port @
         [\<lparr>cw_client_fd = f, cw_pid = client_pid ev f, cw_wait_handle = port\<rparr>])"
    then show ?thesis using assms(2) ports_invD(1)[OF assms(2)] by (simp add: ports_inv_def)
  qed
qed

lemma assign_inv: "ports_inv ev \<Longrightarrow> ports_inv (snd (handle_assign_job f rq ev))"
proof -
  assume inv: "ports_inv ev"
  then have "ports_inv ((update_job oid g ev)\<lparr>process_job := pj\<rparr>)" for oid g pj
    by (simp add: ports_inv_def)
  then show "ports_inv (snd (handle_assign_job f rq ev))"
    using inv unfolding handle_assign_job_def Let_def by (auto split: option.split intro!: post_inv)
qed

inductive port_step :: "'a el_waits_scheme \<Rightarrow> 'a el_waits_scheme \<Rightarrow> bool" where
  add: "handle_add_completion f rq ev = (r, ev') \<Longrightarrow> port_step ev ev'"
| remove: "handle_remove_completion f obj rq ev = (r, ev') \<Longrightarrow> port_step ev ev'"
| fetch: "handle_get_thread_completion f ev = (r, ev') \<Longrightarrow> port_step ev ev'"
| assign: "handle_assign_job f rq ev = (r, ev') \<Longrightarrow> port_step ev ev'"

lemma port_step_inv: "port_step ev ev' \<Longrightarrow> ports_inv ev \<Longrightarrow> ports_inv ev'"
proof (induction rule: port_step.induct)
  case (add f rq ev r ev')
  then show ?case by (auto simp: handle_add_completion_def post_inv split: option.splits)
next
  case (remove f obj rq ev r ev')
  then show ?case using remove_inv by blast
next
  case (fetch f ev r ev')
  then show ?case by (auto simp: handle_get_thread_completion_def ports_inv_def split: option.splits)
next
  case (assign f rq ev r ev')
  then show ?case using assign_inv[of ev f rq] by simp
qed

section \<open>Properties\<close>

text \<open>
  C6. The in-place scan of the kernel timers, which moves the last entry into the place of an expired
  one, does what looking at each timer once would do: a timer that is due signals its object once and
  is then rescheduled if periodic and dropped otherwise; the others are untouched; nothing else of
  the server changes; and afterwards no timer is due.
\<close>

theorem nt_timers_scan_correct:
  "\<exists>ts ops. check_nt_timers now ev = ev\<lparr>sync_ops := sync_ops ev @ ops, nt_timers := ts\<rparr> \<and>
     mset ts = mset (concat (map (timer_after now) (nt_timers ev))) \<and>
     mset ops = mset (concat (map (timer_signal (ntsync_objects ev) now) (nt_timers ev))) \<and>
     list_all (\<lambda>(_, _, deadline, _). now < deadline) ts"
proof -
  from check_timers_from_treats[of now 0 ev] obtain ts ops where
    r: "check_nt_timers now ev = ev\<lparr>sync_ops := sync_ops ev @ ops, nt_timers := ts\<rparr>"
      "mset ts = mset (concat (map (timer_after now) (nt_timers ev)))"
      "mset ops = mset (concat (map (timer_signal (ntsync_objects ev) now) (nt_timers ev)))"
    unfolding timers_treated_def check_nt_timers_def by (simp del: mset_concat) blast
  have "case t of (_, _, deadline, _) \<Rightarrow> now < deadline" if "t \<in> set ts" for t
  proof -
    from that have "t \<in> set (concat (map (timer_after now) (nt_timers ev)))" using r(2) mset_eq_setD by blast
    then show ?thesis by (auto simp: timer_after_def MS_def word_less_nat_alt split: if_splits)
  qed
  then have "list_all (\<lambda>(_, _, deadline, _). now < deadline) ts" by (auto simp: list_all_iff)
  then show ?thesis using r by blast
qed



text \<open>The replies to \<open>n\<close> requests for a message of a port.\<close>

fun remove_messages :: "fd \<Rightarrow> u32 \<Rightarrow> nat \<Rightarrow> 'a el_waits_scheme \<Rightarrow> hreply list \<times> 'a el_waits_scheme" where
  "remove_messages f port 0 ev = ([], ev)"
| "remove_messages f port (Suc n) ev =
     (let (r, ev) = handle_remove_completion f None (Some port) ev; (rs, ev) = remove_messages f port n ev
      in (r # rs, ev))"

lemma remove_messages_queue:
  "port_queue ev port = ms @ rest \<Longrightarrow>
   \<exists>ev'. remove_messages f port (length ms) ev = (map (\<lambda>m. HReply 0 (completion_fields m @ [0]) []) ms, ev') \<and>
     port_queue ev' port = rest"
proof (induction ms arbitrary: ev)
  case (Cons m ms)
  obtain r ev1 where r: "handle_remove_completion f None (Some port) ev = (r, ev1)"
    by (cases "handle_remove_completion f None (Some port) ev")
  from remove_cases[OF r] Cons.prems have "r = HReply 0 (completion_fields m @ [0]) []"
    "ev1 = ev\<lparr>completion_queues := (completion_queues ev)(port := if ms @ rest = [] then None else Some (ms @ rest))\<rparr>"
    by auto
  then have "port_queue ev1 port = ms @ rest" "r = HReply 0 (completion_fields m @ [0]) []" by (simp_all add: port_queue_def)
  moreover from Cons.IH[OF this(1)] obtain ev2 where
    "remove_messages f port (length ms) ev1 = (map (\<lambda>m. HReply 0 (completion_fields m @ [0]) []) ms, ev2)"
    "port_queue ev2 port = rest" by blast
  ultimately show ?case using r by simp
qed simp

lemma post_all_queue:
  "port_waiters ev port = [] \<Longrightarrow>
     port_queue (fold (post_completion port) ms ev) port = port_queue ev port @ ms"
proof (induction ms arbitrary: ev)
  case (Cons m ms)
  let ?ev = "post_completion port m ev"
  show ?case using Cons.IH[of ?ev] post_queued_queue[OF Cons.prems, of m] by simp
qed simp

text \<open>
  C15. Messages posted to a port on which no thread waits come out in the order they were posted, each
  once, with the four values they were posted with.
\<close>

theorem completion_port_fifo:
  assumes "port_waiters ev port = []" and "port_queue ev port = []"
  shows "\<exists>ev'. remove_messages f port (length ms) (fold (post_completion port) ms ev) =
      (map (\<lambda>m. HReply 0 [ckey m, cvalue m, information m, ucast (cstatus m), 0] []) ms, ev') \<and> port_queue ev' port = []"
  using remove_messages_queue[of "fold (post_completion port) ms ev" port ms "[]" f] post_all_queue[OF assms(1), of ms]
    assms(2) by (simp add: completion_fields_def)

theorem completion_port_fifo_witness:
  "\<exists>ev'. remove_messages 5 8 2 (fold (post_completion 8)
      [\<lparr>ckey = 1, cvalue = 2, information = 3, cstatus = 4\<rparr>, \<lparr>ckey = 5, cvalue = 6, information = 7, cstatus = 8\<rparr>] one_client) =
     ([HReply 0 [1, 2, 3, 4, 0] [], HReply 0 [5, 6, 7, 8, 0] []], ev')"
proof -
  have "port_waiters one_client 8 = []" "port_queue one_client 8 = []"
    by (simp_all add: port_waiters_def port_queue_def one_client_def event_loop_init_def)
  note fifo = completion_port_fifo[OF this, of 5]
  let ?ms = "[\<lparr>ckey = 1, cvalue = 2, information = 3, cstatus = 4\<rparr>, \<lparr>ckey = 5, cvalue = 6, information = 7, cstatus = 8\<rparr>]"
  have l: "length ?ms = 2" and m: "map (\<lambda>m. HReply 0 [ckey m, cvalue m, information m, ucast (cstatus m), 0] []) ?ms =
      [HReply 0 [1, 2, 3, 4, 0] [], HReply 0 [5, 6, 7, 8, 0] []]" by simp_all
  show ?thesis using fifo[of ?ms] unfolding l m by blast
qed



text \<open>
  Ports are told apart by the value of the handle alone.  A message that one process posts to its
  handle is delivered to a thread of another process that waits on a handle of the same value.
\<close>

theorem ports_shared_between_processes:
  assumes "port_waiters ev port = []" and "port_queue ev port = []"
    and "handle_remove_completion f obj (Some port) ev = (r1, ev1)"
    and "handle_add_completion g (Some (port, m)) ev1 = (r2, ev2)" and "client_pid ev f \<noteq> client_pid ev g"
  shows "thread_completion_cache ev2 f = Some m \<and> port_queue ev2 port = []"
proof -
  let ?w = "\<lparr>cw_client_fd = f, cw_pid = client_pid ev f, cw_wait_handle = port\<rparr>"
  have e1: "completion_queues ev1 = completion_queues ev" "port_waiters ev1 port = [?w]"
    using remove_cases[OF assms(3)] assms(1,2) by (auto simp: port_waiters_def)
  have p: "ev2 = post_completion port m ev1" using assms(4) by (simp add: handle_add_completion_def)
  show ?thesis using post_delivered[of ev1 port "[]" ?w m] e1 assms(2) by (simp add: p port_queue_def)
qed

theorem ports_shared_between_processes_witness:
  "let ev = one_client\<lparr>clients := clients one_client @ [(7, (client_new 7 8)\<lparr>process_id := 40, thread_id := 44\<rparr>)]\<rparr> in
   \<exists>ev1 ev2. client_pid ev 5 = 32 \<and> client_pid ev 7 = 40 \<and>
     handle_remove_completion 5 None (Some 8) ev = (HReply 0x103 [0, 0, 0, 0, 8] [], ev1) \<and>
     handle_add_completion 7 (Some (8, \<lparr>ckey = 1, cvalue = 2, information = 3, cstatus = 4\<rparr>)) ev1 = (header_reply 0, ev2) \<and>
     thread_completion_cache ev2 5 = Some \<lparr>ckey = 1, cvalue = 2, information = 3, cstatus = 4\<rparr>"
proof -
  define ev where "ev = one_client\<lparr>clients := clients one_client @ [(7, (client_new 7 8)\<lparr>process_id := 40, thread_id := 44\<rparr>)]\<rparr>"
  have e: "port_waiters ev 8 = []" "port_queue ev 8 = []" and pid: "client_pid ev 5 = 32" "client_pid ev 7 = 40"
    by (simp_all add: ev_def port_waiters_def port_queue_def one_client_def event_loop_init_def client_pid_def)
  obtain r1 ev1 where 1: "handle_remove_completion 5 None (Some 8) ev = (r1, ev1)"
    by (cases "handle_remove_completion 5 None (Some 8) ev")
  from remove_cases[OF 1] e have r1: "r1 = HReply 0x103 [0, 0, 0, 0, 8] []" by auto
  obtain ev2 where 2: "handle_add_completion 7 (Some (8, \<lparr>ckey = 1, cvalue = 2, information = 3, cstatus = 4\<rparr>)) ev1 = (header_reply 0, ev2)"
    by (simp add: handle_add_completion_def)
  from ports_shared_between_processes[OF e 1 2]
  have "thread_completion_cache ev2 5 = Some \<lparr>ckey = 1, cvalue = 2, information = 3, cstatus = 4\<rparr>" by (simp add: pid)
  then show ?thesis unfolding ev_def[symmetric] Let_def using pid 1 2 r1
    by (intro exI[of _ ev1] exI[of _ ev2] conjI) simp_all
qed

end
