(* ===== verification/Handles.thy ===== *)
theory Handles
  imports EventLoop Ustring
begin

text \<open>
  \<^verbatim>\<open>triskelion/event_loop/handles.rs\<close>: closing, duplicating and describing handles, and fetching
  their descriptors.  \<open>None\<close> around a result is a panic of the handle table.  A kernel object whose
  last \<^verbatim>\<open>Arc\<close> goes away closes its descriptor; that reference count is not modelled.
\<close>

section \<open>Operations\<close>

text \<open>The only request field is \<^verbatim>\<open>handle\<close>.\<close>

definition close_in_table :: "u32 \<Rightarrow> u32 \<Rightarrow> 'a el_objects_scheme \<Rightarrow> 'a el_objects_scheme option" where
  "close_in_table pid h ev =
     (case processes (srv ev) pid of
        None \<Rightarrow> Some ev
      | Some p \<Rightarrow> do {
          ((_, fds), t) \<leftarrow> ht_close (handles p) h;
          Some (close_fds fds (set_handles pid p t ev)) })"

text \<open>What is dropped before the table entry: the recycling marks and the side-table entries.\<close>

definition unlink_handle :: "u32 \<Rightarrow> u32 \<Rightarrow> 'a el_objects_scheme \<Rightarrow> 'a el_objects_scheme" where
  "unlink_handle pid h ev =
     (let ev = remove_ntsync_obj pid h ev;
          ((wh, fds), t) = purge (side ev) pid h;
          ev = close_fds fds (ev\<lparr>side := t\<rparr>)
      in case wh of None \<Rightarrow> ev | Some w \<Rightarrow> remove_ntsync_obj pid w ev)"

definition handle_close_handle :: "fd \<Rightarrow> u32 option \<Rightarrow> 'a el_objects_scheme \<Rightarrow> (hreply \<times> 'a el_objects_scheme) option" where
  "handle_close_handle f rq ev =
     (case do { tid \<leftarrow> client_thread_id ev f; th \<leftarrow> srv_threads (srv ev) tid; h \<leftarrow> rq; Some (thr_pid th, h) } of
        None \<Rightarrow> Some (header_reply 0, ev)
      | Some (pid, h) \<Rightarrow>
        map_option (\<lambda>ev. (header_reply 0, ev)) (close_in_table pid h (unlink_handle pid h ev)))"

definition OBJ_INHERIT :: u32 where "OBJ_INHERIT = 0x02"

text \<open>Request fields: \<^verbatim>\<open>handle\<close>, \<^verbatim>\<open>flags\<close>, \<^verbatim>\<open>mask\<close>.\<close>

definition handle_set_handle_info ::
    "fd \<Rightarrow> (u32 \<times> u32 \<times> u32) option \<Rightarrow> 'a el_objects_scheme \<Rightarrow> hreply \<times> 'a el_objects_scheme" where
  "handle_set_handle_info f rq ev =
     (case rq of
        None \<Rightarrow> (header_reply 0xC000000D, ev)
      | Some (h, flags, msk) \<Rightarrow>
        let pid = client_pid ev f;
            old = (case handle_at ev pid h of None \<Rightarrow> 0 | Some e \<Rightarrow> options e);
            old_flags = (if old AND OBJ_INHERIT \<noteq> 0 then 1 else 0);
            apply_mask = (\<lambda>e. if msk AND 1 \<noteq> 0
                   then if flags AND 1 \<noteq> 0 then e\<lparr>options := options e OR OBJ_INHERIT\<rparr>
                        else e\<lparr>options := options e AND NOT OBJ_INHERIT\<rparr>
                   else e)
        in (HReply 0 [old_flags] [],
            case processes (srv ev) pid of
              None \<Rightarrow> ev
            | Some p \<Rightarrow> set_handles pid p (snd (ht_get_mut (handles p) h apply_mask)) ev))"

definition pseudo_handles :: "u32 set" where
  "pseudo_handles = {0xFFFFFFFF, 0x7FFFFFFF, 0xFFFFFFFE, 0xFFFFFFFC, 0xFFFFFFFB, 0xFFFFFFFA}"

definition STATUS_OBJECT_TYPE_MISMATCH :: u32 where "STATUS_OBJECT_TYPE_MISMATCH = 0xC0000024"
definition STATUS_INVALID_HANDLE :: u32 where "STATUS_INVALID_HANDLE = 0xC0000008"

text \<open>A \<^verbatim>\<open>GetHandleFdReply\<close>: \<^verbatim>\<open>type\<close>, \<^verbatim>\<open>cacheable\<close>, \<^verbatim>\<open>access\<close>, \<^verbatim>\<open>options\<close>.\<close>

abbreviation mismatch_reply :: hreply where
  "mismatch_reply \<equiv> HReply STATUS_OBJECT_TYPE_MISMATCH [0, 1, 0, 0] []"

abbreviation bad_handle_reply :: hreply where
  "bad_handle_reply \<equiv> HReply STATUS_INVALID_HANDLE [0, 0, 0, 0] []"

text \<open>\<open>dup\<close> is the result of duplicating a descriptor, negative when it fails.\<close>

definition send_handle_fd :: "(fd \<Rightarrow> fd) \<Rightarrow> fd \<Rightarrow> u32 \<times> u32 \<Rightarrow> fd \<Rightarrow> 'a el_objects_scheme \<Rightarrow> 'a el_objects_scheme" where
  "send_handle_fd dup f key ufd ev =
     (let sent = fd_sent (side ev) - {key} in
      case client_at ev f of
        None \<Rightarrow> ev\<lparr>side := (side ev)\<lparr>fd_sent := sent\<rparr>\<rparr>
      | Some c \<Rightarrow>
        (if 0 \<le> dup ufd then update_client f (pending_fd_update (\<lambda>_. Some (dup ufd, snd key))) ev else ev)
          \<lparr>side := (side ev)\<lparr>fd_sent := insert key sent\<rparr>\<rparr>)"

definition handle_get_handle_fd ::
    "(fd \<Rightarrow> fd) \<Rightarrow> fd \<Rightarrow> u32 option \<Rightarrow> 'a el_objects_scheme \<Rightarrow> hreply \<times> 'a el_objects_scheme" where
  "handle_get_handle_fd dup f rq ev =
     (case rq of
        None \<Rightarrow> (header_reply 0xC000000D, ev)
      | Some h \<Rightarrow>
        if h \<in> pseudo_handles then (mismatch_reply, ev)
        else if 0xFFFFFFF0 \<le> h then (mismatch_reply, ev)
        else if h = 0 then (bad_handle_reply, ev)
        else case nonzero_pid ev f of
          None \<Rightarrow> (bad_handle_reply, ev)
        | Some pid \<Rightarrow>
          (case handle_at ev pid h of
             Some e \<Rightarrow>
               (case he_fd e of
                  Some ufd \<Rightarrow>
                    (HReply 0 [ucast (obj_type e), 1, ucast (access e), ucast (options e)] [],
                     send_handle_fd dup f (pid, h) ufd ev)
                | None \<Rightarrow> (mismatch_reply, ev))
           | None \<Rightarrow>
               if ntsync_objects ev (pid, h) \<noteq> None then (mismatch_reply, ev)
               else (bad_handle_reply, ev)))"

text \<open>\<^verbatim>\<open>open_directory\<close>, \<^verbatim>\<open>open_symlink\<close> and \<^verbatim>\<open>create_symlink\<close> hand out a waitable handle and look at
  no name.\<close>

definition plain_waitable :: "fd \<Rightarrow> fd \<Rightarrow> 'a el_objects_scheme \<Rightarrow> hreply \<times> 'a el_objects_scheme" where
  "plain_waitable f efd ev =
     (let (h, ev) = alloc_waitable_handle f efd ev in
      (if h = 0 then header_reply 0xC0000017 else HReply 0 [ucast h] [], ev))"

definition handle_open_directory :: "fd \<Rightarrow> fd \<Rightarrow> 'a el_objects_scheme \<Rightarrow> hreply \<times> 'a el_objects_scheme" where
  "handle_open_directory = plain_waitable"

definition handle_open_symlink :: "fd \<Rightarrow> fd \<Rightarrow> 'a el_objects_scheme \<Rightarrow> hreply \<times> 'a el_objects_scheme" where
  "handle_open_symlink = plain_waitable"

definition handle_create_symlink :: "fd \<Rightarrow> fd \<Rightarrow> 'a el_objects_scheme \<Rightarrow> hreply \<times> 'a el_objects_scheme" where
  "handle_create_symlink = plain_waitable"

definition handle_query_symlink :: hreply where
  "handle_query_symlink =
     (let target = utf16le_of (0x5C # lit ''BaseNamedObjects'')
      in HReply 0 [of_nat (length target)] target)"

text \<open>Duplication.  The fields are \<^verbatim>\<open>src_process\<close>, \<^verbatim>\<open>src_handle\<close>, \<^verbatim>\<open>dst_process\<close>, \<^verbatim>\<open>access\<close>,
  \<^verbatim>\<open>options\<close>; \<open>dup_obj\<close> answers the duplication of a kernel object, \<open>created\<close> its creation.\<close>

definition dup_process :: "u32 option \<Rightarrow> u32 \<Rightarrow> 'a el_objects_scheme \<Rightarrow> u32 option" where
  "dup_process caller h ev =
     (if h = 0xFFFFFFFF \<or> h = 0x7FFFFFFF then caller
      else case do { cp \<leftarrow> caller; handle_at ev cp h } of
        Some e \<Rightarrow> Some (ucast (object_id e))
      | None \<Rightarrow> caller)"

definition dup_source :: "fd \<Rightarrow> u32 option \<Rightarrow> u32 option \<Rightarrow> u32 \<Rightarrow> 'a el_objects_scheme \<Rightarrow> handle_entry option" where
  "dup_source f caller src h ev =
     (if h = 0xFFFFFFFE then
        Some \<lparr>object_id = (case client_at ev f of None \<Rightarrow> 0 | Some c \<Rightarrow> ucast (thread_id c)), he_fd = None,
              obj_type = 2, access = 0x1FFFFF, options = 0\<rparr>
      else if h = 0xFFFFFFFF \<or> h = 0x7FFFFFFF then
        Some \<lparr>object_id = (case caller of None \<Rightarrow> 0 | Some p \<Rightarrow> ucast p), he_fd = None,
              obj_type = 1, access = 0x1FFFFF, options = 0\<rparr>
      else if h = 0xFFFFFFFC then
        Some \<lparr>object_id = 0, he_fd = None, obj_type = 5, access = 0xF01FF, options = 0\<rparr>
      else do { p \<leftarrow> src; handle_at ev p h })"

definition dup_sync ::
    "(fd \<Rightarrow> fd option) \<Rightarrow> fd option \<Rightarrow> u32 option \<Rightarrow> u32 \<Rightarrow> u32 \<Rightarrow> u32 \<Rightarrow> 'a el_objects_scheme \<Rightarrow> 'a el_objects_scheme" where
  "dup_sync dup_obj created src src_handle dp h ev =
     (case do { sp \<leftarrow> src; (obj, ty) \<leftarrow> ntsync_objects ev (sp, src_handle); d \<leftarrow> dup_obj obj; Some (d, ty) } of
        Some (d, ty) \<Rightarrow> put_sync (dp, h) (d, ty) ev
      | None \<Rightarrow>
        (case get_or_create_event created ev of
           None \<Rightarrow> ev | Some obj \<Rightarrow> put_sync (dp, h) (obj, 1) ev))"

definition handle_dup_handle ::
    "(fd \<Rightarrow> fd) \<Rightarrow> (fd \<Rightarrow> fd option) \<Rightarrow> fd option \<Rightarrow> fd \<Rightarrow> (u32 \<times> u32 \<times> u32 \<times> u32 \<times> u32) option
      \<Rightarrow> 'a el_objects_scheme \<Rightarrow> hreply \<times> 'a el_objects_scheme" where
  "handle_dup_handle dup dup_obj created f rq ev =
     (case rq of
        None \<Rightarrow> (header_reply 0xC000000D, ev)
      | Some (src_process, src_handle, dst_process, acc, opts) \<Rightarrow>
        let caller = nonzero_pid ev f;
            src = dup_process caller src_process ev;
            dst = dup_process caller dst_process ev
        in case dup_source f caller src src_handle ev of
          None \<Rightarrow> (header_reply STATUS_INVALID_HANDLE, ev)
        | Some e \<Rightarrow>
          let e' = e\<lparr>he_fd := map_option dup (he_fd e), access := if opts AND 2 \<noteq> 0 then access e else acc\<rparr>
          in case do { dp \<leftarrow> dst; p \<leftarrow> processes (srv ev) dp; Some (dp, p) } of
            None \<Rightarrow> (HReply 0 [0] [], ev)
          | Some (dp, p) \<Rightarrow>
            let (h, t) = allocate_full (handles p) e';
                ev = set_handles dp p t ev
            in (HReply 0 [ucast h] [],
                if h \<noteq> 0 then dup_sync dup_obj created src src_handle dp h ev else ev))"

definition handle_get_object_info :: "fd \<Rightarrow> u32 option \<Rightarrow> 'a el_objects_scheme \<Rightarrow> hreply" where
  "handle_get_object_info f rq ev =
     (case rq of
        None \<Rightarrow> header_reply 0xC000000D
      | Some h \<Rightarrow>
        let acc = (case handle_at ev (client_pid ev f) h of None \<Rightarrow> 0x1F0FFF | Some e \<Rightarrow> access e)
        in HReply 0 [ucast acc, 1, 1] [])"

text \<open>\<open>read_link\<close> gives the path of a descriptor, \<open>None\<close> when the link cannot be read or is not UTF-8.\<close>

definition handle_get_object_name ::
    "(fd \<Rightarrow> ustr option) \<Rightarrow> fd \<Rightarrow> bytes \<Rightarrow> u32 option \<Rightarrow> 'a el_objects_scheme \<Rightarrow> hreply" where
  "handle_get_object_name read_link f buf rq ev =
     (case rq of
        None \<Rightarrow> HReply 0xC0000023 [0] []
      | Some h \<Rightarrow>
        case do { e \<leftarrow> handle_at ev (client_pid ev f) h; ufd \<leftarrow> he_fd e; read_link ufd } of
          None \<Rightarrow> HReply 0 [0] []
        | Some path \<Rightarrow>
          let name = utf16le_of ([0x5C, 0x3F, 0x3F, 0x5C] @ lit ''Z:'' @ map (\<lambda>c. if c = 0x2F then 0x5C else c) path);
              n = min (length name) (unat (max_reply_vararg buf))
          in HReply 0 [ucast (of_nat (length name) :: u32)] (take n name))"

definition handle_get_handle_unix_name ::
    "(fd \<Rightarrow> ustr option) \<Rightarrow> fd \<Rightarrow> bytes \<Rightarrow> u32 option \<Rightarrow> 'a el_objects_scheme \<Rightarrow> hreply" where
  "handle_get_handle_unix_name read_link f buf rq ev =
     (case rq of
        None \<Rightarrow> header_reply 0xC000000D
      | Some h \<Rightarrow>
        case do { e \<leftarrow> handle_at ev (client_pid ev f) h; ufd \<leftarrow> he_fd e; read_link ufd } of
          None \<Rightarrow> header_reply STATUS_INVALID_HANDLE
        | Some path \<Rightarrow>
          let name = as_bytes path; n = min (length name) (unat (max_reply_vararg buf))
          in HReply 0 [ucast (of_nat (length name) :: u32)] (take n name))"

text \<open>Request fields: \<^verbatim>\<open>first\<close>, \<^verbatim>\<open>second\<close>.\<close>

definition handle_compare_objects :: "fd \<Rightarrow> (u32 \<times> u32) option \<Rightarrow> 'a el_objects_scheme \<Rightarrow> hreply" where
  "handle_compare_objects f rq ev =
     (case rq of
        None \<Rightarrow> header_reply 0xC000000D
      | Some (a, b) \<Rightarrow>
        let pid = client_pid ev f in
        header_reply (case (handle_at ev pid a, handle_at ev pid b) of
            (Some x, Some y) \<Rightarrow> if object_id x = object_id y then 0 else 0xC0000460
          | _ \<Rightarrow> STATUS_INVALID_HANDLE))"

definition handle_get_object_type :: hreply where
  "handle_get_object_type = header_reply 0"

definition handle_allocate_locally_unique_id :: "'a el_objects_scheme \<Rightarrow> hreply \<times> 'a el_objects_scheme" where
  "handle_allocate_locally_unique_id ev =
     (let (oid, ev) = new_object_id ev in (HReply 0 [ucast (ucast oid :: u32)] [], ev))"

text \<open>The four generic rights, folded in the order of the source.\<close>

definition map_right :: "u32 \<Rightarrow> u32 \<Rightarrow> u32 \<Rightarrow> u32" where
  "map_right generic specific a = (if a AND generic \<noteq> 0 then (a AND NOT generic) OR specific else a)"

definition map_file_access :: "u32 \<Rightarrow> u32" where
  "map_file_access acc =
     map_right 0x10000000 0x001F01FF
      (map_right 0x20000000 0x001200A0
        (map_right 0x40000000 0x00120116
          (map_right 0x80000000 0x00120089 acc)))"

text \<open>The file type \<^verbatim>\<open>fstat\<close> reports, \<open>None\<close> when it fails.\<close>

datatype file_kind = S_IFDIR | S_IFREG | S_IFSOCK | S_IFCHR | S_IFIFO | S_OTHER

definition fd_type_of :: "file_kind option \<Rightarrow> u32" where
  "fd_type_of k = (case k of
      Some S_IFDIR \<Rightarrow> 2 | Some S_IFSOCK \<Rightarrow> 3 | Some S_IFCHR \<Rightarrow> 7 | _ \<Rightarrow> FD_TYPE_FILE)"

definition create_file_handle ::
    "file_kind option \<Rightarrow> fd option \<Rightarrow> fd \<Rightarrow> fd \<Rightarrow> u32 \<Rightarrow> u32 \<Rightarrow> 'a el_objects_scheme \<Rightarrow> hreply \<times> 'a el_objects_scheme" where
  "create_file_handle kind created f ufd acc opts ev =
     (let (oid, ev) = new_object_id ev;
          fail = (header_reply STATUS_INVALID_HANDLE, close_fds [ufd] ev)
      in case do { pid \<leftarrow> nonzero_pid ev f; p \<leftarrow> processes (srv ev) pid; Some (pid, p) } of
        None \<Rightarrow> fail
      | Some (pid, p) \<Rightarrow>
        let (h, t) = allocate_full (handles p) (with_fd oid ufd (fd_type_of kind) (map_file_access acc) opts);
            ev = set_handles pid p t ev
        in if h = 0 then (header_reply STATUS_INVALID_HANDLE, close_fds [ufd] ev)
           else (HReply 0 [ucast h] [],
                 if ntsync_objects ev (pid, h) = None
                 then case get_or_create_event created ev of
                        None \<Rightarrow> ev | Some obj \<Rightarrow> put_sync (pid, h) (obj, 1) ev
                 else ev))"

end
