(* ===== verification/HandleProps.thy ===== *)
theory HandleProps
  imports Completion Handles
begin

text \<open>
  Properties of the handle operations: the handle tables of all processes stay well formed, a file
  handle leads to its file until it is closed, and what a duplicate shares with its source.
\<close>

section \<open>The tables of all processes\<close>

definition tables_inv :: "'a el_objects_scheme \<Rightarrow> bool" where
  "tables_inv ev \<longleftrightarrow> (\<forall>pid p. processes (srv ev) pid = Some p \<longrightarrow> ht_inv (handles p))"

text \<open>No table has handed out more than \<^term>\<open>2 ^ 30 - 1 :: nat\<close> handles.\<close>

definition tables_room :: "'a el_objects_scheme \<Rightarrow> bool" where
  "tables_room ev \<longleftrightarrow> (\<forall>pid p. processes (srv ev) pid = Some p \<longrightarrow> unat (bump (ht_slab (handles p))) < 2 ^ 30)"

lemma tables_invD: "tables_inv ev \<Longrightarrow> processes (srv ev) pid = Some p \<Longrightarrow> ht_inv (handles p)"
  by (simp add: tables_inv_def)

lemma tables_roomD:
  "tables_room ev \<Longrightarrow> processes (srv ev) pid = Some p \<Longrightarrow> unat (bump (ht_slab (handles p))) < 2 ^ 30"
  by (simp add: tables_room_def)

named_theorems ev_simps \<open>what the small state updates leave alone\<close>

lemma srv_updates [simp, ev_simps]:
  "srv (close_fds fds ev) = srv ev" "srv (sync ops ev) = srv ev" "srv (signal key ev) = srv ev"
  "srv (put_sync key obj ev) = srv ev" "srv (remove_ntsync_obj pid h ev) = srv ev"
  "srv (insert_recyclable_event pid h o1 ty ev) = srv ev" "srv (update_client f g ev) = srv ev"
  "srv (send_handle_fd dup f key ufd ev) = srv ev"
  by (simp_all add: close_fds_def sync_def signal_def put_sync_def remove_ntsync_obj_def
      insert_recyclable_event_def update_client_def send_handle_fd_def Let_def split: option.split)

lemma clients_updates [simp, ev_simps]:
  "clients (close_fds fds ev) = clients ev" "clients (sync ops ev) = clients ev"
  "clients (put_sync key obj ev) = clients ev" "clients (remove_ntsync_obj pid h ev) = clients ev"
  "clients (insert_recyclable_event pid h o1 ty ev) = clients ev"
  "clients (set_handles pid p t ev) = clients ev" "clients (snd (new_object_id ev)) = clients ev"
  by (simp_all add: close_fds_def sync_def put_sync_def remove_ntsync_obj_def set_handles_def
      insert_recyclable_event_def new_object_id_def alloc_object_id_def Let_def)

lemma pid_updates [simp, ev_simps]:
  "nonzero_pid (close_fds fds ev) f = nonzero_pid ev f" "nonzero_pid (put_sync key obj ev) f = nonzero_pid ev f"
  "nonzero_pid (set_handles pid p t ev) f = nonzero_pid ev f"
  "nonzero_pid (snd (new_object_id ev)) f = nonzero_pid ev f"
  "client_pid (put_sync key obj ev) f = client_pid ev f"
  "client_pid (set_handles pid p t ev) f = client_pid ev f" "client_pid (close_fds fds ev) f = client_pid ev f"
  "client_pid (snd (new_object_id ev)) f = client_pid ev f"
  by (simp_all add: nonzero_pid_def client_pid_def)

lemma processes_new_object_id [simp, ev_simps]: "processes (srv (snd (new_object_id ev))) = processes (srv ev)"
  by (simp add: new_object_id_def alloc_object_id_def Let_def)

lemma processes_set_handles [simp, ev_simps]:
  "processes (srv (set_handles pid p t ev)) = (processes (srv ev))(pid \<mapsto> p\<lparr>handles := t\<rparr>)"
  by (simp add: set_handles_def)

lemma tables_inv_updates [simp, ev_simps]:
  "tables_inv (close_fds fds ev) = tables_inv ev" "tables_inv (put_sync key obj ev) = tables_inv ev"
  "tables_inv (remove_ntsync_obj pid h ev) = tables_inv ev" "tables_inv (snd (new_object_id ev)) = tables_inv ev"
  "tables_inv (ev\<lparr>side := t\<rparr>) = tables_inv ev" "tables_inv (ev\<lparr>ntsync_objects_created := n\<rparr>) = tables_inv ev"
  "tables_inv (send_handle_fd dup f key ufd ev) = tables_inv ev"
  by (simp_all add: tables_inv_def)

lemma tables_room_updates [simp, ev_simps]: "tables_room (snd (new_object_id ev)) = tables_room ev"
  by (simp add: tables_room_def)

lemma tables_inv_cong: "processes (srv ev') = processes (srv ev) \<Longrightarrow> tables_inv ev' = tables_inv ev"
  by (simp add: tables_inv_def)

lemma tables_inv_set_handles: "tables_inv ev \<Longrightarrow> ht_inv t \<Longrightarrow> tables_inv (set_handles pid p t ev)"
  by (simp add: tables_inv_def)

lemma allocate_full_tables:
  assumes "tables_inv ev" and "tables_room ev" and "processes (srv ev) pid = Some p"
  shows "tables_inv (set_handles pid p (snd (allocate_full (handles p) e)) ev)"
  using allocate_full_correct(1)[OF tables_invD[OF assms(1,3)] tables_roomD[OF assms(2,3)] prod.collapse[symmetric]]
    assms(1) by (rule tables_inv_set_handles[rotated])

lemma handle_at_set_handles [simp]:
  "handle_at (set_handles pid p t ev) q h = (if q = pid then ht_get t h else handle_at ev q h)"
  by (simp add: handle_at_def)

lemma handle_at_cong: "processes (srv ev') = processes (srv ev) \<Longrightarrow> handle_at ev' = handle_at ev"
  by (simp add: handle_at_def fun_eq_iff)

lemma nonzero_pid_client_pid: "nonzero_pid ev f = Some pid \<Longrightarrow> client_pid ev f = pid \<and> pid \<noteq> 0"
  by (auto simp: nonzero_pid_def client_pid_def split: option.splits if_splits)

text \<open>A handle just allocated is in its table and was in no entry before.\<close>

lemma allocate_full_gets:
  assumes "tables_inv ev" and "tables_room ev" and "processes (srv ev) pid = Some p"
    and "allocate_full (handles p) e = (h, t)"
  shows "h \<noteq> 0" and "ht_get t h = Some e" and "ht_get (handles p) h = None"
    and "drop_bit 2 h' \<noteq> drop_bit 2 h \<Longrightarrow> ht_get t h' = ht_get (handles p) h'"
  using allocate_full_correct[OF tables_invD[OF assms(1,3)] tables_roomD[OF assms(2,3)] assms(4)]
  by (simp_all add: ht_get_def)

subsection \<open>Every operation keeps the tables\<close>

lemma alloc_waitable_tables:
  "tables_inv ev \<Longrightarrow> tables_room ev \<Longrightarrow> tables_inv (snd (alloc_waitable_handle f efd ev))"
  unfolding alloc_waitable_handle_def Let_def case_prod_unfold
  using allocate_full_tables[of "snd (new_object_id ev)"]
  by (simp split: option.split)

lemma create_waitable_tables:
  "tables_inv ev \<Longrightarrow> tables_room ev \<Longrightarrow> tables_inv (snd (create_waitable f efd obj ev))"
  using alloc_waitable_tables[of ev f efd]
  by (simp add: create_waitable_def case_prod_unfold Let_def split: option.split)

lemma close_in_table_ok:
  assumes "tables_inv ev"
  shows "\<exists>ev'. close_in_table pid h ev = Some ev' \<and> tables_inv ev'"
proof (cases "processes (srv ev) pid")
  case None
  then show ?thesis using assms by (simp add: close_in_table_def)
next
  case (Some p)
  from ht_close_correct[OF tables_invD[OF assms Some], of h] obtain fds t where
    "ht_close (handles p) h = Some ((ht_get (handles p) h, fds), t)" "ht_inv t" by auto
  then show ?thesis using Some tables_inv_set_handles[OF assms]
    by (simp add: close_in_table_def)
qed

lemma unlink_handle_simps [simp, ev_simps]:
  "srv (unlink_handle pid h ev) = srv ev" "clients (unlink_handle pid h ev) = clients ev"
  "ntsync_objects (unlink_handle pid h ev) = ntsync_objects ev"
  by (simp_all add: unlink_handle_def Let_def case_prod_unfold split: option.split)
    (simp_all add: remove_ntsync_obj_def close_fds_def)

lemma unlink_handle_tables [simp, ev_simps]: "tables_inv (unlink_handle pid h ev) = tables_inv ev"
  by (simp add: tables_inv_def)

lemma close_handle_ok:
  assumes "tables_inv ev"
  shows "\<exists>ev'. handle_close_handle f rq ev = Some (header_reply 0, ev') \<and> tables_inv ev'"
  using assms close_in_table_ok[of "unlink_handle pid h ev" pid h for pid h]
  by (simp add: handle_close_handle_def split: option.split)

lemma set_handle_info_tables: "tables_inv ev \<Longrightarrow> tables_inv (snd (handle_set_handle_info f rq ev))"
  unfolding handle_set_handle_info_def Let_def
  by (auto split: option.split intro!: tables_inv_set_handles ht_get_mut_correct(2)[OF _ _ prod.collapse[symmetric]]
      dest: tables_invD)

lemma dup_sync_srv [simp, ev_simps]: "srv (dup_sync dup_obj created src sh dp h ev) = srv ev"
  by (simp add: dup_sync_def split: option.split)

lemma dup_sync_tables [simp, ev_simps]: "tables_inv (dup_sync dup_obj created src sh dp h ev) = tables_inv ev"
  by (simp add: tables_inv_def)

text \<open>The two ways a well-formed duplication request with a source can go.\<close>

lemma dup_handle_cases:
  assumes "dup_source f (nonzero_pid ev f) (dup_process (nonzero_pid ev f) sp ev) sh ev = Some e"
    and "e' = e\<lparr>he_fd := map_option dup (he_fd e), access := if opts AND 2 \<noteq> 0 then access e else acc\<rparr>"
  shows "do { q \<leftarrow> dup_process (nonzero_pid ev f) dp ev; processes (srv ev) q } = None \<Longrightarrow>
           handle_dup_handle dup dup_obj created f (Some (sp, sh, dp, acc, opts)) ev = (HReply 0 [0] [], ev)"
    and "dup_process (nonzero_pid ev f) dp ev = Some q \<Longrightarrow> processes (srv ev) q = Some p \<Longrightarrow>
           allocate_full (handles p) e' = (h, t) \<Longrightarrow>
           handle_dup_handle dup dup_obj created f (Some (sp, sh, dp, acc, opts)) ev =
             (HReply 0 [ucast h] [],
              if h \<noteq> 0 then dup_sync dup_obj created (dup_process (nonzero_pid ev f) sp ev) sh q h (set_handles q p t ev)
              else set_handles q p t ev)"
  using assms
  by (cases "dup_process (nonzero_pid ev f) dp ev"; simp add: handle_dup_handle_def Let_def)+

lemma dup_handle_tables:
  assumes "tables_inv ev" and "tables_room ev"
  shows "tables_inv (snd (handle_dup_handle dup dup_obj created f rq ev))"
proof (cases "\<exists>sp sh dp acc opts e. rq = Some (sp, sh, dp, acc, opts) \<and>
    dup_source f (nonzero_pid ev f) (dup_process (nonzero_pid ev f) sp ev) sh ev = Some e")
  case False
  then have "snd (handle_dup_handle dup dup_obj created f rq ev) = ev"
    by (cases rq) (auto simp: handle_dup_handle_def Let_def split: option.split)
  then show ?thesis using assms(1) by simp
next
  case True
  then obtain sp sh dp acc opts e where rq: "rq = Some (sp, sh, dp, acc, opts)"
    and e: "dup_source f (nonzero_pid ev f) (dup_process (nonzero_pid ev f) sp ev) sh ev = Some e" by blast
  define e' where e': "e' = e\<lparr>he_fd := map_option dup (he_fd e), access := if opts AND 2 \<noteq> 0 then access e else acc\<rparr>"
  show ?thesis
  proof (cases "\<exists>q p. dup_process (nonzero_pid ev f) dp ev = Some q \<and> processes (srv ev) q = Some p")
    case False
    then have "do { q \<leftarrow> dup_process (nonzero_pid ev f) dp ev; processes (srv ev) q } = None"
      by (cases "dup_process (nonzero_pid ev f) dp ev") auto
    from dup_handle_cases(1)[OF e e' this] show ?thesis using assms(1) by (simp add: rq)
  next
    case True
    then obtain q p where q: "dup_process (nonzero_pid ev f) dp ev = Some q" "processes (srv ev) q = Some p" by blast
    obtain h t where "allocate_full (handles p) e' = (h, t)" by (cases "allocate_full (handles p) e'")
    from dup_handle_cases(2)[OF e e' q this] allocate_full_tables[OF assms q(2), of e'] this show ?thesis
      by (simp add: rq)
  qed
qed

lemma create_file_tables:
  assumes "tables_inv ev" and "tables_room ev"
  shows "tables_inv (snd (create_file_handle kind created f ufd acc opts ev))"
  using allocate_full_tables[of "snd (new_object_id ev)"] assms
  by (simp add: create_file_handle_def Let_def case_prod_unfold bind_eq_Some_conv split: option.split)

lemma create_event_handle_tables:
  assumes "tables_inv ev" and "tables_room ev"
  shows "tables_inv (snd (create_event_handle f obj ev))"
  using allocate_full_tables[of "snd (new_object_id ev)"] assms
  by (simp add: create_event_handle_def Let_def case_prod_unfold split: option.split)

subsection \<open>Sequences of requests\<close>

inductive handle_step :: "'a el_objects_scheme \<Rightarrow> 'a el_objects_scheme \<Rightarrow> bool" where
  close: "handle_close_handle f rq ev = Some (r, ev') \<Longrightarrow> handle_step ev ev'"
| set_info: "handle_set_handle_info f rq ev = (r, ev') \<Longrightarrow> handle_step ev ev'"
| get_fd: "handle_get_handle_fd dup f rq ev = (r, ev') \<Longrightarrow> handle_step ev ev'"
| waitable: "create_waitable f efd obj ev = (r, ev') \<Longrightarrow> handle_step ev ev'"
| plain: "plain_waitable f efd ev = (r, ev') \<Longrightarrow> handle_step ev ev'"
| dup: "handle_dup_handle dup dup_obj obj f rq5 ev = (r, ev') \<Longrightarrow> handle_step ev ev'"
| new_file: "create_file_handle kind obj f ufd acc opts ev = (r, ev') \<Longrightarrow> handle_step ev ev'"
| event: "create_event_handle f obj ev = (r, ev') \<Longrightarrow> handle_step ev ev'"

lemma plain_waitable_tables: "tables_inv ev \<Longrightarrow> tables_room ev \<Longrightarrow> tables_inv (snd (plain_waitable f efd ev))"
  using alloc_waitable_tables[of ev f efd] by (simp add: plain_waitable_def case_prod_unfold Let_def)

lemma get_fd_tables: "tables_inv (snd (handle_get_handle_fd dup f rq ev)) = tables_inv ev"
  by (simp add: handle_get_handle_fd_def split: option.split)

lemma handle_step_tables: "handle_step ev ev' \<Longrightarrow> tables_inv ev \<Longrightarrow> tables_room ev \<Longrightarrow> tables_inv ev'"
proof (induction rule: handle_step.induct)
  case (close f rq ev r ev')
  then show ?case using close_handle_ok[of ev f rq] by auto
qed (metis set_handle_info_tables get_fd_tables create_waitable_tables plain_waitable_tables dup_handle_tables
    create_file_tables create_event_handle_tables snd_conv)+

section \<open>Properties of the handle operations\<close>

lemma one_client_tables: "tables_inv one_client" "tables_room one_client"
  by (simp_all add: tables_inv_def tables_room_def process_new_def handle_table_new_inv handle_table_new_bump)

lemma one_client_ids:
  "nonzero_pid one_client 5 = Some 32" "client_thread_id one_client 5 = Some 36" "client_pid one_client 5 = 32"
  by (simp_all add: nonzero_pid_def client_thread_id_def client_pid_def)

text \<open>
  C7. However the processes open, duplicate, describe and close handles, every handle table stays well
  formed: its slots and its counts of descriptors agree, and closing a handle, whatever its value,
  never panics.
\<close>

theorem handle_tables_wellformed:
  assumes "tables_inv ev" and "(\<lambda>a b. handle_step a b \<and> tables_room a)\<^sup>*\<^sup>* ev ev'"
  shows "tables_inv ev' \<and> (\<forall>f rq. \<exists>ev''. handle_close_handle f rq ev' = Some (header_reply 0, ev''))"
proof -
  from assms(2) have "tables_inv ev'"
    using assms(1) by (induction rule: rtranclp_induct) (auto dest: handle_step_tables)
  then show ?thesis using close_handle_ok by blast
qed

theorem handle_tables_wellformed_witness:
  "tables_inv one_client \<and>
   tables_inv (snd (create_file_handle (Some S_IFREG) None 5 9 0x80000000 0 one_client))"
proof -
  obtain r ev' where c: "create_file_handle (Some S_IFREG) None 5 9 0x80000000 0 one_client = (r, ev')"
    by (cases "create_file_handle (Some S_IFREG) None 5 9 0x80000000 0 one_client")
  then have "(\<lambda>a b. handle_step a b \<and> tables_room a)\<^sup>*\<^sup>* one_client ev'"
    using handle_step.new_file[OF c] one_client_tables(2) by auto
  from handle_tables_wellformed[OF one_client_tables(1) this] c show ?thesis
    using one_client_tables(1) by simp
qed

text \<open>The state after a file has been opened.\<close>

definition opened :: "file_kind option \<Rightarrow> fd option \<Rightarrow> u32 \<Rightarrow> fd \<Rightarrow> u32 \<Rightarrow> u32 \<Rightarrow> 'a el_objects_scheme \<Rightarrow> process \<Rightarrow> u32 \<times> 'a el_objects_scheme" where
  "opened kind created pid ufd acc opts ev p =
     (let (oid, ev) = new_object_id ev;
          (h, t) = allocate_full (handles p) (with_fd oid ufd (fd_type_of kind) (map_file_access acc) opts);
          ev = set_handles pid p t ev
      in (h, if ntsync_objects ev (pid, h) = None
             then case get_or_create_event created ev of None \<Rightarrow> ev | Some obj \<Rightarrow> put_sync (pid, h) (obj, 1) ev
             else ev))"

lemma opened_facts:
  assumes "tables_inv ev" and "processes (srv ev) pid = Some p" and "unat (bump (ht_slab (handles p))) < 2 ^ 29"
    and "opened kind created pid ufd acc opts ev p = (h, ev1)"
  obtains oid t where "h \<noteq> 0" and "unat h < 2 ^ 31" and "h AND 3 = 0"
    and "processes (srv ev1) = (processes (srv ev))(pid \<mapsto> p\<lparr>handles := t\<rparr>)"
    and "ht_get t h = Some (with_fd oid ufd (fd_type_of kind) (map_file_access acc) opts)"
    and "ht_inv t" and "live_fds t = insert ufd (live_fds (handles p))"
    and "get_unchecked (ht_slab t) = (get_unchecked (ht_slab (handles p)))
           (drop_bit 2 h \<mapsto> with_fd oid ufd (fd_type_of kind) (map_file_access acc) opts)"
    and "get_unchecked (ht_slab (handles p)) (drop_bit 2 h) = None"
    and "clients ev1 = clients ev" and "srv_threads (srv ev1) = srv_threads (srv ev)"
    and "bump (ht_slab t) = bump (ht_slab (handles p)) + 1"
proof -
  define oid where "oid = fst (new_object_id ev)"
  define e where "e = with_fd oid ufd (fd_type_of kind) (map_file_access acc) opts"
  define t where "t = snd (allocate_full (handles p) e)"
  have room: "unat (bump (ht_slab (handles p))) < 2 ^ 30" using assms(3) by simp
  have al: "allocate_full (handles p) e = (h, t)" and ev1: "processes (srv ev1) = (processes (srv ev))(pid \<mapsto> p\<lparr>handles := t\<rparr>)"
      "clients ev1 = clients ev" "srv_threads (srv ev1) = srv_threads (srv ev)"
    using assms(4) unfolding opened_def Let_def case_prod_unfold
    by (auto simp: t_def e_def oid_def prod_eq_iff set_handles_def new_object_id_def alloc_object_id_def Let_def split: option.split)
  note a = allocate_full_correct[OF tables_invD[OF assms(1,2)] room al]
  have "unat h div 4 < 2 ^ 29" using assms(3) a(4) by (simp flip: unat_drop2)
  then have "unat h < 2 ^ 31" by simp
  then show ?thesis using that[of t oid] a ev1 by (auto simp: e_def ht_get_def with_fd_def)
qed

lemma create_file_handle_opened:
  assumes "nonzero_pid ev f = Some pid" and "processes (srv ev) pid = Some p"
    and "opened kind created pid ufd acc opts ev p = (h, ev1)" and "h \<noteq> 0"
  shows "create_file_handle kind created f ufd acc opts ev = (HReply 0 [ucast h] [], ev1)"
proof -
  obtain oid ev0 where n: "new_object_id ev = (oid, ev0)" by (cases "new_object_id ev")
  then have "nonzero_pid ev0 f = Some pid" "processes (srv ev0) pid = Some p"
    using assms(1,2) pid_updates(4)[of ev f] processes_new_object_id[of ev] by simp_all
  moreover obtain h' t where "allocate_full (handles p) (with_fd oid ufd (fd_type_of kind) (map_file_access acc) opts) = (h', t)"
    by (cases "allocate_full (handles p) (with_fd oid ufd (fd_type_of kind) (map_file_access acc) opts)")
  ultimately show ?thesis using assms(3,4) n by (auto simp: create_file_handle_def opened_def Let_def)
qed

lemma low_handle_not_pseudo: "unat h < 2 ^ 31 \<Longrightarrow> h AND 3 = 0 \<Longrightarrow> h \<notin> pseudo_handles \<and> \<not> 0xFFFFFFF0 \<le> h"
proof -
  assume a: "unat h < 2 ^ 31" and b: "h AND 3 = 0"
  have "h \<noteq> 0x7FFFFFFF" using b by auto
  then show ?thesis using a by (auto simp: pseudo_handles_def word_le_nat_alt)
qed

lemma get_handle_fd_known:
  assumes "h \<notin> pseudo_handles" and "\<not> 0xFFFFFFF0 \<le> h" and "h \<noteq> 0" and "nonzero_pid ev f = Some pid"
  shows "handle_at ev pid h = Some e \<Longrightarrow> he_fd e = Some ufd \<Longrightarrow>
      handle_get_handle_fd dup f (Some h) ev =
        (HReply 0 [ucast (obj_type e), 1, ucast (access e), ucast (options e)] [], send_handle_fd dup f (pid, h) ufd ev)"
    and "handle_at ev pid h = None \<Longrightarrow> fst (handle_get_handle_fd dup f (Some h) ev) =
        (if ntsync_objects ev (pid, h) \<noteq> None then mismatch_reply else bad_handle_reply)"
  using assms by (simp_all add: handle_get_handle_fd_def)

lemma send_handle_fd_pending:
  assumes "client_at ev f = Some c" and "0 \<le> dup ufd"
  shows "client_at (send_handle_fd dup f key ufd ev) f = Some (c\<lparr>pending_fd := Some (dup ufd, snd key)\<rparr>)"
  using assms by (simp add: send_handle_fd_def update_client_def put_client_at)

lemma close_handle_removes:
  assumes "tables_inv ev" and "client_thread_id ev f = Some tid" and "srv_threads (srv ev) tid = Some th"
    and "thr_pid th = pid" and "processes (srv ev) pid = Some p"
  obtains fds t ev' where "ht_close (handles p) h = Some ((ht_get (handles p) h, fds), t)"
    and "handle_close_handle f (Some h) ev = Some (header_reply 0, ev')"
    and "processes (srv ev') = (processes (srv ev))(pid \<mapsto> p\<lparr>handles := t\<rparr>)"
    and "get_unchecked (ht_slab t) = (get_unchecked (ht_slab (handles p)))(drop_bit 2 h := None)"
    and "set fds = live_fds (handles p) - live_fds t" and "set fds \<subseteq> set (authority.closed ev')"
    and "ntsync_objects ev' = ntsync_objects ev" and "clients ev' = clients ev"
proof -
  from ht_close_correct[OF tables_invD[OF assms(1,5)], of h] obtain fds t where
    c: "ht_close (handles p) h = Some ((ht_get (handles p) h, fds), t)"
      "get_unchecked (ht_slab t) = (get_unchecked (ht_slab (handles p)))(drop_bit 2 h := None)"
      "set fds = live_fds (handles p) - live_fds t" by auto
  let ?ev = "close_fds fds (set_handles pid p t (unlink_handle pid h ev))"
  have "handle_close_handle f (Some h) ev = Some (header_reply 0, ?ev)"
    using assms(2-5) c(1) by (simp add: handle_close_handle_def close_in_table_def)
  moreover have "processes (srv ?ev) = (processes (srv ev))(pid \<mapsto> p\<lparr>handles := t\<rparr>)" by simp
  moreover have "set fds \<subseteq> set (authority.closed ?ev)" by (simp add: close_fds_def)
  moreover have "ntsync_objects ?ev = ntsync_objects ev"
    by (simp add: close_fds_def set_handles_def)
  moreover have "clients ?ev = clients ev" by simp
  ultimately show ?thesis using that[OF c(1), of ?ev] c(2,3) by simp
qed

text \<open>
  C16. A file given to a process leads back to the file: the new handle is a valid one, asking for its
  descriptor answers with the file's type, its access mapped to file rights and its options, and
  leaves a duplicate of the descriptor to be sent.  Closing the handle succeeds, takes it out of the
  table, and closes the descriptor unless another handle of the process refers to it.  Asking again
  finds no handle; the answer is a type mismatch if a synchronisation object is still registered.
\<close>

theorem file_handle_roundtrip:
  assumes "tables_inv ev" and "nonzero_pid ev f = Some pid" and "processes (srv ev) pid = Some p"
    and "unat (bump (ht_slab (handles p))) < 2 ^ 29"
    and "client_thread_id ev f = Some tid" and "srv_threads (srv ev) tid = Some th" and "thr_pid th = pid"
    and "0 \<le> dup ufd"
  shows "\<exists>h ev1 ev2 ev3. create_file_handle kind created f ufd acc opts ev = (HReply 0 [ucast h] [], ev1) \<and> h \<noteq> 0 \<and>
    handle_get_handle_fd dup f (Some h) ev1 =
      (HReply 0 [ucast (fd_type_of kind), 1, ucast (map_file_access acc), ucast opts] [], ev2) \<and>
    map_option pending_fd (client_at ev2 f) = Some (Some (dup ufd, h)) \<and>
    handle_close_handle f (Some h) ev2 = Some (header_reply 0, ev3) \<and> handle_at ev3 pid h = None \<and>
    (ufd \<in> live_fds (handles p) \<or> ufd \<in> set (authority.closed ev3)) \<and>
    fst (handle_get_handle_fd dup f (Some h) ev3) =
      (if ntsync_objects ev1 (pid, h) \<noteq> None then mismatch_reply else bad_handle_reply)"
proof -
  obtain h ev1 where o: "opened kind created pid ufd acc opts ev p = (h, ev1)" by (cases "opened kind created pid ufd acc opts ev p")
  obtain oid t where t: "h \<noteq> 0" "unat h < 2 ^ 31" "h AND 3 = 0"
    "processes (srv ev1) = (processes (srv ev))(pid \<mapsto> p\<lparr>handles := t\<rparr>)"
    "ht_get t h = Some (with_fd oid ufd (fd_type_of kind) (map_file_access acc) opts)" "ht_inv t"
    "live_fds t = insert ufd (live_fds (handles p))"
    "get_unchecked (ht_slab t) = (get_unchecked (ht_slab (handles p)))
       (drop_bit 2 h \<mapsto> with_fd oid ufd (fd_type_of kind) (map_file_access acc) opts)"
    "get_unchecked (ht_slab (handles p)) (drop_bit 2 h) = None"
    "clients ev1 = clients ev" "srv_threads (srv ev1) = srv_threads (srv ev)"
    by (rule opened_facts[OF assms(1,3,4) o]) (rule that)
  note np = low_handle_not_pseudo[OF t(2,3)]
  note np = conjunct1[OF np] conjunct2[OF np]
  have pid1: "nonzero_pid ev1 f = Some pid" "client_thread_id ev1 f = Some tid"
    using assms(2,5) t(10) by (simp_all add: nonzero_pid_def client_thread_id_def)
  define ev2 where "ev2 = send_handle_fd dup f (pid, h) ufd ev1"
  have at1: "handle_at ev1 pid h = Some (with_fd oid ufd (fd_type_of kind) (map_file_access acc) opts)"
    using t(4,5) by (simp add: handle_at_def)
  have get: "handle_get_handle_fd dup f (Some h) ev1 =
      (HReply 0 [ucast (fd_type_of kind), 1, ucast (map_file_access acc), ucast opts] [], ev2)"
    using get_handle_fd_known(1)[OF np t(1) pid1(1) at1, of ufd dup] by (simp add: with_fd_def ev2_def)
  obtain c where c: "client_at ev1 f = Some c" using pid1(1) by (auto simp: nonzero_pid_def split: option.splits)
  have c2: "client_at ev2 f = Some (c\<lparr>pending_fd := Some (dup ufd, h)\<rparr>)"
    using send_handle_fd_pending[where dup = dup and ufd = ufd and key = "(pid, h)", OF c assms(8)] by (simp add: ev2_def)
  have pid2: "nonzero_pid ev2 f = Some pid" "client_thread_id ev2 f = Some tid"
    using pid1 c c2 by (auto simp: nonzero_pid_def client_thread_id_def split: if_splits)
  have srv2: "srv ev2 = srv ev1" by (simp add: ev2_def)
  have inv2: "tables_inv ev2" using assms(1) t(4,6) by (simp add: tables_inv_def srv2)
  define q where "q = p\<lparr>handles := t\<rparr>"
  have q: "handles q = t" and p2: "processes (srv ev2) pid = Some q" by (simp_all add: srv2 t(4) q_def)
  have th2: "srv_threads (srv ev2) tid = Some th" using assms(6) t(11) srv2 by simp
  obtain fds t' ev3 where cl: "handle_close_handle f (Some h) ev2 = Some (header_reply 0, ev3)"
    "processes (srv ev3) = (processes (srv ev2))(pid \<mapsto> q\<lparr>handles := t'\<rparr>)"
    "get_unchecked (ht_slab t') = (get_unchecked (ht_slab (handles q)))(drop_bit 2 h := None)"
    "set fds = live_fds (handles q) - live_fds t'" "set fds \<subseteq> set (authority.closed ev3)"
    "ntsync_objects ev3 = ntsync_objects ev2" "clients ev3 = clients ev2"
    by (rule close_handle_removes[OF inv2 pid2(2) th2 assms(7) p2, of h]) (rule that)
  note cl = cl[unfolded q]
  have gone: "handle_at ev3 pid h = None" using cl(2,3) by (simp add: handle_at_def ht_get_def)
  have "get_unchecked (ht_slab t') = get_unchecked (ht_slab (handles p))" using cl(3) t(8,9) by (simp add: fun_upd_idem)
  then have "live_fds t' = live_fds (handles p)" by (simp add: live_fds_def)
  then have "ufd \<in> live_fds (handles p) \<or> ufd \<in> set (authority.closed ev3)" using cl(4,5) t(7) by auto
  moreover have "ntsync_objects ev3 = ntsync_objects ev1"
    using cl(6) by (simp add: ev2_def send_handle_fd_def update_client_def Let_def split: option.split)
  moreover have "nonzero_pid ev3 f = Some pid" using pid2(1) cl(7) by (simp add: nonzero_pid_def)
  ultimately show ?thesis
    using create_file_handle_opened[OF assms(2,3) o t(1)] t(1) get c2 cl(1) gone
      get_handle_fd_known(2)[OF np t(1) _ gone] by (intro exI[of _ h] exI[of _ ev1] exI[of _ ev2] exI[of _ ev3]) simp
qed

theorem file_handle_roundtrip_witness:
  "\<exists>h ev1 ev2 ev3. create_file_handle (Some S_IFDIR) (Some 20) 5 9 0x80000000 1 one_client = (HReply 0 [ucast h] [], ev1) \<and>
     handle_get_handle_fd (\<lambda>_. 11) 5 (Some h) ev1 = (HReply 0 [2, 1, 0x120089, 1] [], ev2) \<and>
     handle_close_handle 5 (Some h) ev2 = Some (header_reply 0, ev3) \<and> 9 \<in> set (authority.closed ev3)"
proof -
  have "9 \<notin> live_fds (handles ((process_new 32)\<lparr>threads := [36]\<rparr>))"
    by (simp add: live_fds_iff process_new_def handle_table_new_get)
  moreover have "map_file_access 0x80000000 = 0x120089" by code_simp
  ultimately show ?thesis
    using file_handle_roundtrip[OF one_client_tables(1) one_client_ids(1), where p = "(process_new 32)\<lparr>threads := [36]\<rparr>"
        and tid = 36 and th = "thread_new 32" and dup = "\<lambda>_. 11" and ufd = 9 and kind = "Some S_IFDIR" and
        created = "Some 20" and acc = "0x80000000" and opts = 1]
    by (auto simp: one_client_ids thread_new_def process_new_def handle_table_new_bump fd_type_of_def)
qed

text \<open>A file opened on descriptor 9 by the one client.\<close>

lemma one_file:
  obtains h ev1 e where "create_file_handle (Some S_IFREG) None 5 9 0 0 one_client = (HReply 0 [ucast h] [], ev1)"
    and "h \<noteq> 0" and "h \<notin> pseudo_handles" and "h < 0xFFFFFFF0" and "handle_at ev1 32 h = Some e" and "he_fd e = Some 9"
    and "nonzero_pid ev1 5 = Some 32" and "tables_inv ev1" and "tables_room ev1" and "\<exists>p. processes (srv ev1) 32 = Some p"
proof -
  let ?p = "(process_new 32)\<lparr>threads := [36]\<rparr>"
  obtain h ev1 where o: "opened (Some S_IFREG) None 32 9 0 0 one_client ?p = (h, ev1)"
    by (cases "opened (Some S_IFREG) None 32 9 0 0 one_client ?p")
  have p: "processes (srv one_client) 32 = Some ?p" and b: "bump (ht_slab (handles ?p)) = 1"
    and room: "unat (bump (ht_slab (handles ?p))) < 2 ^ 29"
    by (simp_all add: process_new_def handle_table_new_bump)
  obtain oid t where t: "h \<noteq> 0" "unat h < 2 ^ 31" "h AND 3 = 0"
    "processes (srv ev1) = (processes (srv one_client))(32 \<mapsto> ?p\<lparr>handles := t\<rparr>)"
    "ht_get t h = Some (with_fd oid 9 (fd_type_of (Some S_IFREG)) (map_file_access 0) 0)" "clients ev1 = clients one_client"
    "bump (ht_slab t) = bump (ht_slab (handles ?p)) + 1"
    by (rule opened_facts[OF one_client_tables(1) p room o]) (rule that)
  note c = create_file_handle_opened[OF one_client_ids(1) p o t(1)]
  have "nonzero_pid ev1 5 = Some 32" using t(6) one_client_ids(1) by (simp add: nonzero_pid_def)
  moreover have "tables_inv ev1" using create_file_tables[OF one_client_tables, of "Some S_IFREG" None 5 9 0 0] c by simp
  moreover have "tables_room ev1" using t(4,7) b by (simp add: tables_room_def)
  moreover have "handle_at ev1 32 h = Some (with_fd oid 9 (fd_type_of (Some S_IFREG)) (map_file_access 0) 0)"
    using t(4,5) by (simp add: handle_at_def)
  moreover have "\<exists>p. processes (srv ev1) 32 = Some p" using t(4) by simp
  ultimately show ?thesis using that[OF c t(1)] low_handle_not_pseudo[OF t(2,3)] by (simp add: with_fd_def not_le)
qed

text \<open>
  When a handle has a descriptor but duplicating it fails, the request is still answered with
  success and nothing is left to be sent: the client goes on to wait for a descriptor that never
  comes.
\<close>

theorem success_without_descriptor:
  assumes "h \<notin> pseudo_handles" and "h < 0xFFFFFFF0" and "h \<noteq> 0" and "nonzero_pid ev f = Some pid"
    and "handle_at ev pid h = Some e" and "he_fd e = Some ufd" and "dup ufd < 0"
  shows "\<exists>fields ev'. handle_get_handle_fd dup f (Some h) ev = (HReply 0 fields [], ev') \<and> clients ev' = clients ev"
proof -
  have "clients (send_handle_fd dup f (pid, h) ufd ev) = clients ev"
    using assms(7) by (simp add: send_handle_fd_def Let_def split: option.split)
  then show ?thesis
    using get_handle_fd_known(1)[OF assms(1) _ assms(3,4,5,6), of dup] assms(2) by (simp add: not_le)
qed

theorem success_without_descriptor_witness:
  "\<exists>h fields ev1 ev2. create_file_handle (Some S_IFREG) None 5 9 0 0 one_client = (HReply 0 [ucast h] [], ev1) \<and>
     handle_get_handle_fd (\<lambda>_. -1) 5 (Some h) ev1 = (HReply 0 fields [], ev2) \<and> clients ev2 = clients ev1"
proof -
  obtain h ev1 e where o: "create_file_handle (Some S_IFREG) None 5 9 0 0 one_client = (HReply 0 [ucast h] [], ev1)"
    "h \<noteq> 0" "h \<notin> pseudo_handles" "h < 0xFFFFFFF0" "handle_at ev1 32 h = Some e" "he_fd e = Some 9"
    "nonzero_pid ev1 5 = Some 32" by (rule one_file) (rule that)
  from success_without_descriptor[OF o(3,4,2,7,5,6), of "\<lambda>_. -1"] o(1) show ?thesis by auto
qed

text \<open>
  A debug object or device manager puts the descriptor of its kernel event in the handle table and
  in the table of synchronisation objects, two owners of one descriptor.  Closing the handle closes
  it, and the synchronisation table goes on naming the closed descriptor.
\<close>

theorem debug_object_descriptor_shared:
  assumes "tables_inv ev" and "tables_room ev" and "nonzero_pid ev f = Some pid" and "processes (srv ev) pid = Some p"
    and "client_thread_id ev f = Some tid" and "srv_threads (srv ev) tid = Some th" and "thr_pid th = pid"
    and "has_ntsync ev" and "evt \<notin> live_fds (handles p)"
  shows "\<exists>h ev1 ev2. handle_create_debug_obj f (Some evt) ev = (HReply 0 [ucast h] [], ev1) \<and>
    map_option he_fd (handle_at ev1 pid h) = Some (Some evt) \<and>
    handle_close_handle f (Some h) ev1 = Some (header_reply 0, ev2) \<and>
    evt \<in> set (authority.closed ev2) \<and> ntsync_objects ev2 (pid, h) = Some (evt, 1)"
proof -
  obtain oid ev0 where n: "new_object_id ev = (oid, ev0)" by (cases "new_object_id ev")
  then have ev0: "processes (srv ev0) = processes (srv ev)" "clients ev0 = clients ev" "srv_threads (srv ev0) = srv_threads (srv ev)"
    using processes_new_object_id[of ev] clients_updates(7)[of ev]
    by (auto simp: new_object_id_def alloc_object_id_def Let_def)
  define e where "e = with_fd oid evt FD_TYPE_FILE 0x001F000F 0x20"
  obtain h t where al: "allocate_full (handles p) e = (h, t)" by (cases "allocate_full (handles p) e")
  note a = allocate_full_correct[OF tables_invD[OF assms(1,4)] tables_roomD[OF assms(2,4)] al]
  define ev1 where "ev1 = (put_sync (pid, h) (evt, 1) (set_handles pid p t ev0))\<lparr>ntsync_objects_created :=
      ntsync_objects_created (set_handles pid p t ev0) + 1\<rparr>"
  have run: "handle_create_debug_obj f (Some evt) ev = (HReply 0 [ucast h] [], ev1)"
    using n ev0(1) nonzero_pid_client_pid[OF assms(3)] assms(4,8) al a(2)
    by (simp add: handle_create_debug_obj_def create_event_handle_def get_or_create_event_def e_def ev1_def Let_def)
  define q where "q = p\<lparr>handles := t\<rparr>"
  have ev1: "processes (srv ev1) = (processes (srv ev))(pid \<mapsto> q)" "clients ev1 = clients ev"
    "srv_threads (srv ev1) = srv_threads (srv ev)" "ntsync_objects ev1 (pid, h) = Some (evt, 1)"
    using ev0 by (simp_all add: ev1_def put_sync_def set_handles_def q_def)
  have inv1: "tables_inv ev1" using assms(1) a(1) by (simp add: tables_inv_def ev1(1) q_def)
  have th1: "client_thread_id ev1 f = Some tid" "srv_threads (srv ev1) tid = Some th" "processes (srv ev1) pid = Some q"
    using assms(5,6) ev1 by (simp_all add: client_thread_id_def)
  obtain fds t' ev2 where cl: "handle_close_handle f (Some h) ev1 = Some (header_reply 0, ev2)"
    "get_unchecked (ht_slab t') = (get_unchecked (ht_slab (handles q)))(drop_bit 2 h := None)"
    "set fds = live_fds (handles q) - live_fds t'" "set fds \<subseteq> set (authority.closed ev2)"
    "ntsync_objects ev2 = ntsync_objects ev1"
    by (rule close_handle_removes[OF inv1 th1(1,2) assms(7) th1(3), of h]) (rule that)
  have "get_unchecked (ht_slab t') = get_unchecked (ht_slab (handles p))"
    using cl(2) a(5,6) by (simp add: q_def ht_get_def fun_upd_idem)
  then have "live_fds t' = live_fds (handles p)" by (simp add: live_fds_def)
  then have "evt \<in> set (authority.closed ev2)" using cl(3,4) a(7) assms(9) by (auto simp: q_def e_def with_fd_def)
  moreover have "map_option he_fd (handle_at ev1 pid h) = Some (Some evt)"
    using a(5) by (simp add: handle_at_def ev1(1) q_def ht_get_def e_def with_fd_def)
  ultimately show ?thesis using run cl(1,5) ev1(4) by auto
qed

theorem debug_object_descriptor_shared_witness:
  "\<exists>h ev1 ev2. handle_create_debug_obj 5 (Some 12) one_client = (HReply 0 [ucast h] [], ev1) \<and>
    handle_close_handle 5 (Some h) ev1 = Some (header_reply 0, ev2) \<and>
    12 \<in> set (authority.closed ev2) \<and> ntsync_objects ev2 (32, h) = Some (12, 1)"
  using debug_object_descriptor_shared[OF one_client_tables one_client_ids(1), where p = "(process_new 32)\<lparr>threads := [36]\<rparr>"
      and tid = 36 and th = "thread_new 32" and evt = 12]
  by (auto simp: one_client_ids thread_new_def live_fds_iff process_new_def handle_table_new_get)



end
