(* ===== verification/RegHandlers.thy ===== *)
theory RegHandlers
  imports EventLoop "HOL-Library.Multiset"
begin

text \<open>
  \<^verbatim>\<open>triskelion/event_loop/registry_handlers.rs\<close>: the registry requests, the change notifications and
  the atom table.  A handler takes the fields of its request and, where it reads the variable
  part or the reply limit, the bytes of the request; \<open>None\<close> as a result is a panic.  \<open>lc\<close> is the
  lower-casing of strings.
\<close>

section \<open>Registry requests\<close>

text \<open>\<^verbatim>\<open>&buf[VARARG_OFF..]\<close>, which panics on a shorter buffer.\<close>

definition vararg_of :: "bytes \<Rightarrow> bytes option" where
  "vararg_of buf = (if VARARG_OFF \<le> length buf then Some (drop VARARG_OFF buf) else None)"

definition invalid_parameter :: hreply where
  "invalid_parameter = header_reply 0xC000000D"

text \<open>Signals the events of the notifications a change fires.\<close>

definition fire_registry_notifications :: "u32 \<Rightarrow> u32 \<Rightarrow> 'a el_objects_scheme \<Rightarrow> 'a el_objects_scheme" where
  "fire_registry_notifications hkey change ev =
     (let (fired, r) = collect_notifications (reg ev) hkey change in
      fold signal fired (ev\<lparr>reg := r\<rparr>))"

definition handle_create_key ::
    "lower_fun \<Rightarrow> unit option \<Rightarrow> bytes \<Rightarrow> 'a el_objects_scheme \<Rightarrow> (hreply \<times> 'a el_objects_scheme) option" where
  "handle_create_key lc rq buf ev =
     (case rq of
        None \<Rightarrow> Some (invalid_parameter, ev)
      | Some _ \<Rightarrow> do {
          va \<leftarrow> vararg_of buf;
          let (rootdir, name) = parse_objattr_name va;
          ((hkey, created), r) \<leftarrow> create_key lc (reg ev) rootdir name;
          let ev = ev\<lparr>reg := r\<rparr>;
          let ev = (if created \<and> rootdir \<noteq> 0 then fire_registry_notifications rootdir 0x01 ev else ev);
          Some (HReply (if created then 0 else 0x40000000) [ucast hkey] [], ev) })"

text \<open>The request field is \<^verbatim>\<open>parent\<close>.\<close>

definition handle_open_key ::
    "lower_fun \<Rightarrow> u32 option \<Rightarrow> bytes \<Rightarrow> 'a el_objects_scheme \<Rightarrow> (hreply \<times> 'a el_objects_scheme) option" where
  "handle_open_key lc rq buf ev =
     (case rq of
        None \<Rightarrow> Some (invalid_parameter, ev)
      | Some parent \<Rightarrow> do {
          va \<leftarrow> vararg_of buf;
          (found, r) \<leftarrow> open_key lc (reg ev) parent va;
          Some (case found of
              Some hkey \<Rightarrow> (HReply 0 [ucast hkey] [], ev\<lparr>reg := r\<rparr>)
            | None \<Rightarrow> (header_reply 0xC0000034, ev\<lparr>reg := r\<rparr>)) })"

text \<open>The request field is \<^verbatim>\<open>hkey\<close>; the reply fields are the type and the total length.\<close>

definition handle_get_key_value ::
    "lower_fun \<Rightarrow> u32 option \<Rightarrow> bytes \<Rightarrow> 'a el_objects_scheme \<Rightarrow> hreply option" where
  "handle_get_key_value lc rq buf ev =
     (case rq of
        None \<Rightarrow> Some invalid_parameter
      | Some hkey \<Rightarrow> do {
          va \<leftarrow> vararg_of buf;
          v \<leftarrow> get_value lc (reg ev) hkey va;
          Some (case v of
              Some (ty, d) \<Rightarrow>
                HReply 0 [ucast ty, ucast (of_nat (length d) :: u32)]
                  (take (min (length d) (unat (max_reply_vararg buf))) d)
            | None \<Rightarrow> HReply 0xC0000034 [ucast (- 1 :: u32), 0] []) })"

text \<open>The request fields are \<^verbatim>\<open>hkey\<close>, \<^verbatim>\<open>type\<close> and \<^verbatim>\<open>namelen\<close>.\<close>

definition handle_set_key_value ::
    "lower_fun \<Rightarrow> (u32 \<times> u32 \<times> u32) option \<Rightarrow> bytes \<Rightarrow> 'a el_objects_scheme \<Rightarrow> (hreply \<times> 'a el_objects_scheme) option" where
  "handle_set_key_value lc rq buf ev =
     (case rq of
        None \<Rightarrow> Some (invalid_parameter, ev)
      | Some (hkey, ty, namelen) \<Rightarrow> do {
          va \<leftarrow> vararg_of buf;
          Some (header_reply 0,
            if unat namelen \<le> length va
            then fire_registry_notifications hkey 0x04
                   (ev\<lparr>reg := set_value lc (reg ev) hkey (take (unat namelen) va) ty (drop (unat namelen) va)\<rparr>)
            else ev) })"

text \<open>\<^verbatim>\<open>req.index as usize\<close> extends the sign of the 32-bit index.\<close>

definition index_as_usize :: "u32 \<Rightarrow> nat" where
  "index_as_usize i = unat (scast i :: u64)"

text \<open>The request fields are \<^verbatim>\<open>hkey\<close> and \<^verbatim>\<open>index\<close>; the reply fields are the type, the length of the data
  and the length of the name.\<close>

definition handle_enum_key_value ::
    "lower_fun \<Rightarrow> (u32 \<times> u32) option \<Rightarrow> bytes \<Rightarrow> 'a el_objects_scheme \<Rightarrow> hreply option" where
  "handle_enum_key_value lc rq buf ev =
     (case rq of
        None \<Rightarrow> Some invalid_parameter
      | Some (hkey, index) \<Rightarrow> do {
          v \<leftarrow> enum_value lc (reg ev) hkey (index_as_usize index);
          Some (case v of
              Some (name, ty, d) \<Rightarrow>
                HReply 0 [ucast ty, ucast (of_nat (length d) :: u32), ucast (of_nat (length name) :: u32)]
                  (take (min (length (name @ d)) (unat (max_reply_vararg buf))) (name @ d))
            | None \<Rightarrow> header_reply 0x8000001A) })"

definition handle_load_registry :: hreply where
  "handle_load_registry = header_reply 0"

definition handle_flush_key :: hreply where
  "handle_flush_key = header_reply 0"

text \<open>The request fields are \<^verbatim>\<open>hkey\<close> and \<^verbatim>\<open>index\<close>; the reply fields are \<^verbatim>\<open>subkeys\<close>, \<^verbatim>\<open>max_subkey\<close>,
  \<^verbatim>\<open>max_class\<close>, \<^verbatim>\<open>values\<close>, \<^verbatim>\<open>max_value\<close>, \<^verbatim>\<open>max_data\<close>, \<^verbatim>\<open>modif\<close>, \<^verbatim>\<open>total\<close> and \<^verbatim>\<open>namelen\<close>.  Index -1 asks for the
  key itself.\<close>

definition handle_enum_key ::
    "lower_fun \<Rightarrow> (u32 \<times> u32) option \<Rightarrow> bytes \<Rightarrow> 'a el_objects_scheme \<Rightarrow> hreply option" where
  "handle_enum_key lc rq buf ev =
     (case rq of
        None \<Rightarrow> Some invalid_parameter
      | Some (hkey, index) \<Rightarrow> do {
          q \<leftarrow> query_key lc (reg ev) hkey;
          if index = - 1 then
            Some (case q of
                Some (subkeys, vals, max_value, max_data) \<Rightarrow>
                  HReply 0 [ucast subkeys, 0, 0, ucast vals, ucast max_value, ucast max_data,
                            write_counter (reg ev), 0, 0] []
              | None \<Rightarrow> header_reply 0xC0000008)
          else do {
            k \<leftarrow> enum_key lc (reg ev) hkey (index_as_usize index);
            Some (case k of
                Some (name, subkeys, vals) \<Rightarrow>
                  let n = ucast (of_nat (length name) :: u32) in
                  HReply 0 [ucast subkeys, 0, 0, ucast vals, 0, 0, 0, n, n]
                    (take (min (length name) (unat (max_reply_vararg buf))) name)
              | None \<Rightarrow> header_reply 0x8000001A) } })"

text \<open>The deletions read the key handle from bytes 12 to 15.\<close>

definition raw_hkey :: "bytes \<Rightarrow> u32" where
  "raw_hkey buf = (if 16 \<le> length buf then u32_from_le (take 4 (drop 12 buf)) else 0)"

definition handle_delete_key ::
    "lower_fun \<Rightarrow> bytes \<Rightarrow> 'a el_objects_scheme \<Rightarrow> (hreply \<times> 'a el_objects_scheme) option" where
  "handle_delete_key lc buf ev =
     (let hkey = raw_hkey buf in
      if hkey = 0 then Some (header_reply 0xC0000022, ev)
      else do {
        (ok, r) \<leftarrow> delete_key lc (reg ev) hkey;
        let ev = ev\<lparr>reg := r\<rparr>;
        Some (if ok then (header_reply 0, fire_registry_notifications hkey 0x01 ev)
              else (header_reply 0xC0000022, ev)) })"

definition handle_delete_key_value :: "lower_fun \<Rightarrow> bytes \<Rightarrow> 'a el_objects_scheme \<Rightarrow> hreply \<times> 'a el_objects_scheme" where
  "handle_delete_key_value lc buf ev =
     (let hkey = raw_hkey buf in
      if hkey = 0 then (header_reply 0xC0000034, ev)
      else
        let (ok, r) = delete_value lc (reg ev) hkey (vararg_or_empty buf); ev = ev\<lparr>reg := r\<rparr> in
        if ok then (header_reply 0, fire_registry_notifications hkey 0x04 ev)
        else (header_reply 0xC0000034, ev))"

definition handle_unload_registry :: hreply where
  "handle_unload_registry = header_reply 0"

definition handle_save_registry :: hreply where
  "handle_save_registry = header_reply 0"

text \<open>The request fields are \<^verbatim>\<open>hkey\<close>, \<^verbatim>\<open>event\<close>, \<^verbatim>\<open>subtree\<close> and \<^verbatim>\<open>filter\<close>.\<close>

definition handle_set_registry_notification ::
    "fd \<Rightarrow> (u32 \<times> u32 \<times> u32 \<times> u32) option \<Rightarrow> 'a el_objects_scheme \<Rightarrow> hreply \<times> 'a el_objects_scheme" where
  "handle_set_registry_notification f rq ev =
     (case rq of
        None \<Rightarrow> (invalid_parameter, ev)
      | Some (hkey, event, subtree, filt) \<Rightarrow>
        let pid = client_pid ev f;
            ev = (case ntsync_objects ev (pid, event) of None \<Rightarrow> ev | Some (obj, _) \<Rightarrow> sync [ResetEvent obj] ev);
            (ok, r) = register_notify (reg ev) hkey pid event (subtree \<noteq> 0) filt;
            ev = ev\<lparr>reg := r\<rparr>
        in (header_reply (if ok then 0x103 else 0xC0000008), ev))"

section \<open>Atoms\<close>

text \<open>The counts are 32-bit signed integers.\<close>

definition i32_plus :: "int \<Rightarrow> int \<Rightarrow> int" where
  "i32_plus a b = sint (word_of_int (a + b) :: u32)"

definition vararg_to_u16 :: "bytes \<Rightarrow> u16 list" where
  "vararg_to_u16 bs = u16s_of_le bs"

definition bump_atom :: "u32 \<Rightarrow> server_state \<Rightarrow> server_state" where
  "bump_atom a st =
     (case atoms st a of
        None \<Rightarrow> st
      | Some (bs, n) \<Rightarrow> st\<lparr>atoms := (atoms st)(a \<mapsto> (bs, i32_plus n 1))\<rparr>)"

definition add_atom :: "bytes \<Rightarrow> server_state \<Rightarrow> u32 \<times> server_state" where
  "add_atom va st =
     (let name = vararg_to_u16 va in
      case atom_names st name of
        Some a \<Rightarrow> (a, bump_atom a st)
      | None \<Rightarrow>
        let a = next_atom st in
        (a, st\<lparr>atoms := (atoms st)(a \<mapsto> (va, 1)), atom_names := (atom_names st)(name \<mapsto> a), next_atom := a + 1\<rparr>))"

definition handle_add_atom :: "bytes \<Rightarrow> 'a el_objects_scheme \<Rightarrow> hreply \<times> 'a el_objects_scheme" where
  "handle_add_atom buf ev =
     (let (a, st) = add_atom (vararg_or_empty buf) (srv ev) in (HReply 0 [ucast a] [], ev\<lparr>srv := st\<rparr>))"

definition handle_add_user_atom :: "bytes \<Rightarrow> 'a el_objects_scheme \<Rightarrow> hreply \<times> 'a el_objects_scheme" where
  "handle_add_user_atom buf ev =
     (let (a, st) = add_atom (vararg_or_empty buf) (srv ev) in (HReply 0 [ucast a] [], ev\<lparr>srv := st\<rparr>))"

definition handle_find_atom :: "bytes \<Rightarrow> 'a el_objects_scheme \<Rightarrow> hreply" where
  "handle_find_atom buf ev =
     (case atom_names (srv ev) (vararg_to_u16 (vararg_or_empty buf)) of
        Some a \<Rightarrow> HReply 0 [ucast a] []
      | None \<Rightarrow> header_reply 0xC0000034)"

text \<open>The reply fields are \<^verbatim>\<open>count\<close>, \<^verbatim>\<open>pinned\<close> and \<^verbatim>\<open>total\<close>.\<close>

definition handle_get_atom_information :: "u32 option \<Rightarrow> bytes \<Rightarrow> 'a el_objects_scheme \<Rightarrow> hreply" where
  "handle_get_atom_information rq buf ev =
     (case rq of
        None \<Rightarrow> invalid_parameter
      | Some a \<Rightarrow>
        case atoms (srv ev) a of
          Some (name, n) \<Rightarrow>
            HReply 0 [ucast (word_of_int n :: u32), 0, ucast (of_nat (length name) :: u32)]
              (take (min (length name) (unat (max_reply_vararg buf))) name)
        | None \<Rightarrow> header_reply 0xC0000008)"

definition delete_atom :: "u32 \<Rightarrow> server_state \<Rightarrow> server_state" where
  "delete_atom a st =
     (case atoms st a of
        None \<Rightarrow> st
      | Some (bs, n) \<Rightarrow>
        let n = i32_plus n (- 1) in
        if n \<le> 0
        then st\<lparr>atoms := (atoms st)(a := None), atom_names := (atom_names st)(vararg_to_u16 bs := None)\<rparr>
        else st\<lparr>atoms := (atoms st)(a \<mapsto> (bs, n))\<rparr>)"

definition handle_delete_atom :: "u32 option \<Rightarrow> 'a el_objects_scheme \<Rightarrow> hreply \<times> 'a el_objects_scheme" where
  "handle_delete_atom rq ev =
     (case rq of
        None \<Rightarrow> (invalid_parameter, ev)
      | Some a \<Rightarrow> (header_reply 0, ev\<lparr>srv := delete_atom a (srv ev)\<rparr>))"

section \<open>The atom table is a table of counted names\<close>

definition atom_ok :: "server_state \<Rightarrow> u32 \<Rightarrow> bytes \<Rightarrow> int \<Rightarrow> bool" where
  "atom_ok st a bs n \<longleftrightarrow> 1 \<le> n \<and> n < 2 ^ 31 \<and> a < next_atom st \<and> atom_names st (u16s_of_le bs) = Some a"

definition atoms_inv :: "server_state \<Rightarrow> bool" where
  "atoms_inv st \<longleftrightarrow>
     (\<forall>a bs n. atoms st a = Some (bs, n) \<longrightarrow> atom_ok st a bs n) \<and>
     (\<forall>name a. atom_names st name = Some a \<longrightarrow> (\<exists>bs n. atoms st a = Some (bs, n) \<and> u16s_of_le bs = name))"

text \<open>Room for one more atom and one more use of each atom.\<close>

definition atoms_room :: "server_state \<Rightarrow> bool" where
  "atoms_room st \<longleftrightarrow>
     unat (next_atom st) + 1 < 2 ^ 32 \<and> (\<forall>a bs n. atoms st a = Some (bs, n) \<longrightarrow> n + 1 < 2 ^ 31)"

definition uses_of :: "server_state \<Rightarrow> u16 list \<Rightarrow> nat" where
  "uses_of st name =
     (case atom_names st name of
        None \<Rightarrow> 0
      | Some a \<Rightarrow> (case atoms st a of None \<Rightarrow> 0 | Some (_, n) \<Rightarrow> nat n))"

lemma i32_plus_small:
  assumes "- (2 ^ 31) \<le> a + b" and "a + b < 2 ^ 31"
  shows "i32_plus a b = a + b"
  unfolding i32_plus_def by (subst sint_sbintrunc') (use assms in \<open>simp add: signed_take_bit_int_eq_self\<close>)

lemma atoms_invI:
  assumes "\<And>a bs n. atoms st a = Some (bs, n) \<Longrightarrow> atom_ok st a bs n"
    and "\<And>name a. atom_names st name = Some a \<Longrightarrow> \<exists>bs n. atoms st a = Some (bs, n) \<and> u16s_of_le bs = name"
  shows "atoms_inv st"
  using assms by (simp add: atoms_inv_def)

lemma atoms_invD1: "atoms_inv st \<Longrightarrow> atoms st a = Some (bs, n) \<Longrightarrow> atom_ok st a bs n"
  by (simp add: atoms_inv_def)

lemma atoms_invD2:
  "atoms_inv st \<Longrightarrow> atom_names st name = Some a \<Longrightarrow> \<exists>bs n. atoms st a = Some (bs, n) \<and> u16s_of_le bs = name"
  unfolding atoms_inv_def by blast

lemma atoms_invE:
  assumes "atoms_inv st" and "atom_names st name = Some a"
  obtains bs n where "atoms st a = Some (bs, n)" and "u16s_of_le bs = name"
  using atoms_invD2[OF assms] by blast

lemma uses_of_name:
  "atoms_inv st \<Longrightarrow> atoms st a = Some (bs, n) \<Longrightarrow> uses_of st (u16s_of_le bs) = nat n"
  using atoms_invD1[of st a bs n] by (simp add: uses_of_def atom_ok_def)

lemma uses_of_zero: "atoms_inv st \<Longrightarrow> uses_of st name = 0 \<longleftrightarrow> atom_names st name = None"
proof (cases "atom_names st name")
  case (Some a)
  assume inv: "atoms_inv st"
  from atoms_invE[OF inv Some] obtain bs n where a: "atoms st a = Some (bs, n)" by blast
  from atoms_invD1[OF inv a] have "1 \<le> n" by (simp add: atom_ok_def)
  then show ?thesis by (simp add: uses_of_def Some a)
qed (simp add: uses_of_def)

lemma add_atom_new:
  assumes inv: "atoms_inv st" and room: "atoms_room st" and new: "atom_names st (u16s_of_le va) = None"
    and st': "st' = st\<lparr>atoms := (atoms st)(next_atom st \<mapsto> (va, 1)),
      atom_names := (atom_names st)(u16s_of_le va \<mapsto> next_atom st), next_atom := next_atom st + 1\<rparr>"
  shows "atoms_inv st' \<and> uses_of st' = (uses_of st)(u16s_of_le va := uses_of st (u16s_of_le va) + 1)"
proof -
  have nx: "next_atom st < next_atom st + 1"
    using room by (simp add: atoms_room_def word_less_nat_alt unat_word_ariths)
  then have lt: "a < next_atom st \<Longrightarrow> a < next_atom st + 1" for a using less_trans by blast
  have free: "atoms st (next_atom st) = None"
    using atoms_invD1[OF inv] by (cases "atoms st (next_atom st)") (force simp: atom_ok_def)+
  have other: "u16s_of_le bs \<noteq> u16s_of_le va" if "atoms st a = Some (bs, n)" for a bs n
    using atoms_invD1[OF inv that] new by (auto simp: atom_ok_def)
  have named: "a \<noteq> next_atom st" if "atom_names st name = Some a" for name a
    using inv that free by (auto elim!: atoms_invE)
  have "atoms_inv st'"
    using inv nx lt other named unfolding atoms_inv_def st'
    by (auto simp: atom_ok_def)
  moreover have "uses_of st' name = ((uses_of st)(u16s_of_le va := uses_of st (u16s_of_le va) + 1)) name" for name
    using new named by (auto simp: uses_of_def st' split: option.splits)
  ultimately show ?thesis by blast
qed
text \<open>Changing the count of one atom.\<close>

lemma recount_atom:
  assumes inv: "atoms_inv st" and a: "atoms st a = Some (bs, n)" and m: "1 \<le> m" "m < 2 ^ 31"
    and st': "st' = st\<lparr>atoms := (atoms st)(a \<mapsto> (bs, m))\<rparr>"
  shows "atoms_inv st' \<and> uses_of st' = (uses_of st)(u16s_of_le bs := nat m)"
proof -
  have nm: "atom_names st (u16s_of_le bs) = Some a" using atoms_invD1[OF inv a] by (simp add: atom_ok_def)
  have only: "name = u16s_of_le bs" if "atom_names st name = Some a" for name
    using atoms_invD2[OF inv that] a by auto
  have "atoms_inv st'"
  proof (rule atoms_invI)
    show "atom_ok st' b cs k" if "atoms st' b = Some (cs, k)" for b cs k
      using that atoms_invD1[OF inv, of b cs k] m nm atoms_invD1[OF inv a]
      by (cases "b = a") (auto simp: st' atom_ok_def)
    show "\<exists>cs k. atoms st' b = Some (cs, k) \<and> u16s_of_le cs = name" if "atom_names st' name = Some b" for name b
    proof (cases "b = a")
      case True
      with that only[of name] show ?thesis by (simp add: st')
    next
      case False
      with that atoms_invD2[OF inv, of name b] show ?thesis by (simp add: st')
    qed
  qed
  moreover have "uses_of st' name = ((uses_of st)(u16s_of_le bs := nat m)) name" for name
    using nm only[of name] by (cases "name = u16s_of_le bs") (auto simp: uses_of_def st' split: option.splits)
  ultimately show ?thesis by blast
qed

lemma forget_atom:
  assumes inv: "atoms_inv st" and a: "atoms st a = Some (bs, n)"
    and st': "st' = st\<lparr>atoms := (atoms st)(a := None), atom_names := (atom_names st)(u16s_of_le bs := None)\<rparr>"
  shows "atoms_inv st' \<and> uses_of st' = (uses_of st)(u16s_of_le bs := 0)"
proof -
  have nm: "atom_names st (u16s_of_le bs) = Some a" using atoms_invD1[OF inv a] by (simp add: atom_ok_def)
  have only: "name = u16s_of_le bs" if "atom_names st name = Some a" for name
    using atoms_invD2[OF inv that] a by auto
  have one: "b = a" if "atoms st b = Some (cs, k)" "u16s_of_le cs = u16s_of_le bs" for b cs k
    using atoms_invD1[OF inv that(1)] nm that(2) by (simp add: atom_ok_def)
  have "atoms_inv st'"
  proof (rule atoms_invI)
    show "atom_ok st' b cs k" if "atoms st' b = Some (cs, k)" for b cs k
      using that atoms_invD1[OF inv, of b cs k] one[of b cs k]
      by (cases "b = a") (auto simp: st' atom_ok_def)
    show "\<exists>cs k. atoms st' b = Some (cs, k) \<and> u16s_of_le cs = name" if "atom_names st' name = Some b" for name b
    proof -
      from that have b: "atom_names st name = Some b" "name \<noteq> u16s_of_le bs" by (auto simp: st' split: if_splits)
      with only[of name] have "b \<noteq> a" by auto
      with atoms_invD2[OF inv b(1)] show ?thesis by (simp add: st')
    qed
  qed
  moreover have "uses_of st' name = ((uses_of st)(u16s_of_le bs := 0)) name" for name
    using only[of name] by (cases "name = u16s_of_le bs") (auto simp: uses_of_def st' split: option.splits)
  ultimately show ?thesis by blast
qed

lemma add_atom_counts:
  assumes inv: "atoms_inv st" and room: "atoms_room st" and add: "add_atom va st = (a, st')"
  shows "atoms_inv st' \<and> uses_of st' = (uses_of st)(u16s_of_le va := uses_of st (u16s_of_le va) + 1)"
proof (cases "atom_names st (u16s_of_le va)")
  case None
  with add_atom_new[OF inv room None refl] add show ?thesis by (auto simp: add_atom_def vararg_to_u16_def Let_def)
next
  case (Some b)
  from atoms_invE[OF inv Some] obtain bs n where b: "atoms st b = Some (bs, n)" "u16s_of_le bs = u16s_of_le va" .
  have n: "1 \<le> n" "n + 1 < 2 ^ 31"
    using atoms_invD1[OF inv b(1)] room b(1) by (auto simp: atom_ok_def atoms_room_def)
  have "st' = st\<lparr>atoms := (atoms st)(b \<mapsto> (bs, n + 1))\<rparr>"
    using add Some b n by (auto simp: add_atom_def vararg_to_u16_def Let_def bump_atom_def i32_plus_small)
  from recount_atom[OF inv b(1) _ _ this] n uses_of_name[OF inv b(1)] b(2) show ?thesis
    by (simp add: nat_add_distrib)
qed

lemma delete_atom_counts:
  assumes inv: "atoms_inv st" and a: "atoms st a = Some (bs, n)"
  shows "atoms_inv (delete_atom a st) \<and>
    uses_of (delete_atom a st) = (uses_of st)(u16s_of_le bs := uses_of st (u16s_of_le bs) - 1)"
proof -
  have n: "1 \<le> n" "n < 2 ^ 31" using atoms_invD1[OF inv a] by (simp_all add: atom_ok_def)
  then have m: "i32_plus n (- 1) = n - 1" by (simp add: i32_plus_small)
  note u = uses_of_name[OF inv a]
  show ?thesis
  proof (cases "n = 1")
    case True
    with forget_atom[OF inv a refl] a m u show ?thesis by (simp add: delete_atom_def vararg_to_u16_def)
  next
    case False
    with n have "delete_atom a st = st\<lparr>atoms := (atoms st)(a \<mapsto> (bs, n - 1))\<rparr>"
      by (simp add: delete_atom_def a m)
    from recount_atom[OF inv a _ _ this] False n u show ?thesis by (simp add: nat_diff_distrib)
  qed
qed

text \<open>The abstract table maps each name to its number of uses.\<close>

inductive atom_step ::
    "'a el_objects_scheme \<times> (u16 list \<Rightarrow> nat) \<Rightarrow> 'a el_objects_scheme \<times> (u16 list \<Rightarrow> nat) \<Rightarrow> bool" where
  add: "atoms_room (srv ev) \<Longrightarrow> name = u16s_of_le (vararg_or_empty buf) \<Longrightarrow>
    atom_step (ev, u) (snd (handle_add_atom buf ev), u(name := u name + 1))"
| add_user: "atoms_room (srv ev) \<Longrightarrow> name = u16s_of_le (vararg_or_empty buf) \<Longrightarrow>
    atom_step (ev, u) (snd (handle_add_user_atom buf ev), u(name := u name + 1))"
| delete: "atoms (srv ev) a = Some (bs, n) \<Longrightarrow>
    atom_step (ev, u) (snd (handle_delete_atom (Some a) ev), u(u16s_of_le bs := u (u16s_of_le bs) - 1))"
| delete_unknown: "atoms (srv ev) a = None \<Longrightarrow> atom_step (ev, u) (snd (handle_delete_atom (Some a) ev), u)"

lemma atom_step_keeps:
  assumes "atom_step s s'" and "atoms_inv (srv (fst s)) \<and> uses_of (srv (fst s)) = snd s"
  shows "atoms_inv (srv (fst s')) \<and> uses_of (srv (fst s')) = snd s'"
  using assms
proof (induction rule: atom_step.induct)
  case (add ev name buf u)
  then show ?case
    using add_atom_counts[of "srv ev" "vararg_or_empty buf"]
    by (cases "add_atom (vararg_or_empty buf) (srv ev)") (auto simp: handle_add_atom_def)
next
  case (add_user ev name buf u)
  then show ?case
    using add_atom_counts[of "srv ev" "vararg_or_empty buf"]
    by (cases "add_atom (vararg_or_empty buf) (srv ev)") (auto simp: handle_add_user_atom_def)
next
  case (delete ev a bs n u)
  then show ?case using delete_atom_counts[of "srv ev" a bs n] by (auto simp: handle_delete_atom_def)
next
  case (delete_unknown ev a u)
  then show ?case by (simp add: handle_delete_atom_def delete_atom_def)
qed

lemma atom_reach:
  assumes "atom_step\<^sup>*\<^sup>* s s'" and "atoms_inv (srv (fst s)) \<and> uses_of (srv (fst s)) = snd s"
  shows "atoms_inv (srv (fst s')) \<and> uses_of (srv (fst s')) = snd s'"
  using assms by (induction rule: rtranclp_induct) (auto dest: atom_step_keeps)

lemma atoms_new: "atoms_inv server_state_new" "uses_of server_state_new = (\<lambda>_. 0)"
  by (auto simp: atoms_inv_def uses_of_def server_state_new_def)
lemma count_field: "k < 2 ^ 31 \<Longrightarrow> ucast (word_of_int (int k) :: u32) = (of_nat k :: u64)"
  by (simp add: word_unat_eq_iff unat_field unsigned_of_nat take_bit_nat_eq_self)

lemma atom_ids_inj:
  assumes inv: "atoms_inv st" and "atom_names st n1 = Some a" and "atom_names st n2 = Some a"
  shows "n1 = n2"
  using atoms_invD2[OF inv assms(2)] atoms_invD2[OF inv assms(3)] by auto

definition atom_request :: bytes where
  "atom_request = replicate 64 0 @ [65, 0]"


section \<open>Values through the requests\<close>

lemma signal_reg [simp]: "reg (signal k ev) = reg ev" "ntsync_objects (signal k ev) = ntsync_objects ev"
  by (simp_all add: signal_def sync_def split: option.splits prod.splits)

lemma fold_signal_reg [simp]:
  "reg (fold signal ks ev) = reg ev" "ntsync_objects (fold signal ks ev) = ntsync_objects ev"
  by (induction ks arbitrary: ev) simp_all

lemma fire_reg:
  "reg (fire_registry_notifications h change ev) = snd (collect_notifications (reg ev) h change)"
  "ntsync_objects (fire_registry_notifications h change ev) = ntsync_objects ev"
  by (simp_all add: fire_registry_notifications_def split: prod.splits)

lemma collect_keeps [simp]:
  "open_keys (snd (collect_notifications r h change)) = open_keys r"
  "root (snd (collect_notifications r h change)) = root r"
  by (simp_all add: collect_notifications_def split: option.splits)

lemma get_value_cong: "root r' = root r \<Longrightarrow> open_keys r' = open_keys r \<Longrightarrow> get_value lc r' h name = get_value lc r h name"
  by (cases "open_keys r h") (simp_all add: get_value_def handle_node_def)

lemma set_request:
  assumes "length hdr = VARARG_OFF" and "length name = unat namelen"
  shows "handle_set_key_value lc (Some (h, ty, namelen)) (hdr @ name @ d) ev =
    Some (header_reply 0, fire_registry_notifications h 0x04 (ev\<lparr>reg := set_value lc (reg ev) h name ty d\<rparr>))"
  using assms by (simp add: handle_set_key_value_def vararg_of_def)

text \<open>
  C11. A value stored with a set request is what a get request through the same key handle answers: its type,
  its full length, and as many of its bytes as the reply may carry.  The key must not be a symbolic link nor
  become one.
\<close>

theorem value_requests_roundtrip:
  assumes "open_keys (reg ev) h = Some p"
    and "\<And>n. walk_mut p (root (reg ev)) = Some n \<Longrightarrow> link_target lc n = None"
    and "\<not> (same_name (from_utf16le lc name) (link_name lc) \<and> ty = 6)"
    and "length hdr = VARARG_OFF" and "length hdr' = VARARG_OFF" and "length name = unat namelen"
  shows "\<exists>ev'. handle_set_key_value lc (Some (h, ty, namelen)) (hdr @ name @ d) ev = Some (header_reply 0, ev') \<and>
    handle_get_key_value lc (Some h) (hdr' @ name) ev' =
      Some (HReply 0 [ucast ty, ucast (of_nat (length d) :: u32)] (take (unat (max_reply_vararg (hdr' @ name))) d))"
proof -
  let ?ev = "fire_registry_notifications h 0x04 (ev\<lparr>reg := set_value lc (reg ev) h name ty d\<rparr>)"
  have "get_value lc (reg ?ev) h name = get_value lc (set_value lc (reg ev) h name ty d) h name"
    by (rule get_value_cong) (simp_all add: fire_reg)
  then have "get_value lc (reg ?ev) h name = Some (Some (ty, d))"
    using get_after_set[OF assms(1-3)] by simp
  then have "handle_get_key_value lc (Some h) (hdr' @ name) ?ev =
      Some (HReply 0 [ucast ty, ucast (of_nat (length d) :: u32)] (take (unat (max_reply_vararg (hdr' @ name))) d))"
    using assms(5) by (simp add: handle_get_key_value_def vararg_of_def min_def)
  then show ?thesis using set_request[OF assms(4,6)] by blast
qed

definition request_header_of :: "u8 \<Rightarrow> bytes" where
  "request_header_of b = replicate 64 b"

theorem value_requests_roundtrip_witness:
  "\<exists>ev'. handle_set_key_value ascii_lower (Some (2, 4, 2)) (request_header_of 0 @ wide [''x''] @ [1, 0, 0, 0])
        (one_client\<lparr>reg := sample\<rparr>) = Some (header_reply 0, ev') \<and>
     handle_get_key_value ascii_lower (Some 2) (request_header_of 1 @ wide [''x'']) ev' = Some (HReply 0 [4, 4] [1, 0, 0, 0])"
proof -
  have o: "open_keys (reg (one_client\<lparr>reg := sample\<rparr>)) 2 = Some [nm ''C'']" using sample_open by simp
  have w: "walk_mut [nm ''C''] (root sample) = Some key_new" by code_simp
  have l: "link_target ascii_lower n = None"
    if "walk_mut [nm ''C''] (root (reg (one_client\<lparr>reg := sample\<rparr>))) = Some n" for n
    using that w by (simp add: key_new_def link_target_def)
  have n: "length (wide [''x'']) = unat (2 :: u32)" by code_simp
  have h: "length (request_header_of b) = VARARG_OFF" for b by (simp add: request_header_of_def VARARG_OFF_def)
  have "max_reply_vararg (request_header_of 1 @ wide [''x'']) = 0x01010101" by code_simp
  then have m: "take (unat (max_reply_vararg (request_header_of 1 @ wide [''x'']))) [1, 0, 0, 0] = ([1, 0, 0, 0] :: bytes)"
    by simp
  have t: "\<not> (same_name (from_utf16le ascii_lower (wide [''x''])) (link_name ascii_lower) \<and> (4 :: u32) = 6)" by simp
  have f: "ucast (4 :: u32) = (4 :: u64)" "ucast (of_nat (length [1, 0, 0, 0 :: u8]) :: u32) = (4 :: u64)" by simp_all
  show ?thesis
    by (rule value_requests_roundtrip[OF o l t h[of 0] h[of 1] n, where d = "[1, 0, 0, 0]", unfolded m f])
qed

section \<open>Notifications through the requests\<close>

definition signals_of :: "'a el_objects_scheme \<Rightarrow> u32 \<times> u32 \<Rightarrow> sync_op list" where
  "signals_of ev k = (case ntsync_objects ev k of None \<Rightarrow> [] | Some (obj, _) \<Rightarrow> [SetEvent obj])"

lemma signals_of_reg [simp]: "signals_of (ev\<lparr>reg := r\<rparr>) = signals_of ev"
  by (rule ext) (simp add: signals_of_def)

lemma signal_ops: "sync_ops (signal k ev) = sync_ops ev @ signals_of ev k"
  by (simp add: signal_def signals_of_def sync_def split: option.splits prod.splits)

lemma fold_signal_ops: "sync_ops (fold signal ks ev) = sync_ops ev @ concat (map (signals_of ev) ks)"
proof (induction ks arbitrary: ev)
  case (Cons k ks)
  have "signals_of (signal k ev) = signals_of ev" by (rule ext) (simp add: signals_of_def)
  with Cons show ?case by (simp add: signal_ops)
qed simp

lemma fire_ops:
  "sync_ops (fire_registry_notifications h change ev) =
     sync_ops ev @ concat (map (signals_of ev) (fst (collect_notifications (reg ev) h change)))"
  by (simp add: fire_registry_notifications_def fold_signal_ops split: prod.splits)

definition watches :: "path \<Rightarrow> bool \<Rightarrow> u32 \<Rightarrow> path \<Rightarrow> bool" where
  "watches p sub filt q \<longleftrightarrow>
     (same_path p q \<or> sub \<and> prefix (map lower p) (map lower q)) \<and> filt AND 0x04 \<noteq> 0"

lemma notify_matches_watches:
  "notify_matches q 0x04 \<lparr>n_path = p, n_pid = pid, n_event = e, n_subtree = sub, n_filter = filt\<rparr> \<longleftrightarrow> watches p sub filt q"
  by (auto simp: notify_matches_def watches_def)

lemma set_collects:
  "open_keys r h = Some q \<Longrightarrow>
   fst (collect_notifications (set_value lc r h name ty d) h change) = fst (collect_notifications r h change)"
  by (simp add: collect_list)

lemma set_request_ops:
  assumes "length hdr = VARARG_OFF" and "length name = unat namelen" and "open_keys (reg ev) h = Some q"
    and "handle_set_key_value lc (Some (h, ty, namelen)) (hdr @ name @ d) ev = Some (r, ev')"
  shows "sync_ops ev' = sync_ops ev @ concat (map (signals_of ev) (fst (collect_notifications (reg ev) h 0x04)))"
    and "ntsync_objects ev' = ntsync_objects ev" and "open_keys (reg ev') h = Some q"
    and "notify_list (reg ev') = filter (\<lambda>n. \<not> notify_matches q 0x04 n) (notify_list (reg ev))"
proof -
  have e: "ev' = fire_registry_notifications h 0x04 (ev\<lparr>reg := set_value lc (reg ev) h name ty d\<rparr>)"
    using assms(4)[unfolded set_request[OF assms(1,2)]] by simp
  show "sync_ops ev' = sync_ops ev @ concat (map (signals_of ev) (fst (collect_notifications (reg ev) h 0x04)))"
    by (simp add: e fire_ops set_collects[OF assms(3)])
  show "ntsync_objects ev' = ntsync_objects ev" "open_keys (reg ev') h = Some q"
    "notify_list (reg ev') = filter (\<lambda>n. \<not> notify_matches q 0x04 n) (notify_list (reg ev))"
    by (simp_all add: e fire_reg assms(3) collect_list)
qed

text \<open>
  C28. A thread that registers for changes of a key is answered \<^verbatim>\<open>STATUS_PENDING\<close> and its event is reset.  The
  next set request on that key, or on a key below it when the subtree is watched, signals the event, after the
  events of the earlier registrations, if the filter selects value changes; a set request elsewhere does not.  A
  second set request on the same key signals nothing.
\<close>

theorem registry_wait_signalled_once:
  assumes w: "open_keys (reg ev) w = Some p" and h: "open_keys (reg ev) h = Some q"
    and obj: "ntsync_objects ev (client_pid ev f, event) = Some (obj, ty)"
    and reg: "handle_set_registry_notification f (Some (w, event, sub, filt)) ev = (r, ev1)"
    and hdr: "length hdr = VARARG_OFF" and name: "length name = unat namelen"
    and set1: "handle_set_key_value lc (Some (h, t, namelen)) (hdr @ name @ d) ev1 = Some (r2, ev2)"
    and set2: "handle_set_key_value lc (Some (h, t', namelen)) (hdr @ name @ d') ev2 = Some (r3, ev3)"
  shows "r = header_reply 0x103 \<and> sync_ops ev1 = sync_ops ev @ [ResetEvent obj] \<and>
    sync_ops ev2 = sync_ops ev1 @ concat (map (signals_of ev) (fst (collect_notifications (reg ev) h 0x04))) @
      (if watches p (sub \<noteq> 0) filt q then [SetEvent obj] else []) \<and>
    sync_ops ev3 = sync_ops ev2"
proof -
  have ev1: "r = header_reply 0x103" "ev1 = (sync [ResetEvent obj] ev)\<lparr>reg := (reg ev)\<lparr>notify_list := notify_list (reg ev) @
      [\<lparr>n_path = p, n_pid = client_pid ev f, n_event = event, n_subtree = sub \<noteq> 0, n_filter = filt\<rparr>]\<rparr>\<rparr>"
    using reg w obj by (auto simp: handle_set_registry_notification_def register_notify_def sync_def)
  have o1: "open_keys (reg ev1) h = Some q" by (simp add: ev1 h)
  have s1: "signals_of ev1 = signals_of ev" by (rule ext) (simp add: ev1 signals_of_def sync_def)
  note a = set_request_ops[OF hdr name o1 set1]
  note b = set_request_ops[OF hdr name a(3) set2]
  have "signals_of ev (client_pid ev f, event) = [SetEvent obj]" by (simp add: signals_of_def obj)
  then have "sync_ops ev2 = sync_ops ev1 @ concat (map (signals_of ev) (fst (collect_notifications (reg ev) h 0x04))) @
      (if watches p (sub \<noteq> 0) filt q then [SetEvent obj] else [])"
    using a(1) o1 by (simp add: s1 collect_list h notify_matches_watches) (simp add: ev1 notify_matches_watches)
  moreover have "sync_ops ev3 = sync_ops ev2"
    using b(1) by (simp add: collect_list a(3,4) filter_empty_conv)
  moreover have "sync_ops ev1 = sync_ops ev @ [ResetEvent obj]" by (simp add: ev1 sync_def)
  ultimately show ?thesis using ev1(1) by simp
qed

theorem registry_wait_signalled_once_witness:
  "\<exists>r ev1 ev2 ev3 :: event_loop.
     handle_set_registry_notification 5 (Some (2, 8, 0, 4)) (one_client\<lparr>reg := sample, ntsync_objects := [(32, 8) \<mapsto> (70, 1)]\<rparr>) = (r, ev1) \<and>
     handle_set_key_value ascii_lower (Some (2, 4, 2)) (request_header_of 0 @ wide [''x''] @ [1]) ev1 = Some (header_reply 0, ev2) \<and>
     handle_set_key_value ascii_lower (Some (2, 4, 2)) (request_header_of 0 @ wide [''x''] @ [2]) ev2 = Some (header_reply 0, ev3) \<and>
     sync_ops ev3 = [ResetEvent 70, SetEvent 70]"
proof -
  let ?ev = "one_client\<lparr>reg := sample, ntsync_objects := [(32, 8) \<mapsto> (70, 1)]\<rparr>"
  obtain r ev1 where e1: "handle_set_registry_notification 5 (Some (2, 8, 0, 4)) ?ev = (r, ev1)" by fastforce
  have n: "length (wide [''x'']) = unat (2 :: u32)" by code_simp
  have h: "length (request_header_of 0) = VARARG_OFF" by (simp add: request_header_of_def VARARG_OFF_def)
  obtain ev2 where e2: "handle_set_key_value ascii_lower (Some (2, 4, 2)) (request_header_of 0 @ wide [''x''] @ [1]) ev1 =
      Some (header_reply 0, ev2)" using set_request[OF h n] by blast
  obtain ev3 where e3: "handle_set_key_value ascii_lower (Some (2, 4, 2)) (request_header_of 0 @ wide [''x''] @ [2]) ev2 =
      Some (header_reply 0, ev3)" using set_request[OF h n] by blast
  have o: "open_keys (reg ?ev) 2 = Some [nm ''C'']" using sample_open by simp
  have "client_pid ?ev 5 = 32" by (simp add: client_pid_def)
  then have p: "ntsync_objects ?ev (client_pid ?ev 5, 8) = Some (70, 1)" by simp
  have c: "fst (collect_notifications (reg ?ev) 2 4) = []" by (simp, code_simp)
  have s: "sync_ops ?ev = []" by (simp add: one_client_def event_loop_init_def)
  have wt: "watches [nm ''C''] False 4 [nm ''C'']" by (simp add: watches_def same_path_def)
  from registry_wait_signalled_once[OF o o p e1 h n e2 e3] c s wt have "sync_ops ev3 = [ResetEvent 70, SetEvent 70]"
    by simp
  with e1 e2 e3 show ?thesis by blast
qed
end
