(* ===== verification/Token.thy ===== *)
theory Token
  imports EventLoop
begin

text \<open>
  \<^verbatim>\<open>triskelion/event_loop/token.rs\<close>: tokens and security descriptors.  Every process runs as one elevated
  user, so apart from \<^verbatim>\<open>open_token\<close>, which makes a handle, the requests have fixed answers.
\<close>

definition STATUS_BUFFER_TOO_SMALL :: u32 where "STATUS_BUFFER_TOO_SMALL = 0xC0000023"

definition handle_get_token_sid :: "unit option \<Rightarrow> bytes \<Rightarrow> 'a event_loop_scheme \<Rightarrow> hreply" where
  "handle_get_token_sid rq buf ev =
     (case rq of
        None \<Rightarrow> header_reply 0xC000000D
      | Some _ \<Rightarrow>
        let sid = sid_bytes ev; len = ucast (of_nat (length sid) :: u32) in
        if unat (max_reply_vararg buf) < length sid
        then HReply STATUS_BUFFER_TOO_SMALL [len] []
        else HReply 0 [len] sid)"

definition handle_get_token_default_dacl :: hreply where
  "handle_get_token_default_dacl = HReply 0 [0] []"

definition handle_open_token :: "fd \<Rightarrow> fd \<Rightarrow> 'a el_objects_scheme \<Rightarrow> hreply \<times> 'a el_objects_scheme" where
  "handle_open_token f efd ev =
     (let (h, ev) = alloc_waitable_handle f efd ev in
      (if h = 0 then header_reply 0xC0000017 else HReply 0 [ucast h] [], ev))"

text \<open>The fields are \<^verbatim>\<open>token_id\<close>, \<^verbatim>\<open>modified_id\<close>, \<^verbatim>\<open>session_id\<close>, \<^verbatim>\<open>primary\<close>, \<^verbatim>\<open>impersonation_level\<close>,
  \<^verbatim>\<open>elevation_type\<close>, \<^verbatim>\<open>is_elevated\<close>, \<^verbatim>\<open>group_count\<close> and \<^verbatim>\<open>privilege_count\<close>.\<close>

definition handle_get_token_info :: hreply where
  "handle_get_token_info = HReply 0 [1000, 1, 0, 1, 0, 3, 1, 0, 0] []"

definition handle_get_token_groups :: hreply where
  "handle_get_token_groups = HReply 0 [0, 0] []"

definition handle_get_token_privileges :: hreply where
  "handle_get_token_privileges = HReply 0 [0] []"

definition handle_access_check :: hreply where
  "handle_access_check = HReply 0 [0x1F0FFF, 0, 0] []"

definition handle_get_security_object :: hreply where
  "handle_get_security_object = HReply 0 [0] []"

definition handle_set_security_object :: hreply where
  "handle_set_security_object = header_reply 0"

text \<open>
  The two-call protocol of the clients: whatever room the first request leaves, its answer tells the
  length of the identifier, and a second request with that much room gets it whole.
\<close>

theorem token_sid_two_calls:
  assumes "length (sid_bytes ev) < 2 ^ 32"
    and "unat (max_reply_vararg buf2) = unat (hd (hr_fields (handle_get_token_sid (Some ()) buf1 ev)))"
  shows "handle_get_token_sid (Some ()) buf2 ev = HReply 0 [of_nat (length (sid_bytes ev))] (sid_bytes ev)"
proof -
  have "unat (ucast (of_nat (length (sid_bytes ev)) :: u32) :: u64) = length (sid_bytes ev)"
    using assms(1) by (simp add: unsigned_ucast_eq unsigned_of_nat take_bit_nat_eq_self)
  moreover from this have "ucast (of_nat (length (sid_bytes ev)) :: u32) = (of_nat (length (sid_bytes ev)) :: u64)"
    by (simp add: word_unat_eq_iff unsigned_of_nat take_bit_nat_eq_self)
  moreover from calculation have "unat (max_reply_vararg buf2) = length (sid_bytes ev)"
    using assms(2) by (simp add: handle_get_token_sid_def Let_def)
  ultimately show ?thesis by (simp add: handle_get_token_sid_def Let_def)
qed

end
