(* ===== verification/Sync.thy ===== *)
theory Sync
  imports Handles "HOL-Library.Multiset"
begin

text \<open>
  Waiting: \<^verbatim>\<open>triskelion/event_loop/sync.rs\<close> (the select request, the pending sleeps, events, mutexes and
  semaphores, asynchronous results) and the wait call of \<^verbatim>\<open>triskelion/ntsync.rs\<close>.  The kernel device
  and the clocks are arguments: \<open>k_wait\<close> is the wait \<^verbatim>\<open>ioctl\<close> with its return value, index and error
  number.
\<close>

section \<open>The wait call\<close>

datatype wait_result = Signaled u32 | Timeout | Alerted | WaitError

definition ETIMEDOUT :: int where "ETIMEDOUT = 110"
definition ECANCELED :: int where "ECANCELED = 125"

text \<open>Arguments of the call: wait for all, the descriptors, the deadline, the owner and the alert.\<close>

type_synonym wait_ioctl = "bool \<Rightarrow> u32 list \<Rightarrow> u64 \<Rightarrow> u32 \<Rightarrow> u32 \<Rightarrow> int \<times> u32 \<times> int"

definition do_wait_inner :: "wait_ioctl \<Rightarrow> bool \<Rightarrow> fd list \<Rightarrow> u64 \<Rightarrow> u32 \<Rightarrow> u32 \<Rightarrow> wait_result" where
  "do_wait_inner k all fds timeout owner alert =
     (if fds = [] then Timeout
      else case k all (map word_of_int fds) timeout owner alert of
        (ret, index, errno) \<Rightarrow>
          if ret = 0 then
            (if alert \<noteq> 0 \<and> index = of_nat (length fds) then Alerted else Signaled index)
          else if errno = ETIMEDOUT then Timeout
          else if errno = ECANCELED then Alerted
          else WaitError)"

section \<open>Timeouts\<close>

definition u64_max :: u64 where "u64_max = 0xFFFFFFFFFFFFFFFF"
definition i64_max :: "64 word" where "i64_max = 0x7FFFFFFFFFFFFFFF"

definition saturating_add :: "u64 \<Rightarrow> u64 \<Rightarrow> u64" where
  "saturating_add a b = (if unat a + unat b < 2 ^ 64 then a + b else u64_max)"

definition saturating_mul :: "u64 \<Rightarrow> u64 \<Rightarrow> u64" where
  "saturating_mul a b = (if unat a * unat b < 2 ^ 64 then a * b else u64_max)"

text \<open>\<open>clock\<close> is the monotonic clock in nanoseconds, \<open>now\<close> the wall clock in units of 100 nanoseconds since
  1601.  The request's timeout is signed: negative is relative, positive absolute.\<close>

definition compute_ntsync_timeout :: "u64 \<Rightarrow> 64 word \<Rightarrow> 64 word \<Rightarrow> u64" where
  "compute_ntsync_timeout clock now timeout =
     (if timeout = i64_max then u64_max
      else if sint timeout < 0 then saturating_add clock (saturating_mul (- timeout) 100)
      else if 0 < sint timeout then
        (if sint timeout \<le> sint now then 1
         else saturating_add clock (saturating_mul (timeout - now) 100))
      else 1)"

section \<open>Sleeping clients\<close>

text \<open>The heap of pending waits is the list of its elements; its top is an element of least deadline.\<close>

fun earliest :: "pending_wait list \<Rightarrow> pending_wait option" where
  "earliest [] = None"
| "earliest (w # ws) = (case earliest ws of None \<Rightarrow> Some w | Some v \<Rightarrow> Some (if pw_deadline w \<le> pw_deadline v then w else v))"

lemma earliest_mem: "earliest ws = Some w \<Longrightarrow> w \<in> set ws"
  by (induction ws arbitrary: w) (auto split: option.splits if_splits)

lemma remove1_shorter: "w \<in> set ws \<Longrightarrow> length (remove1 w ws) < length ws"
  using length_pos_if_in_set[of w ws] by (simp add: length_remove1)

definition STATUS_TIMEOUT :: u32 where "STATUS_TIMEOUT = 0x102"

text \<open>The loop of \<^verbatim>\<open>check_pending_waits\<close>.  The results are the wake-ups written and the waits left.\<close>

function wake_expired :: "'a authority_scheme \<Rightarrow> nat \<Rightarrow> pending_wait list \<Rightarrow> (fd \<times> bytes) list \<times> pending_wait list" where
  "wake_expired ev now ws =
     (case earliest ws of
        None \<Rightarrow> ([], ws)
      | Some w \<Rightarrow>
        if client_at ev (pw_client_fd w) = None then wake_expired ev now (remove1 w ws)
        else if pw_deadline w \<le> now then
          let (out, rest) = wake_expired ev now (remove1 w ws)
          in ((case send_wake_up ev w STATUS_TIMEOUT of None \<Rightarrow> [] | Some x \<Rightarrow> [x]) @ out, rest)
        else ([], ws))"
  by pat_completeness auto
termination
  by (relation "measure (\<lambda>(_, _, ws). length ws)")
    (auto dest!: earliest_mem intro: remove1_shorter)

declare wake_expired.simps [simp del]

definition check_pending_waits :: "nat \<Rightarrow> 'a el_waits_scheme \<Rightarrow> (fd \<times> bytes) list \<times> 'a el_waits_scheme" where
  "check_pending_waits now ev =
     (let (out, rest) = wake_expired ev now (pending_waits ev) in (out, ev\<lparr>pending_waits := rest\<rparr>))"

text \<open>The interval the timer is armed with, in nanoseconds; zero disarms it.\<close>

definition arm_timer :: "nat \<Rightarrow> 'a el_waits_scheme \<Rightarrow> nat" where
  "arm_timer now ev =
     (case earliest (pending_waits ev) of
        None \<Rightarrow> 0
      | Some w \<Rightarrow> if now < pw_deadline w then pw_deadline w - now else 1)"

section \<open>The select request\<close>

definition STATUS_PENDING :: u32 where "STATUS_PENDING = 0x103"
definition STATUS_KERNEL_APC :: u32 where "STATUS_KERNEL_APC = 0x100"
definition STATUS_USER_APC :: u32 where "STATUS_USER_APC = 0xC0"
definition APC_RESULT_SIZE :: nat where "APC_RESULT_SIZE = 40"
definition SELECT_WAIT :: u32 where "SELECT_WAIT = 1"
definition SELECT_WAIT_ALL :: u32 where "SELECT_WAIT_ALL = 2"

text \<open>The fields of the reply are \<^verbatim>\<open>apc_handle\<close> and \<^verbatim>\<open>signaled\<close>.\<close>

abbreviation pending_reply :: hreply where
  "pending_reply \<equiv> HReply STATUS_PENDING [0, 0] []"

record select_request =
  sr_cookie :: u64
  sr_timeout :: "64 word"
  sr_size :: u32
  sr_prev_apc :: u32

subsection \<open>Delivering and acknowledging APCs\<close>

definition take_apc :: "fd \<Rightarrow> 'a el_waits_scheme \<Rightarrow> bytes option \<times> 'a el_waits_scheme" where
  "take_apc f ev =
     (case pending_kernel_apcs ev f of
        Some (a # as) \<Rightarrow>
          (Some (last (a # as)),
           ev\<lparr>pending_kernel_apcs := (pending_kernel_apcs ev)(f := if as = [] then None else Some (butlast (a # as)))\<rparr>)
      | _ \<Rightarrow> (None, ev))"

definition alloc_apc_handle :: "u32 \<Rightarrow> 'a el_objects_scheme \<Rightarrow> u32 \<times> 'a el_objects_scheme" where
  "alloc_apc_handle pid ev =
     (let (oid, ev) = new_object_id ev in
      case processes (srv ev) pid of
        None \<Rightarrow> (0, ev)
      | Some p \<Rightarrow> let (h, t) = allocate (handles p) oid in (h, set_handles pid p t ev))"

definition deliver_apc :: "fd \<Rightarrow> bytes \<Rightarrow> 'a el_objects_scheme \<Rightarrow> hreply \<times> 'a el_objects_scheme" where
  "deliver_apc f apc ev =
     (let (h, ev) = alloc_apc_handle (client_pid ev f) ev;
          ev = (if client_apc_flags ev f = None then ev
                else ev\<lparr>client_apc_flags := (client_apc_flags ev)(f \<mapsto> False)\<rparr>);
          ev = update_client f (current_wait_cookie_update (\<lambda>_. 0)) ev;
          status = (if 2 \<le> u32_from_le (take 4 apc) then STATUS_KERNEL_APC else STATUS_USER_APC)
      in (HReply status [ucast h, 1] apc, ev))"

text \<open>The acknowledgement signals the deferred events and closes the handle of the APC.\<close>

definition ack_apc :: "fd \<Rightarrow> u32 \<Rightarrow> 'a el_objects_scheme \<Rightarrow> 'a el_objects_scheme option" where
  "ack_apc f prev ev =
     (let pid = client_pid ev f;
          ev = (case deferred_event_signals ev f of
                  None \<Rightarrow> ev
                | Some evs \<Rightarrow> fold signal evs (ev\<lparr>deferred_event_signals := (deferred_event_signals ev)(f := None)\<rparr>))
      in close_in_table pid prev ev)"

subsection \<open>Suspension\<close>

definition has_contexts :: "u32 \<Rightarrow> bytes \<Rightarrow> bool" where
  "has_contexts n buf \<longleftrightarrow> VARARG_OFF + APC_RESULT_SIZE + unat n < length buf"

definition still_suspended :: "fd \<Rightarrow> 'a el_objects_scheme \<Rightarrow> bool" where
  "still_suspended f ev =
     (let tid = (case client_thread_id ev f of None \<Rightarrow> 0 | Some t \<Rightarrow> t) in
      case srv_threads (srv ev) tid of None \<Rightarrow> False | Some t \<Rightarrow> 0 < suspend_count t)"

subsection \<open>The objects waited for\<close>

definition OP_OFF :: nat where "OP_OFF = VARARG_OFF + APC_RESULT_SIZE"

definition handle_word :: "bytes \<Rightarrow> nat \<Rightarrow> u32 option" where
  "handle_word buf i =
     (let off = OP_OFF + 4 + i * 4 in
      if off + 4 \<le> length buf then Some (u32_from_le (take 4 (drop off buf))) else None)"

text \<open>The loop over the handles: the descriptors found so far and whether every handle has one.  An
  unknown handle gets a signalled event, \<open>mk i\<close> from the kernel.\<close>

fun collect_waits ::
    "(nat \<Rightarrow> fd option) \<Rightarrow> u32 \<Rightarrow> bytes \<Rightarrow> nat list \<Rightarrow> fd list \<Rightarrow> 'a el_objects_scheme \<Rightarrow> (fd list \<times> bool) \<times> 'a el_objects_scheme" where
  "collect_waits mk pid buf [] fds ev = ((fds, True), ev)"
| "collect_waits mk pid buf (i # is) fds ev =
     (case handle_word buf i of
        None \<Rightarrow> ((fds, False), ev)
      | Some h \<Rightarrow>
        case ntsync_objects ev (pid, h) of
          Some (obj, _) \<Rightarrow> collect_waits mk pid buf is (fds @ [obj]) ev
        | None \<Rightarrow>
          case get_or_create_event (mk i) ev of
            Some obj \<Rightarrow> collect_waits mk pid buf is (fds @ [obj]) (insert_recyclable_event pid h obj 2 ev)
          | None \<Rightarrow> ((fds, False), ev))"

text \<open>A pipe instance whose listen event is waited for learns the cookie of the wait.\<close>

definition mark_listener :: "u32 \<Rightarrow> u32 set \<Rightarrow> u64 \<Rightarrow> named_pipe_info \<Rightarrow> named_pipe_info" where
  "mark_listener pid hs cookie info =
     (case np_listen_event info of
        Some (p, h) \<Rightarrow>
          if p = pid \<and> h \<in> hs
          then info\<lparr>np_listen_async := map_option (la_cookie_update (\<lambda>_. cookie)) (np_listen_async info)\<rparr>
          else info
      | None \<Rightarrow> info)"

definition mark_listeners :: "u32 \<Rightarrow> u32 set \<Rightarrow> u64 \<Rightarrow> 'a el_waits_scheme \<Rightarrow> 'a el_waits_scheme" where
  "mark_listeners pid hs cookie ev =
     ev\<lparr>named_pipes := (\<lambda>n. map_option (map (mark_listener pid hs cookie)) (named_pipes ev n))\<rparr>"

text \<open>The descriptors to wait for, whether for all of them, and the owner of acquired mutexes.\<close>

definition select_objects ::
    "(nat \<Rightarrow> fd option) \<Rightarrow> fd \<Rightarrow> select_request \<Rightarrow> bytes \<Rightarrow> 'a el_waits_scheme \<Rightarrow> (fd list \<times> bool \<times> u32) \<times> 'a el_waits_scheme" where
  "select_objects mk f rq buf ev =
     (if 0 < sr_size rq \<and> has_ntsync ev \<and> OP_OFF + 4 \<le> length buf \<and> 4 \<le> sr_size rq then
        let opcode = u32_from_le (take 4 (drop OP_OFF buf)); all = (opcode = SELECT_WAIT_ALL) in
        if opcode = SELECT_WAIT \<or> opcode = SELECT_WAIT_ALL then
          let n = (unat (sr_size rq) - 4) div 4;
              owner = (case client_thread_id ev f of None \<Rightarrow> 0 | Some t \<Rightarrow> t);
              pid = client_pid ev f;
              ((fds, ok), ev) = collect_waits mk pid buf [0..<n] [] ev;
              ev = mark_listeners pid (set (List.map_filter (handle_word buf) [0..<n])) (sr_cookie rq) ev
          in ((if ok then fds else [], all, owner), ev)
        else (([], all, 0), ev)
      else (([], False, 0), ev))"

subsection \<open>Blocking\<close>

text \<open>The wait thread: what it waits for, until when, and where it reports.\<close>

record worker =
  w_fds :: "fd list"
  w_all :: bool
  w_timeout :: u64
  w_owner :: u32
  w_alert :: fd
  w_cookie :: u64
  w_wait_fd :: fd

text \<open>The end of the wait thread.  \<open>flag1\<close> and \<open>flag2\<close> are the two readings of the APC flag: when the flag is
  set somebody else has written to the wait descriptor, and the thread only clears the flag.  The
  results are the wake-up written and whether the flag is cleared.\<close>

definition worker_finish :: "wait_result \<Rightarrow> bool \<Rightarrow> bool \<Rightarrow> worker \<Rightarrow> (fd \<times> bytes) option \<times> bool" where
  "worker_finish res flag1 flag2 w =
     (if flag1 then (None, True)
      else
        let wake = (\<lambda>s. (Some (w_wait_fd w, wake_up_reply (w_cookie w) s), False)) in
        case res of
          Signaled index \<Rightarrow> wake index
        | Timeout \<Rightarrow> wake STATUS_TIMEOUT
        | Alerted \<Rightarrow> if flag2 then (None, True) else wake STATUS_KERNEL_APC
        | WaitError \<Rightarrow> wake STATUS_TIMEOUT)"

text \<open>The first blocking wait of a process signals its idle event.\<close>

definition signal_idle :: "fd \<Rightarrow> 'a el_objects_scheme \<Rightarrow> 'a el_objects_scheme" where
  "signal_idle f ev =
     (let pid = client_pid ev f in
      case processes (srv ev) pid of
        None \<Rightarrow> ev
      | Some p \<Rightarrow>
        if idle_signaled p then ev
        else
          let ev = (case process_idle_events ev pid of None \<Rightarrow> ev | Some obj \<Rightarrow> sync [SetEvent obj] ev)
          in ev\<lparr>srv := (srv ev)\<lparr>processes := (processes (srv ev))(pid \<mapsto> p\<lparr>idle_signaled := True\<rparr>)\<rparr>\<rparr>)"

text \<open>The answers of the kernel and the clocks during one select request.  The monotonic clock is read
  twice and \<^verbatim>\<open>Instant::now\<close> once.\<close>

record select_kernel =
  k_wait :: wait_ioctl
  k_event :: "nat \<Rightarrow> fd option"
  k_interrupt :: "fd option"
  k_dup :: "fd \<Rightarrow> fd"
  k_mono :: u64
  k_real :: "64 word"
  k_mono2 :: u64
  k_instant :: nat

definition DAY_NS :: nat where "DAY_NS = 86400 * 1000000000"

definition sleep_deadline :: "select_kernel \<Rightarrow> u64 \<Rightarrow> nat" where
  "sleep_deadline k timeout =
     k_instant k + (if timeout = u64_max then DAY_NS else unat timeout - unat (k_mono2 k))"

definition sleep_wait :: "select_kernel \<Rightarrow> fd \<Rightarrow> u64 \<Rightarrow> u64 \<Rightarrow> 'a el_waits_scheme \<Rightarrow> 'a el_waits_scheme" where
  "sleep_wait k f cookie timeout ev =
     ev\<lparr>pending_waits := pending_waits ev @
          [\<lparr>pw_deadline = sleep_deadline k timeout, pw_client_fd = f, pw_cookie = cookie\<rparr>]\<rparr>"

definition block_on ::
    "select_kernel \<Rightarrow> fd \<Rightarrow> u64 \<Rightarrow> fd list \<times> bool \<times> u32 \<Rightarrow> u64 \<Rightarrow> 'a el_waits_scheme \<Rightarrow> worker option \<times> 'a el_waits_scheme" where
  "block_on k f cookie objs timeout ev =
     (case objs of (fds, all, owner) \<Rightarrow>
        if fds = [] then (None, ev)
        else
          let (alert, ev) = get_or_create_worker_interrupt f (k_interrupt k) ev;
              (_, ev) = get_or_create_apc_flag f ev
          in case client_at ev f of
               None \<Rightarrow> (None, ev)
             | Some c \<Rightarrow>
               case wait_fd c of
                 None \<Rightarrow> (None, ev)
               | Some wfd \<Rightarrow>
                 let ev = update_client f (current_wait_cookie_update (\<lambda>_. cookie)) ev; d = k_dup k wfd in
                 if 0 \<le> d
                 then (Some \<lparr>w_fds = fds, w_all = all, w_timeout = timeout, w_owner = owner, w_alert = alert,
                             w_cookie = cookie, w_wait_fd = d\<rparr>, ev)
                 else (None, ev))"

text \<open>The outcome of the poll that precedes blocking.\<close>

definition immediate_result :: "wait_ioctl \<Rightarrow> fd list \<times> bool \<times> u32 \<Rightarrow> 64 word \<Rightarrow> u32 option" where
  "immediate_result k objs timeout =
     (case objs of (fds, all, owner) \<Rightarrow>
        if fds \<noteq> [] then
          (case do_wait_inner k all fds 1 owner 0 of
             Signaled index \<Rightarrow> Some index
           | _ \<Rightarrow> if timeout = 0 then Some STATUS_TIMEOUT else None)
        else if timeout = 0 then Some STATUS_TIMEOUT else None)"

definition select_wait ::
    "select_kernel \<Rightarrow> fd \<Rightarrow> select_request \<Rightarrow> bytes \<Rightarrow> 'a el_waits_scheme \<Rightarrow> hreply \<times> worker option \<times> 'a el_waits_scheme" where
  "select_wait k f rq buf ev =
     (let (objs, ev) = select_objects (k_event k) f rq buf ev in
      case immediate_result (k_wait k) objs (sr_timeout rq) of
        Some s \<Rightarrow> (HReply s [0, 1] [], None, ev)
      | None \<Rightarrow>
        let timeout = compute_ntsync_timeout (k_mono k) (k_real k) (sr_timeout rq);
            ev = (if fst objs \<noteq> [] \<or> 1000000 < timeout then signal_idle f ev else ev);
            (w, ev) = block_on k f (sr_cookie rq) objs timeout ev
        in (pending_reply, w, if w = None then sleep_wait k f (sr_cookie rq) timeout ev else ev))"

definition handle_select ::
    "select_kernel \<Rightarrow> fd \<Rightarrow> select_request option \<Rightarrow> bytes \<Rightarrow> 'a el_waits_scheme \<Rightarrow> (hreply \<times> worker option \<times> 'a el_waits_scheme) option" where
  "handle_select k f rq buf ev =
     (case rq of
        None \<Rightarrow> Some (header_reply 0xC000000D, None, ev)
      | Some rq \<Rightarrow>
        case take_apc f ev of
          (Some apc, ev) \<Rightarrow> (case deliver_apc f apc ev of (r, ev) \<Rightarrow> Some (r, None, ev))
        | (None, ev) \<Rightarrow> do {
            ev \<leftarrow> (if sr_prev_apc rq \<noteq> 0 then ack_apc f (sr_prev_apc rq) ev else Some ev);
            Some (if has_contexts (sr_size rq) buf \<and> sr_size rq = 0 \<and> still_suspended f ev
                  then (pending_reply, None, update_client f (suspend_cookie_update (\<lambda>_. sr_cookie rq)) ev)
                  else select_wait k f rq buf ev) })"

end
