(* ===== verification/SyncObjects.thy ===== *)
theory SyncObjects
  imports Handles
begin

text \<open>
  The synchronisation objects of \<^verbatim>\<open>triskelion/event_loop/sync.rs\<close>: creating, opening, changing and
  querying events, mutexes and semaphores, named ones included, and the asynchronous results.
  \<open>efd\<close> is the result of creating the descriptor of a handle, \<open>mk\<close> the kernel's answer to a creation,
  \<open>dup\<close> the system call; \<open>lc\<close> is the lower-casing of strings.
\<close>

section \<open>Object names\<close>

text \<open>\<^verbatim>\<open>name.rsplit('\')\<close>: what follows the last backslash.\<close>

definition base_name :: "ustr \<Rightarrow> ustr" where
  "base_name s = rev (takeWhile (\<lambda>c. c \<noteq> 92) (rev s))"

definition extract_objattr_name :: "lower_fun \<Rightarrow> bytes \<Rightarrow> ustr option" where
  "extract_objattr_name lc buf =
     (if length buf < VARARG_OFF + 16 then None
      else
        let oa = drop VARARG_OFF buf;
            sd_len = unat (u32_from_le (take 4 (drop 8 oa)));
            name_len = unat (u32_from_le (take 4 (drop 12 oa)));
            name_start = VARARG_OFF + 16 + sd_len
        in if name_len = 0 \<or> length buf < name_start + name_len then None
           else
             let short = base_name (utf16le_to_string (take name_len (drop name_start buf)))
             in if short = [] then None else Some (lc short))"

definition extract_open_name :: "lower_fun \<Rightarrow> bytes \<Rightarrow> ustr option" where
  "extract_open_name lc buf =
     (if length buf \<le> VARARG_OFF then None
      else
        let short = base_name (utf16le_to_string (drop VARARG_OFF buf))
        in if short = [] then None else Some (lc short))"

section \<open>Creating and opening\<close>

definition EVENT :: u32 where "EVENT = 2"
definition MUTEX :: u32 where "MUTEX = 3"
definition SEMAPHORE :: u32 where "SEMAPHORE = 4"
definition STATUS_OBJECT_NAME_EXISTS :: u32 where "STATUS_OBJECT_NAME_EXISTS = 0x40000000"
definition STATUS_OBJECT_NAME_NOT_FOUND :: u32 where "STATUS_OBJECT_NAME_NOT_FOUND = 0xC0000034"

text \<open>A handle for the object of an existing name; the state, or nothing when the name is free.\<close>

definition open_existing ::
    "(fd \<Rightarrow> fd) \<Rightarrow> u32 \<times> u32 \<Rightarrow> ustr option \<Rightarrow> 'a el_objects_scheme \<Rightarrow> 'a el_objects_scheme option" where
  "open_existing dup key name ev = do {
     n \<leftarrow> name;
     (canonical, ty) \<leftarrow> named_sync ev n;
     Some (if 0 \<le> dup canonical then put_sync key (dup canonical, ty) ev else ev) }"

text \<open>A name keeps its own descriptor of the object.\<close>

definition register_name :: "(fd \<Rightarrow> fd) \<Rightarrow> ustr option \<Rightarrow> fd \<Rightarrow> u32 \<Rightarrow> 'a el_objects_scheme \<Rightarrow> 'a el_objects_scheme" where
  "register_name dup name obj ty ev =
     (case name of
        None \<Rightarrow> ev
      | Some n \<Rightarrow> if dup obj < 0 then ev else ev\<lparr>named_sync := (named_sync ev)(n \<mapsto> (dup obj, ty))\<rparr>)"

definition put_new :: "u32 \<times> u32 \<Rightarrow> fd \<Rightarrow> u32 \<Rightarrow> 'a el_objects_scheme \<Rightarrow> 'a el_objects_scheme" where
  "put_new key obj ty ev = (put_sync key (obj, ty) ev)\<lparr>ntsync_objects_created := ntsync_objects_created ev + 1\<rparr>"

text \<open>The frame of the three creations; \<open>made\<close> stores the new object.\<close>

definition create_object ::
    "fd \<Rightarrow> fd \<Rightarrow> (fd \<Rightarrow> fd) \<Rightarrow> ustr option \<Rightarrow> fd option \<Rightarrow> (u32 \<Rightarrow> u32 \<Rightarrow> fd \<Rightarrow> 'a el_objects_scheme \<Rightarrow> 'a el_objects_scheme)
      \<Rightarrow> 'a el_objects_scheme \<Rightarrow> hreply \<times> 'a el_objects_scheme" where
  "create_object f efd dup name obj made ev =
     (let (h, ev) = alloc_waitable_handle f efd ev; pid = client_pid ev f in
      if h = 0 then (HReply 0 [0] [], ev)
      else case open_existing dup (pid, h) name ev of
        Some ev \<Rightarrow> (HReply STATUS_OBJECT_NAME_EXISTS [ucast h] [], ev)
      | None \<Rightarrow>
        (HReply 0 [ucast h] [],
         case (if has_ntsync ev then obj else None) of None \<Rightarrow> ev | Some obj \<Rightarrow> made pid h obj ev))"

text \<open>The request fields are \<^verbatim>\<open>manual_reset\<close> and \<^verbatim>\<open>initial_state\<close>.\<close>

definition handle_create_event ::
    "lower_fun \<Rightarrow> fd \<Rightarrow> (fd \<Rightarrow> fd) \<Rightarrow> (bool \<Rightarrow> bool \<Rightarrow> fd option) \<Rightarrow> fd \<Rightarrow> (u32 \<times> u32) option \<Rightarrow> bytes
      \<Rightarrow> 'a el_objects_scheme \<Rightarrow> hreply \<times> 'a el_objects_scheme" where
  "handle_create_event lc efd dup mk f rq buf ev =
     (let (manual, initial) = (case rq of None \<Rightarrow> (False, False) | Some (m, i) \<Rightarrow> (m \<noteq> 0, i \<noteq> 0));
          name = extract_objattr_name lc buf
      in create_object f efd dup name (mk manual initial)
           (\<lambda>pid h obj ev.
              if name = None then insert_recyclable_event pid h obj EVENT ev
              else put_new (pid, h) obj EVENT (register_name dup name obj EVENT ev)) ev)"

text \<open>The request field is \<^verbatim>\<open>owned\<close>; the kernel is told the owner and the recursion count.\<close>

definition handle_create_mutex ::
    "lower_fun \<Rightarrow> fd \<Rightarrow> (fd \<Rightarrow> fd) \<Rightarrow> (u32 \<Rightarrow> u32 \<Rightarrow> fd option) \<Rightarrow> fd \<Rightarrow> u32 option \<Rightarrow> bytes
      \<Rightarrow> 'a el_objects_scheme \<Rightarrow> hreply \<times> 'a el_objects_scheme" where
  "handle_create_mutex lc efd dup mk f rq buf ev =
     (let owned = (case rq of None \<Rightarrow> False | Some x \<Rightarrow> x \<noteq> 0);
          tid = (case client_thread_id ev f of None \<Rightarrow> 0 | Some t \<Rightarrow> t);
          name = extract_objattr_name lc buf
      in create_object f efd dup name (if owned then mk tid 1 else mk 0 0)
           (\<lambda>pid h obj ev. put_new (pid, h) obj MUTEX (register_name dup name obj MUTEX ev)) ev)"

text \<open>The request fields are \<^verbatim>\<open>initial\<close> and \<^verbatim>\<open>max\<close>.\<close>

definition handle_create_semaphore ::
    "lower_fun \<Rightarrow> fd \<Rightarrow> (fd \<Rightarrow> fd) \<Rightarrow> (u32 \<Rightarrow> u32 \<Rightarrow> fd option) \<Rightarrow> fd \<Rightarrow> (u32 \<times> u32) option \<Rightarrow> bytes
      \<Rightarrow> 'a el_objects_scheme \<Rightarrow> hreply \<times> 'a el_objects_scheme" where
  "handle_create_semaphore lc efd dup mk f rq buf ev =
     (let (initial, maximum) = (case rq of None \<Rightarrow> (0, 1) | Some x \<Rightarrow> x);
          name = extract_objattr_name lc buf
      in create_object f efd dup name (mk initial maximum)
           (\<lambda>pid h obj ev. put_new (pid, h) obj SEMAPHORE (register_name dup name obj SEMAPHORE ev)) ev)"

text \<open>The frame of the three open requests.  When duplicating the descriptor fails a fresh event takes
  the place of the object; \<open>mk\<close> is asked for it with the type of the named object.\<close>

definition open_named ::
    "lower_fun \<Rightarrow> fd \<Rightarrow> (fd \<Rightarrow> fd) \<Rightarrow> (u32 \<Rightarrow> fd option) \<Rightarrow> fd \<Rightarrow> bytes
      \<Rightarrow> 'a el_objects_scheme \<Rightarrow> hreply \<times> 'a el_objects_scheme" where
  "open_named lc efd dup mk f buf ev =
     (let pid = client_pid ev f in
      case do { n \<leftarrow> extract_open_name lc buf; named_sync ev n } of
        None \<Rightarrow> (HReply STATUS_OBJECT_NAME_NOT_FOUND [0] [], ev)
      | Some (canonical, ty) \<Rightarrow>
        let (h, ev) = alloc_waitable_handle f efd ev in
        (HReply 0 [ucast h] [],
         if h = 0 then ev
         else if 0 \<le> dup canonical then put_sync (pid, h) (dup canonical, ty) ev
         else case get_or_create_event (mk ty) ev of
           None \<Rightarrow> ev | Some fallback \<Rightarrow> put_sync (pid, h) (fallback, ty) ev))"

definition handle_open_event ::
    "lower_fun \<Rightarrow> fd \<Rightarrow> (fd \<Rightarrow> fd) \<Rightarrow> (bool \<Rightarrow> bool \<Rightarrow> fd option) \<Rightarrow> fd \<Rightarrow> bytes
      \<Rightarrow> 'a el_objects_scheme \<Rightarrow> hreply \<times> 'a el_objects_scheme" where
  "handle_open_event lc efd dup mk = open_named lc efd dup (\<lambda>ty. mk (ty = SEMAPHORE) False)"

definition handle_open_mutex ::
    "lower_fun \<Rightarrow> fd \<Rightarrow> (fd \<Rightarrow> fd) \<Rightarrow> (bool \<Rightarrow> bool \<Rightarrow> fd option) \<Rightarrow> fd \<Rightarrow> bytes
      \<Rightarrow> 'a el_objects_scheme \<Rightarrow> hreply \<times> 'a el_objects_scheme" where
  "handle_open_mutex lc efd dup mk = open_named lc efd dup (\<lambda>_. mk False False)"

definition handle_open_semaphore ::
    "lower_fun \<Rightarrow> fd \<Rightarrow> (fd \<Rightarrow> fd) \<Rightarrow> (bool \<Rightarrow> bool \<Rightarrow> fd option) \<Rightarrow> fd \<Rightarrow> bytes
      \<Rightarrow> 'a el_objects_scheme \<Rightarrow> hreply \<times> 'a el_objects_scheme" where
  "handle_open_semaphore lc efd dup mk = open_named lc efd dup (\<lambda>_. mk False False)"

definition handle_create_keyed_event ::
    "fd \<Rightarrow> (bool \<Rightarrow> bool \<Rightarrow> fd option) \<Rightarrow> fd \<Rightarrow> 'a el_objects_scheme \<Rightarrow> hreply \<times> 'a el_objects_scheme" where
  "handle_create_keyed_event efd mk f ev =
     (let (h, ev) = alloc_waitable_handle f efd ev in
      if h = 0 then (header_reply 0xC0000017, ev)
      else (HReply 0 [ucast h] [],
            case get_or_create_event (mk True False) ev of
              None \<Rightarrow> ev | Some obj \<Rightarrow> put_sync (client_pid ev f, h) (obj, 1) ev))"

definition handle_open_keyed_event :: "fd \<Rightarrow> 'a el_objects_scheme \<Rightarrow> hreply \<times> 'a el_objects_scheme" where
  "handle_open_keyed_event f ev =
     (let (oid, ev) = new_object_id ev; (h, ev) = alloc_handle_for_client f oid ev in
      if h = 0 then (header_reply 0xC0000017, ev) else (HReply 0 [ucast h] [], ev))"

section \<open>Changing and querying\<close>

text \<open>\<^verbatim>\<open>PULSE_EVENT\<close> is 0, \<^verbatim>\<open>SET_EVENT\<close> 1, \<^verbatim>\<open>RESET_EVENT\<close> 2; other codes do nothing.\<close>

definition event_op_of :: "u32 \<Rightarrow> fd \<Rightarrow> sync_op option" where
  "event_op_of code obj =
     (if code = 1 then Some (SetEvent obj)
      else if code = 2 then Some (ResetEvent obj)
      else if code = 0 then Some (PulseEvent obj)
      else None)"

text \<open>\<open>prev\<close> is the kernel's answer to an operation, \<open>None\<close> when it fails.\<close>

definition do_event_op :: "(sync_op \<Rightarrow> u32 option) \<Rightarrow> u32 \<Rightarrow> fd \<Rightarrow> 'a el_objects_scheme \<Rightarrow> hreply \<times> 'a el_objects_scheme" where
  "do_event_op prev code obj ev =
     (case event_op_of code obj of
        None \<Rightarrow> (HReply 0 [0] [], ev)
      | Some op' \<Rightarrow> (HReply 0 [case prev op' of None \<Rightarrow> 0 | Some s \<Rightarrow> ucast s] [], sync [op'] ev))"

text \<open>The request fields are \<^verbatim>\<open>handle\<close> and \<^verbatim>\<open>op\<close>.\<close>

definition handle_event_op ::
    "(bool \<Rightarrow> bool \<Rightarrow> fd option) \<Rightarrow> (sync_op \<Rightarrow> u32 option) \<Rightarrow> fd \<Rightarrow> (u32 \<times> u32) option
      \<Rightarrow> 'a el_objects_scheme \<Rightarrow> hreply \<times> 'a el_objects_scheme" where
  "handle_event_op mk prev f rq ev =
     (let pid = client_pid ev f in
      case rq of
        None \<Rightarrow> (HReply 0xC0000008 [0] [], ev)
      | Some (h, code) \<Rightarrow>
        case ntsync_objects ev (pid, h) of
          Some (obj, _) \<Rightarrow> do_event_op prev code obj ev
        | None \<Rightarrow>
          case get_or_create_event (mk True False) ev of
            Some obj \<Rightarrow> (case do_event_op prev code obj ev of (r, ev) \<Rightarrow> (r, put_sync (pid, h) (obj, EVENT) ev))
          | None \<Rightarrow> (HReply 0xC0000008 [0] [], ev))"

text \<open>The request fields are \<^verbatim>\<open>handle\<close> and \<^verbatim>\<open>count\<close>; \<open>rel\<close> is the kernel's answer.\<close>

definition handle_release_semaphore ::
    "(fd \<Rightarrow> u32 \<Rightarrow> u32 option) \<Rightarrow> fd \<Rightarrow> (u32 \<times> u32) option \<Rightarrow> 'a el_objects_scheme \<Rightarrow> hreply \<times> 'a el_objects_scheme" where
  "handle_release_semaphore rel f rq ev =
     (case rq of
        None \<Rightarrow> (HReply 0xC0000008 [0] [], ev)
      | Some (h, n) \<Rightarrow>
        case ntsync_objects ev (client_pid ev f, h) of
          None \<Rightarrow> (HReply 0xC0000008 [0] [], ev)
        | Some (obj, _) \<Rightarrow>
          (case rel obj n of None \<Rightarrow> HReply 0xC0000008 [0] [] | Some p \<Rightarrow> HReply 0 [ucast p] [],
           sync [ReleaseSem obj n] ev))"

definition handle_release_mutex ::
    "(fd \<Rightarrow> u32 \<Rightarrow> u32 option) \<Rightarrow> fd \<Rightarrow> u32 option \<Rightarrow> 'a el_objects_scheme \<Rightarrow> hreply \<times> 'a el_objects_scheme" where
  "handle_release_mutex rel f rq ev =
     (case rq of
        None \<Rightarrow> (HReply 0xC0000008 [0] [], ev)
      | Some h \<Rightarrow>
        case ntsync_objects ev (client_pid ev f, h) of
          None \<Rightarrow> (HReply 0xC0000008 [0] [], ev)
        | Some (obj, _) \<Rightarrow>
          let tid = (case client_thread_id ev f of None \<Rightarrow> 0 | Some t \<Rightarrow> t) in
          (case rel obj tid of None \<Rightarrow> HReply 0xC0000008 [0] [] | Some p \<Rightarrow> HReply 0 [ucast p] [],
           sync [UnlockMutex obj tid] ev))"

text \<open>\<open>rd\<close> reads the two words of an object's state.\<close>

definition read_state :: "(fd \<Rightarrow> (u32 \<times> u32) option) \<Rightarrow> fd \<Rightarrow> u32 option \<Rightarrow> 'a el_objects_scheme \<Rightarrow> (u32 \<times> u32) option" where
  "read_state rd f rq ev = do {
     h \<leftarrow> rq;
     (obj, _) \<leftarrow> ntsync_objects ev (client_pid ev f, h);
     rd obj }"

definition handle_query_event :: "(fd \<Rightarrow> (u32 \<times> u32) option) \<Rightarrow> fd \<Rightarrow> u32 option \<Rightarrow> 'a el_objects_scheme \<Rightarrow> hreply" where
  "handle_query_event rd f rq ev =
     (case read_state rd f rq ev of
        None \<Rightarrow> HReply 0 [0, 0] []
      | Some (manual, signaled) \<Rightarrow> HReply 0 [ucast manual, ucast signaled] [])"

definition handle_query_mutex :: "(fd \<Rightarrow> (u32 \<times> u32) option) \<Rightarrow> fd \<Rightarrow> u32 option \<Rightarrow> 'a el_objects_scheme \<Rightarrow> hreply" where
  "handle_query_mutex rd f rq ev =
     (case read_state rd f rq ev of
        None \<Rightarrow> HReply 0 [0, 0, 0] []
      | Some (owner, n) \<Rightarrow> HReply 0 [ucast n, if owner \<noteq> 0 then 1 else 0, 0] [])"

definition handle_query_semaphore :: "(fd \<Rightarrow> (u32 \<times> u32) option) \<Rightarrow> fd \<Rightarrow> u32 option \<Rightarrow> 'a el_objects_scheme \<Rightarrow> hreply" where
  "handle_query_semaphore rd f rq ev =
     (case read_state rd f rq ev of
        None \<Rightarrow> HReply 0 [0, 1] []
      | Some (current, maximum) \<Rightarrow> HReply 0 [ucast current, ucast maximum] [])"

section \<open>Asynchronous results\<close>

definition handle_register_async :: hreply where
  "handle_register_async = header_reply 0"

text \<open>The request field that matters is \<^verbatim>\<open>handle\<close>.\<close>

definition handle_cancel_async :: "fd \<Rightarrow> u32 option \<Rightarrow> 'a el_waits_scheme \<Rightarrow> hreply \<times> 'a el_waits_scheme" where
  "handle_cancel_async f rq ev =
     (case rq of
        None \<Rightarrow> (header_reply 0xC000000D, ev)
      | Some h \<Rightarrow>
        let pid = client_pid ev f;
            keep = (\<lambda>ok. ev\<lparr>pending_reads := (\<lambda>k. case pending_reads ev k of
                       Some r \<Rightarrow> if fst k = pid \<and> \<not> ok r then None else Some r | None \<Rightarrow> None)\<rparr>)
        in (HReply 0 [0] [],
            if h \<noteq> 0 then
              (case handle_at ev pid h of
                 Some e \<Rightarrow> (case he_fd e of Some tfd \<Rightarrow> keep (\<lambda>r. pr_fd r \<noteq> tfd) | None \<Rightarrow> ev)
               | None \<Rightarrow> ev)
            else keep (\<lambda>_. False)))"

text \<open>The first read that is complete for this thread, and the others.\<close>

fun take_completed :: "(completed_pipe_read \<Rightarrow> bool) \<Rightarrow> completed_pipe_read list \<Rightarrow> (completed_pipe_read \<times> completed_pipe_read list) option" where
  "take_completed P [] = None"
| "take_completed P (r # rs) =
     (if P r then Some (r, rs) else map_option (\<lambda>(x, ys). (x, r # ys)) (take_completed P rs))"

text \<open>The request field is \<^verbatim>\<open>user_arg\<close>.  \<open>rcv\<close> is the non-blocking receive: the count and the bytes.\<close>

definition handle_get_async_result ::
    "(fd \<Rightarrow> nat \<Rightarrow> int \<times> bytes) \<Rightarrow> fd \<Rightarrow> u64 option \<Rightarrow> 'a el_waits_scheme \<Rightarrow> hreply \<times> 'a el_waits_scheme" where
  "handle_get_async_result rcv f rq ev =
     (case rq of
        None \<Rightarrow> (header_reply 0xC000000D, ev)
      | Some arg \<Rightarrow>
        let pid = client_pid ev f in
        case completed_ioctls ev (pid, arg) of
          Some status \<Rightarrow> (header_reply status, ev\<lparr>completed_ioctls := (completed_ioctls ev)((pid, arg) := None)\<rparr>)
        | None \<Rightarrow>
          case take_completed (\<lambda>r. cr_pid r = pid \<and> cr_client_fd r = f) (completed_pipe_reads ev) of
            Some (r, rest) \<Rightarrow>
              (if cr_data r = [] then header_reply 0xC000014B else HReply 0 [] (cr_data r),
               ev\<lparr>completed_pipe_reads := rest\<rparr>)
          | None \<Rightarrow>
            case pending_reads ev (pid, arg) of
              None \<Rightarrow> (header_reply 0x103, ev)
            | Some r \<Rightarrow>
              case rcv (pr_fd r) (pr_max_bytes r) of
                (n, bs) \<Rightarrow>
                  if 0 < n then
                    (HReply 0 [] (take (nat n) bs), ev\<lparr>pending_reads := (pending_reads ev)((pid, arg) := None)\<rparr>)
                  else (header_reply 0x103, ev))"

text \<open>The request fields are \<^verbatim>\<open>handle\<close> and \<^verbatim>\<open>mark_pending\<close>.\<close>

definition handle_set_async_direct_result :: "(u32 \<times> u32) option \<Rightarrow> hreply" where
  "handle_set_async_direct_result rq =
     (case rq of None \<Rightarrow> HReply 0 [0] [] | Some (h, pend) \<Rightarrow> HReply 0 [if pend \<noteq> 0 then ucast h else 0] [])"

definition handle_cancel_sync :: hreply where
  "handle_cancel_sync = header_reply 0"

definition handle_queue_exception_event :: hreply where
  "handle_queue_exception_event = HReply 0xC0000077 [0] []"

text \<open>The fields are \<^verbatim>\<open>handle\<close> and \<^verbatim>\<open>is_self\<close>.\<close>

definition handle_queue_apc :: hreply where
  "handle_queue_apc = HReply 0 [0, 1] []"

text \<open>The 40 result bytes, as five words.\<close>

definition handle_get_apc_result :: hreply where
  "handle_get_apc_result = HReply 0 [0, 0, 0, 0, 0] []"

section \<open>Descriptors for waits in the client\<close>

definition entry_access :: "u32 \<Rightarrow> u32 \<Rightarrow> 'a el_objects_scheme \<Rightarrow> u32" where
  "entry_access pid h ev = (case handle_at ev pid h of None \<Rightarrow> 0x001F0003 | Some e \<Rightarrow> access e)"

definition queue_fd_for :: "fd \<Rightarrow> u32 \<Rightarrow> fd \<Rightarrow> 'a authority_scheme \<Rightarrow> 'a authority_scheme" where
  "queue_fd_for f token d ev = (if 0 \<le> d then update_client f (pending_fd_update (\<lambda>_. Some (d, token))) ev else ev)"

text \<open>The exit event of the process a handle names.\<close>

definition exit_event_of :: "u32 \<Rightarrow> u32 \<Rightarrow> 'a el_objects_scheme \<Rightarrow> (fd \<times> u32) option" where
  "exit_event_of pid h ev = do {
     e \<leftarrow> handle_at ev pid h;
     events \<leftarrow> process_exit_events ev (ucast (object_id e));
     (_, _, evt) \<leftarrow> List.find (\<lambda>(p, h', _). p = pid \<and> h' = h) events;
     Some (evt, access e) }"

text \<open>\<open>dup\<close> duplicates for the client, \<open>dup2\<close> for the I/O thread.  The reply fields are the type and the access.\<close>

definition handle_get_inproc_sync_fd ::
    "(bool \<Rightarrow> bool \<Rightarrow> fd option) \<Rightarrow> (fd \<Rightarrow> fd) \<Rightarrow> (fd \<Rightarrow> fd) \<Rightarrow> fd \<Rightarrow> u32 option
      \<Rightarrow> 'a el_objects_scheme \<Rightarrow> hreply \<times> 'a el_objects_scheme" where
  "handle_get_inproc_sync_fd mk dup dup2 f rq ev =
     (case rq of
        None \<Rightarrow> (header_reply 0xC000000D, ev)
      | Some h \<Rightarrow>
        let pid = client_pid ev f in
        case ntsync_objects ev (pid, h) of
          Some (obj, ty) \<Rightarrow>
            if dup obj < 0 then (header_reply 0xC0000017, ev)
            else (HReply 0 [ucast ty, ucast (entry_access pid h ev)] [], queue_fd_for f h (dup obj) ev)
        | None \<Rightarrow>
          case exit_event_of pid h ev of
            Some (evt, acc) \<Rightarrow> (HReply 0 [1, ucast acc] [], queue_fd_for f h (dup evt) ev)
          | None \<Rightarrow>
            let pipe = map_of (pipe_handles (side ev)) (pid, h) in
            case get_or_create_event (mk True (pipe = None)) ev of
              None \<Rightarrow> (HReply 0xC0000008 [0, 0] [], ev)
            | Some obj \<Rightarrow>
              let acc = entry_access pid h ev;
                  ev = queue_fd_for f h (dup obj) ev;
                  ev = (case pipe of
                          Some pfd \<Rightarrow> if 0 \<le> dup2 obj
                            then ev\<lparr>pending_pipe_watches := pending_pipe_watches ev @ [(pfd, dup2 obj)]\<rparr> else ev
                        | None \<Rightarrow> ev)
              in (HReply 0 [1, ucast acc] [], put_sync (pid, h) (obj, 1) ev))"

definition handle_get_inproc_alert_fd ::
    "fd option \<Rightarrow> (fd \<Rightarrow> fd) \<Rightarrow> fd \<Rightarrow> 'a el_objects_scheme \<Rightarrow> hreply \<times> 'a el_objects_scheme" where
  "handle_get_inproc_alert_fd created dup f ev =
     (let tid = (case client_thread_id ev f of None \<Rightarrow> 0 | Some t \<Rightarrow> t); token = tid OR 1;
          (alert, ev) = get_or_create_alert f created ev
      in (HReply 0 [ucast token] [], queue_fd_for f token (dup alert) ev))"

end
