(* ===== verification/SyncProps.thy ===== *)
theory SyncProps
  imports Sync SyncObjects
begin

text \<open>
  Waiting is correct: the deadlines handed to the kernel, the sleeping clients, the wake-up every
  pending select has, and the objects behind names.
\<close>

section \<open>Deadlines\<close>

lemma unat_saturating_add: "unat (saturating_add a b) = min (unat a + unat b) (2 ^ 64 - 1)"
  by (auto simp: saturating_add_def u64_max_def unat_word_ariths min_def)

lemma unat_saturating_mul: "unat (saturating_mul a b) = min (unat a * unat b) (2 ^ 64 - 1)"
  by (auto simp: saturating_mul_def u64_max_def unat_word_ariths min_def)

lemma saturating_deadline:
  "unat (saturating_add a (saturating_mul b 100)) = min (unat a + 100 * unat b) (2 ^ 64 - 1)"
  by (simp add: unat_saturating_add unat_saturating_mul min_def)

lemma unat_of_sint_diff:
  fixes t u :: "64 word"
  assumes "0 \<le> sint t - sint u" and "sint t - sint u < 2 ^ 64"
  shows "unat (t - u) = nat (sint t - sint u)"
proof -
  have e: "t - u = word_of_int (sint t - sint u)" by simp
  have "uint (t - u) = (sint t - sint u) mod 2 ^ 64"
    unfolding e by (simp only: unsigned_of_int take_bit_eq_mod) simp
  also have "\<dots> = sint t - sint u" using assms by (intro mod_pos_pos_trivial) simp_all
  finally show ?thesis by (simp add: unat_eq_nat_uint)
qed

lemma sint64_bounds: "- (2 ^ 63) \<le> sint (t :: 64 word)" "sint t < 2 ^ 63"
  using sint_greater_eq[of t] sint_less[of t] by simp_all



section \<open>Sleeping clients\<close>

lemma earliest_None: "earliest ws = None \<longleftrightarrow> ws = []"
  by (cases ws) (auto split: option.splits)

lemma earliest_least: "earliest ws = Some w \<Longrightarrow> v \<in> set ws \<Longrightarrow> pw_deadline w \<le> pw_deadline v"
proof (induction ws arbitrary: w)
  case (Cons x ws)
  then show ?case by (cases "earliest ws") (fastforce simp: earliest_None split: if_splits)+
qed simp

definition timed_out :: "'a authority_scheme \<Rightarrow> pending_wait \<Rightarrow> (fd \<times> bytes) list" where
  "timed_out ev w = (case send_wake_up ev w STATUS_TIMEOUT of None \<Rightarrow> [] | Some x \<Rightarrow> [x])"

lemma wake_expired_cases:
  "wake_expired ev now ws =
     (case earliest ws of
        None \<Rightarrow> ([], ws)
      | Some w \<Rightarrow>
        if client_at ev (pw_client_fd w) = None then wake_expired ev now (remove1 w ws)
        else if pw_deadline w \<le> now then
          (timed_out ev w @ fst (wake_expired ev now (remove1 w ws)), snd (wake_expired ev now (remove1 w ws)))
        else ([], ws))"
  by (subst wake_expired.simps) (auto simp: timed_out_def split: option.splits prod.splits)

definition expiry :: "'a authority_scheme \<Rightarrow> nat \<Rightarrow> pending_wait list \<Rightarrow> pending_wait list \<Rightarrow> (fd \<times> bytes) list \<Rightarrow> pending_wait list \<Rightarrow> bool" where
  "expiry ev now ws woken out rest \<longleftrightarrow>
     (\<exists>gone. mset ws = mset woken + mset gone + mset rest \<and> (\<forall>w\<in>set gone. client_at ev (pw_client_fd w) = None)) \<and>
     (\<forall>w\<in>set woken. pw_deadline w \<le> now \<and> client_at ev (pw_client_fd w) \<noteq> None) \<and>
     sorted (map pw_deadline woken) \<and> out = concat (map (timed_out ev) woken) \<and>
     (\<forall>w\<in>set rest. now < pw_deadline w)"

lemma mset_split: "w \<in> set ws \<Longrightarrow> mset (remove1 w ws) = M \<Longrightarrow> mset ws = add_mset w M"
  by auto

lemma expiry_gone:
  assumes "expiry ev now (remove1 w ws) woken out rest" and "w \<in> set ws" and "client_at ev (pw_client_fd w) = None"
  shows "expiry ev now ws woken out rest"
proof -
  from assms(1) obtain gone where g: "mset (remove1 w ws) = mset woken + mset gone + mset rest"
    "\<forall>w\<in>set gone. client_at ev (pw_client_fd w) = None" unfolding expiry_def by blast
  have "mset ws = mset woken + mset (w # gone) + mset rest" using mset_split[OF assms(2) g(1)] by simp
  moreover have "\<forall>w\<in>set (w # gone). client_at ev (pw_client_fd w) = None" using g(2) assms(3) by simp
  ultimately show ?thesis using assms(1) unfolding expiry_def by blast
qed

lemma expiry_woken:
  assumes e: "expiry ev now (remove1 w ws) woken out rest" and w: "earliest ws = Some w"
    and c: "client_at ev (pw_client_fd w) \<noteq> None" "pw_deadline w \<le> now"
  shows "expiry ev now ws (w # woken) (timed_out ev w @ out) rest"
proof -
  from e obtain gone where g: "mset (remove1 w ws) = mset woken + mset gone + mset rest"
    "\<forall>w\<in>set gone. client_at ev (pw_client_fd w) = None" unfolding expiry_def by blast
  have m: "mset ws = mset (w # woken) + mset gone + mset rest"
    using mset_split[OF earliest_mem[OF w] g(1)] by simp
  have "set woken \<subseteq> set ws" using arg_cong[OF m, of set_mset] by auto
  then have "\<forall>v\<in>set woken. pw_deadline w \<le> pw_deadline v" using earliest_least[OF w] by blast
  with e m g(2) c show ?thesis unfolding expiry_def by auto
qed

lemma wake_expired_expiry: "\<exists>woken. expiry ev now ws woken (fst (wake_expired ev now ws)) (snd (wake_expired ev now ws))"
proof (induction "length ws" arbitrary: ws rule: less_induct)
  case less
  show ?case
  proof (cases "earliest ws")
    case None
    then show ?thesis by (subst (1 2) wake_expired_cases) (simp add: earliest_None expiry_def)
  next
    case (Some w)
    note mem = earliest_mem[OF Some]
    from less remove1_shorter[OF mem] obtain woken where
      e: "expiry ev now (remove1 w ws) woken (fst (wake_expired ev now (remove1 w ws))) (snd (wake_expired ev now (remove1 w ws)))"
      by blast
    have late: "expiry ev now ws [] [] ws" if "\<not> pw_deadline w \<le> now"
      using that earliest_least[OF Some] by (fastforce simp: expiry_def intro: exI[of _ "[]"])
    show ?thesis
      using expiry_gone[OF e mem] expiry_woken[OF e Some] late
      by (subst (1 2) wake_expired_cases) (auto simp: Some)
  qed
qed

text \<open>
  C31. A pass over the sleeping clients wakes exactly those whose deadline has passed.  The waits split into those
  woken, those of clients that are gone, and those that stay; every wait that stays has its deadline ahead; the
  woken ones are written one timeout wake-up each, to their clients, in the order of their deadlines.
\<close>

theorem expired_waits_woken_once:
  assumes "check_pending_waits now ev = (out, ev')"
  shows "\<exists>woken gone. mset (pending_waits ev) = mset woken + mset gone + mset (pending_waits ev') \<and>
    (\<forall>w\<in>set woken. pw_deadline w \<le> now \<and> client_at ev (pw_client_fd w) \<noteq> None) \<and>
    (\<forall>w\<in>set gone. client_at ev (pw_client_fd w) = None) \<and> (\<forall>w\<in>set (pending_waits ev'). now < pw_deadline w) \<and>
    sorted (map pw_deadline woken) \<and> out = concat (map (timed_out ev) woken)"
proof -
  have e: "out = fst (wake_expired ev now (pending_waits ev))" "pending_waits ev' = snd (wake_expired ev now (pending_waits ev))"
    using assms by (auto simp: check_pending_waits_def split: prod.splits)
  from wake_expired_expiry[of ev now "pending_waits ev"] show ?thesis
    unfolding expiry_def e by blast
qed

definition sleeper :: "nat \<Rightarrow> fd \<Rightarrow> pending_wait" where
  "sleeper d f = \<lparr>pw_deadline = d, pw_client_fd = f, pw_cookie = 9\<rparr>"

text \<open>One client with a wait descriptor sleeping until 10, a longer sleep and a wait of a lost client.\<close>

definition sleepers :: event_loop where
  "sleepers = one_client\<lparr>clients := [(5, (client_new 5 6)\<lparr>process_id := 32, thread_id := 36, wait_fd := Some 8\<rparr>)],
     pending_waits := [sleeper 90 5, sleeper 3 77, sleeper 10 5]\<rparr>"

theorem expired_waits_woken_once_witness:
  "\<exists>woken gone rest. mset [sleeper 90 5, sleeper 3 77, sleeper 10 5] = mset woken + mset gone + mset rest \<and>
     fst (check_pending_waits 20 sleepers) = concat (map (timed_out sleepers) woken) \<and>
     (\<forall>w\<in>set woken. pw_deadline w \<le> 20) \<and> (\<forall>w\<in>set rest. 20 < pw_deadline w)"
proof -
  obtain out ev' where c: "check_pending_waits 20 sleepers = (out, ev')" by fastforce
  have "pending_waits sleepers = [sleeper 90 5, sleeper 3 77, sleeper 10 5]" by (simp add: sleepers_def)
  with expired_waits_woken_once[OF c] c show ?thesis by auto
qed

section \<open>Every pending select has a wake-up coming\<close>

lemma update_client_simps [simp]:
  "pending_waits (update_client f g ev) = pending_waits ev"
  "has_ntsync (update_client f g ev) = has_ntsync ev"
  by (simp_all add: update_client_def split: option.splits)

named_theorems keeps

lemma signal_keeps [keeps]: "clients (signal q ev) = clients ev" "pending_waits (signal q ev) = pending_waits ev"
  by (simp_all add: signal_def sync_def split: option.splits prod.splits)

lemma fold_signal_keeps [keeps]:
  "clients (fold signal qs ev) = clients ev" "pending_waits (fold signal qs ev) = pending_waits ev"
  by (induction qs arbitrary: ev) (simp_all add: keeps)

lemma close_in_table_keeps:
  assumes "close_in_table pid h ev = Some ev'"
  shows "clients ev' = clients ev \<and> pending_waits ev' = pending_waits ev"
  using assms
  by (auto simp: close_in_table_def close_fds_def set_handles_def bind_eq_Some_conv split: option.splits prod.splits)

lemma ack_apc_keeps:
  assumes "ack_apc f h ev = Some ev'"
  shows "clients ev' = clients ev \<and> pending_waits ev' = pending_waits ev"
  using assms close_in_table_keeps[of "client_pid ev f" h _ ev']
  by (cases "deferred_event_signals ev f") (auto simp: ack_apc_def keeps)

lemma collect_waits_keeps [keeps]:
  "clients (snd (collect_waits mk pid buf is fds ev)) = clients ev"
  "pending_waits (snd (collect_waits mk pid buf is fds ev)) = pending_waits ev"
  by (induction mk pid buf "is" fds ev rule: collect_waits.induct)
    (auto simp: insert_recyclable_event_def put_sync_def split: option.splits prod.splits)

lemma select_objects_keeps:
  assumes "select_objects mk f rq buf ev = (objs, ev')"
  shows "clients ev' = clients ev \<and> pending_waits ev' = pending_waits ev"
  using assms collect_waits_keeps[of mk "client_pid ev f" buf "[0..<(unat (sr_size rq) - 4) div 4]" "[]" ev]
  by (auto simp: select_objects_def mark_listeners_def Let_def split: if_splits prod.splits)

lemma signal_idle_keeps [keeps]:
  "clients (signal_idle f ev) = clients ev" "pending_waits (signal_idle f ev) = pending_waits ev"
  by (simp_all add: signal_idle_def sync_def Let_def split: option.splits)

lemma interrupt_keeps:
  "get_or_create_worker_interrupt f o' ev = (a, ev1) \<Longrightarrow> clients ev1 = clients ev \<and> pending_waits ev1 = pending_waits ev"
  by (auto simp: get_or_create_worker_interrupt_def split: option.splits)

lemma apc_flag_keeps:
  "get_or_create_apc_flag f ev = (b, ev1) \<Longrightarrow> clients ev1 = clients ev \<and> pending_waits ev1 = pending_waits ev"
  by (auto simp: get_or_create_apc_flag_def split: option.splits)

lemma block_on_result:
  assumes "block_on k f cookie objs timeout ev = (w, ev')" and "client_at ev f = Some c"
  shows "pending_waits ev' = pending_waits ev \<and>
    (\<forall>wk. w = Some wk \<longrightarrow> w_cookie wk = cookie \<and> w_timeout wk = timeout \<and> w_fds wk = fst objs \<and> fst objs \<noteq> [] \<and>
       (\<exists>wfd. wait_fd c = Some wfd \<and> w_wait_fd wk = k_dup k wfd))"
proof -
  obtain fds all owner where o: "objs = (fds, all, owner)" by (cases objs)
  obtain a ev1 where i: "get_or_create_worker_interrupt f (k_interrupt k) ev = (a, ev1)" by fastforce
  obtain b ev2 where g: "get_or_create_apc_flag f ev1 = (b, ev2)" by fastforce
  have k: "client_at ev2 f = Some c" "pending_waits ev2 = pending_waits ev"
    using interrupt_keeps[OF i] apc_flag_keeps[OF g] assms(2) by simp_all
  show ?thesis
  proof (cases "fds = []")
    case True
    with assms(1) show ?thesis by (simp add: block_on_def o)
  next
    case False
    with assms(1) k show ?thesis
      by (cases "wait_fd c") (auto simp: block_on_def o i g Let_def split: if_splits)
  qed
qed

lemma select_wait_pending:
  assumes "select_wait k f rq buf ev = (pending_reply, w, ev')" and "client_at ev f = Some c"
  shows "case w of
      Some wk \<Rightarrow> w_cookie wk = sr_cookie rq \<and> w_timeout wk = compute_ntsync_timeout (k_mono k) (k_real k) (sr_timeout rq) \<and>
        w_fds wk \<noteq> [] \<and> (\<exists>wfd. wait_fd c = Some wfd \<and> w_wait_fd wk = k_dup k wfd) \<and> pending_waits ev' = pending_waits ev
    | None \<Rightarrow> \<exists>d. pending_waits ev' = pending_waits ev @ [\<lparr>pw_deadline = d, pw_client_fd = f, pw_cookie = sr_cookie rq\<rparr>]"
proof -
  obtain objs ev1 where s: "select_objects (k_event k) f rq buf ev = (objs, ev1)" by fastforce
  let ?t = "compute_ntsync_timeout (k_mono k) (k_real k) (sr_timeout rq)"
  define ev2 where "ev2 = (if fst objs \<noteq> [] \<or> 1000000 < ?t then signal_idle f ev1 else ev1)"
  obtain w' ev3 where b: "block_on k f (sr_cookie rq) objs ?t ev2 = (w', ev3)" by fastforce
  have imm: "immediate_result (k_wait k) objs (sr_timeout rq) = None"
    using assms(1) by (auto simp: select_wait_def s split: option.splits)
  have "select_wait k f rq buf ev = (case block_on k f (sr_cookie rq) objs ?t ev2 of (w, ev) \<Rightarrow>
      (pending_reply, w, if w = None then sleep_wait k f (sr_cookie rq) ?t ev else ev))"
    by (simp add: select_wait_def s imm Let_def ev2_def)
  then have res: "w = w'" "ev' = (if w' = None then sleep_wait k f (sr_cookie rq) ?t ev3 else ev3)"
    using assms(1) by (simp_all add: b)
  have k: "client_at ev2 f = Some c" "pending_waits ev2 = pending_waits ev"
    using select_objects_keeps[OF s] assms(2) by (simp_all add: keeps ev2_def)
  from block_on_result[OF b k(1)] k(2) res show ?thesis by (auto simp: sleep_wait_def split: option.splits)
qed
lemma still_suspended_cookie [simp]:
  "still_suspended f (update_client f (suspend_cookie_update g) ev) = still_suspended f ev"
proof -
  have "client_thread_id (update_client f (suspend_cookie_update g) ev) f = client_thread_id ev f"
    by (cases "client_at ev f") (simp_all add: client_thread_id_def client_at_update)
  moreover have "srv (update_client f (suspend_cookie_update g) ev) = srv ev"
    by (simp add: update_client_def split: option.splits)
  ultimately show ?thesis by (simp add: still_suspended_def)
qed


definition quiet_kernel :: select_kernel where
  "quiet_kernel = \<lparr>k_wait = (\<lambda>_ _ _ _ _. (- 1, 0, ETIMEDOUT)), k_event = (\<lambda>_. None), k_interrupt = Some 50, k_dup = (\<lambda>f. f + 100),
     k_mono = 1000, k_real = 0, k_mono2 = 1000, k_instant = 1000\<rparr>"


section \<open>Named objects\<close>

lemma alloc_waitable_keeps:
  assumes "alloc_waitable_handle f efd ev = (h, ev')"
  shows "clients ev' = clients ev" "named_sync ev' = named_sync ev" "has_ntsync ev' = has_ntsync ev"
    "ntsync_objects ev' = ntsync_objects ev"
  using assms
  by (auto simp: alloc_waitable_handle_def new_object_id_def close_fds_def set_handles_def Let_def
      split: if_splits option.splits prod.splits)

lemma client_pid_cong: "clients ev' = clients ev \<Longrightarrow> client_pid ev' f = client_pid ev f"
  by (simp add: client_pid_def)

lemma field_zero: "(ucast (h :: u32) :: u64) = 0 \<longleftrightarrow> h = 0"
  using field_eq_iff[of h 0] by simp

text \<open>A creation with a free name, and one with a name in use.\<close>

lemma create_named_event:
  assumes "handle_create_event lc efd dup mk f rq buf ev = (HReply e [ucast (h :: u32)] [], ev')" and "h \<noteq> 0"
    and "extract_objattr_name lc buf = Some n" and "named_sync ev n = None" and "has_ntsync ev"
    and "\<And>m i. mk m i = Some obj" and "0 \<le> dup obj"
  shows "ntsync_objects ev' (client_pid ev f, h) = Some (obj, EVENT) \<and> named_sync ev' = (named_sync ev)(n \<mapsto> (dup obj, EVENT)) \<and>
    clients ev' = clients ev \<and> has_ntsync ev'"
proof -
  obtain h0 ev1 where a: "alloc_waitable_handle f efd ev = (h0, ev1)" by fastforce
  note k = alloc_waitable_keeps[OF a] client_pid_cong[OF alloc_waitable_keeps(1)[OF a]]
  show ?thesis
    using assms k
    by (auto simp: handle_create_event_def create_object_def a open_existing_def field_eq_iff field_zero put_new_def put_sync_def register_name_def
        Let_def split: if_splits option.splits prod.splits)
qed

lemma create_existing:
  assumes "create_object f efd dup name obj made ev = (HReply e [ucast (h :: u32)] [], ev')" and "h \<noteq> 0"
    and "name = Some n" and "named_sync ev n = Some (d, ty)" and "0 \<le> dup d"
  shows "e = STATUS_OBJECT_NAME_EXISTS \<and> ntsync_objects ev' (client_pid ev f, h) = Some (dup d, ty)"
proof -
  obtain h0 ev1 where a: "alloc_waitable_handle f efd ev = (h0, ev1)" by fastforce
  note k = alloc_waitable_keeps[OF a] client_pid_cong[OF alloc_waitable_keeps(1)[OF a]]
  show ?thesis
    using assms k
    by (auto simp: create_object_def a open_existing_def field_eq_iff field_zero put_sync_def Let_def split: if_splits)
qed

lemma open_existing_name:
  assumes "open_named lc efd dup mk f buf ev = (HReply e [ucast (h :: u32)] [], ev')" and "h \<noteq> 0"
    and "extract_open_name lc buf = Some n" and "named_sync ev n = Some (d, ty)" and "0 \<le> dup d"
  shows "e = 0 \<and> ntsync_objects ev' (client_pid ev f, h) = Some (dup d, ty)"
proof -
  obtain h0 ev1 where a: "alloc_waitable_handle f efd ev = (h0, ev1)" by fastforce
  show ?thesis
    using assms alloc_waitable_keeps[OF a]
    by (auto simp: open_named_def a field_eq_iff field_zero put_sync_def Let_def split: if_splits)
qed

text \<open>
  C30. A named event is one kernel object for everybody.  After a creation under a free name, opening the name
  from any client, or creating it again, which is answered \<^verbatim>\<open>STATUS_OBJECT_NAME_EXISTS\<close>, gives a handle to the same
  kernel object.  \<open>object\<close> is the kernel object behind a descriptor, which duplicating a descriptor keeps.
\<close>

theorem named_event_shared:
  assumes dup: "\<And>d. 0 \<le> dup d" "\<And>d. object (dup d) = object d"
    and dev: "has_ntsync ev" "\<And>m i. mk m i = Some obj"
    and names: "extract_objattr_name lc buf = Some n" "extract_open_name lc obuf = Some n" "named_sync ev n = None"
    and create: "handle_create_event lc efd dup mk f rq buf ev = (HReply e [ucast (h :: u32)] [], ev1)" "h \<noteq> 0"
    and openit: "handle_open_event lc efd' dup mk' f' obuf ev1 = (HReply e' [ucast (h' :: u32)] [], ev2)" "h' \<noteq> 0"
    and again: "handle_create_event lc efd'' dup mk f'' rq' buf ev1 = (HReply e'' [ucast (h'' :: u32)] [], ev3)" "h'' \<noteq> 0"
  shows "\<exists>o1 o2 o3. ntsync_objects ev1 (client_pid ev f, h) = Some (o1, EVENT) \<and>
    ntsync_objects ev2 (client_pid ev f', h') = Some (o2, EVENT) \<and>
    ntsync_objects ev3 (client_pid ev f'', h'') = Some (o3, EVENT) \<and>
    object o1 = object obj \<and> object o2 = object obj \<and> object o3 = object obj \<and>
    e' = 0 \<and> e'' = STATUS_OBJECT_NAME_EXISTS"
proof -
  note c = create_named_event[OF create names(1,3) dev dup(1)]
  have n: "named_sync ev1 n = Some (dup obj, EVENT)" using c by simp
  have p: "client_pid ev1 x = client_pid ev x" for x using client_pid_cong[of ev1 ev] c by simp
  note o = open_existing_name[OF openit[unfolded handle_open_event_def] names(2) n dup(1)]
  note a = create_existing[OF again(1)[unfolded handle_create_event_def names(1) Let_def split_beta] again(2) refl n dup(1)]
  show ?thesis using c o a by (auto simp: p dup(2))
qed

text \<open>The handles the example client gets.\<close>

lemma alloc_waitable_next:
  assumes "nonzero_pid ev f = Some pid" and "processes (srv ev) pid = Some p" and "0 \<le> efd"
  shows "\<exists>ev' p'. alloc_waitable_handle f efd ev = (push_bit 2 (bump (ht_slab (handles p))), ev') \<and>
    processes (srv ev') pid = Some p' \<and> bump (ht_slab (handles p')) = bump (ht_slab (handles p)) + 1"
proof -
  have "nonzero_pid (ev\<lparr>srv := s\<rparr>) f = Some pid" for s using assms(1) by (simp add: nonzero_pid_def)
  then show ?thesis
    using assms(2,3)
    by (simp add: alloc_waitable_handle_def new_object_id_def alloc_object_id_def set_handles_def allocate_full_def insert_bump_def Let_def)
qed

lemma create_object_reply:
  assumes "alloc_waitable_handle f efd ev = (h, ev1)" and "h \<noteq> 0" and "\<And>pid h o' ev. srv (made pid h o' ev) = srv ev"
  shows "\<exists>e ev'. create_object f efd dup name obj made ev = (HReply e [ucast h] [], ev') \<and> srv ev' = srv ev1"
  using assms by (auto simp: create_object_def open_existing_def put_sync_def Let_def split: option.splits bind_splits)

lemma create_event_reply:
  assumes "alloc_waitable_handle f efd ev = (h, ev1)" and "h \<noteq> 0"
  shows "\<exists>e ev'. handle_create_event lc efd dup mk f rq buf ev = (HReply e [ucast h] [], ev') \<and> srv ev' = srv ev1"
  unfolding handle_create_event_def Let_def split_beta
  by (rule create_object_reply[OF assms])
    (simp add: insert_recyclable_event_def put_sync_def put_new_def register_name_def split: option.splits)

definition event_named_a :: bytes where
  "event_named_a = replicate 76 0 @ [2, 0, 0, 0, 65, 0]"

definition open_named_a :: bytes where
  "open_named_a = replicate 64 0 @ [97, 0]"

definition dup_of :: "fd \<Rightarrow> fd" where
  "dup_of d = d mod 1000 + 1000"

theorem named_event_shared_witness:
  "\<exists>h h' ev1 ev2. (\<exists>e. handle_create_event ascii_lower 60 dup_of (\<lambda>_ _. Some 70) 5 None event_named_a one_client = (HReply e [ucast h] [], ev1)) \<and>
     handle_open_event ascii_lower 61 dup_of (\<lambda>_ _. None) 5 open_named_a ev1 = (HReply 0 [ucast (h' :: u32)] [], ev2) \<and>
     (\<exists>o1 o2. ntsync_objects ev1 (32, h) = Some (o1, EVENT) \<and> ntsync_objects ev2 (32, h') = Some (o2, EVENT) \<and> o2 mod 1000 = 70)"
proof -
  let ?p = "(process_new 32)\<lparr>threads := [36]\<rparr>"
  have ids: "nonzero_pid one_client 5 = Some 32" "client_pid one_client 5 = 32"
    by (simp_all add: nonzero_pid_def client_pid_def)
  have n: "extract_objattr_name ascii_lower event_named_a = Some [97]" "extract_open_name ascii_lower open_named_a = Some [97]"
    by code_simp+
  have nz: "(4 :: u32) \<noteq> 0" "(8 :: u32) \<noteq> 0" by simp_all
  have s: "named_sync one_client [97] = None" by (simp add: one_client_def event_loop_init_def)
  obtain ev0 p0 where a0: "alloc_waitable_handle 5 60 one_client = (4, ev0)"
    and p0: "processes (srv ev0) 32 = Some p0" "bump (ht_slab (handles p0)) = 2"
    using alloc_waitable_next[OF ids(1), of ?p 60] by (auto simp: process_new_def handle_table_new_bump)
  obtain e ev1 where c: "handle_create_event ascii_lower 60 dup_of (\<lambda>_ _. Some 70) 5 None event_named_a one_client = (HReply e [ucast (4 :: u32)] [], ev1)"
    and v1: "srv ev1 = srv ev0" using create_event_reply[OF a0 nz(1)] by blast
  have dup: "0 \<le> dup_of d" "dup_of d mod 1000 = d mod 1000" for d by (simp_all add: dup_of_def)
  have k: "clients ev1 = clients one_client" "named_sync ev1 [97] = Some (dup_of 70, EVENT)"
    using create_named_event[OF c _ n(1) s _ _ dup(1)] by simp_all
  have ids1: "nonzero_pid ev1 5 = Some 32" using ids(1) k(1) by (simp add: nonzero_pid_def)
  obtain ev1' where a1: "alloc_waitable_handle 5 61 ev1 = (8, ev1')"
    using alloc_waitable_next[OF ids1, of p0 61] p0 v1 by auto
  obtain e' ev2 where o: "handle_open_event ascii_lower 61 dup_of (\<lambda>_ _. None) 5 open_named_a ev1 = (HReply e' [ucast (8 :: u32)] [], ev2)"
    by (simp add: handle_open_event_def open_named_def n k a1 Let_def)
  obtain e'' ev3 where g: "handle_create_event ascii_lower 61 dup_of (\<lambda>_ _. Some 70) 5 None event_named_a ev1 = (HReply e'' [ucast (8 :: u32)] [], ev3)"
    using create_event_reply[OF a1 nz(2)] by blast
  from named_event_shared[where object = "\<lambda>d. d mod 1000", OF dup _ _ n s c _ o _ g] ids c o show ?thesis by fastforce
qed

text \<open>
  C39. Names are shared by all kinds of objects: creating a mutex under the name of an event succeeds and gives a
  handle to the event.
\<close>

theorem mutex_named_like_event:
  assumes "named_sync ev n = Some (d, EVENT)" and "extract_objattr_name lc buf = Some n" and "0 \<le> dup d"
    and "handle_create_mutex lc efd dup mk f rq buf ev = (HReply e [ucast (h :: u32)] [], ev')" and "h \<noteq> 0"
  shows "e = STATUS_OBJECT_NAME_EXISTS \<and> ntsync_objects ev' (client_pid ev f, h) = Some (dup d, EVENT)"
  by (rule create_existing[OF assms(4)[unfolded handle_create_mutex_def assms(2) Let_def split_beta] assms(5) refl assms(1,3)])
theorem mutex_named_like_event_witness:
  "\<exists>h ev'. handle_create_mutex ascii_lower 60 dup_of (\<lambda>_ _. Some 71) 5 None event_named_a (one_client\<lparr>named_sync := [[97] \<mapsto> (70, EVENT)]\<rparr>) =
       (HReply STATUS_OBJECT_NAME_EXISTS [ucast (h :: u32)] [], ev') \<and> ntsync_objects ev' (32, h) = Some (1070, EVENT)"
proof -
  let ?ev = "one_client\<lparr>named_sync := [[97] \<mapsto> (70, EVENT)]\<rparr>"
  have ids: "nonzero_pid ?ev 5 = Some 32" "client_pid ?ev 5 = 32" by (simp_all add: nonzero_pid_def client_pid_def)
  have n: "extract_objattr_name ascii_lower event_named_a = Some [97]" by code_simp
  obtain ev0 where a: "alloc_waitable_handle 5 60 ?ev = (4, ev0)"
    using alloc_waitable_next[OF ids(1), of "(process_new 32)\<lparr>threads := [36]\<rparr>" 60]
    by (auto simp: process_new_def handle_table_new_bump)
  obtain e ev' where c: "handle_create_mutex ascii_lower 60 dup_of (\<lambda>_ _. Some 71) 5 None event_named_a ?ev = (HReply e [ucast (4 :: u32)] [], ev')"
    unfolding handle_create_mutex_def Let_def split_beta
    using create_object_reply[OF a, of "\<lambda>pid h obj ev. put_new (pid, h) obj MUTEX (register_name dup_of (extract_objattr_name ascii_lower event_named_a) obj MUTEX ev)"]
    by (fastforce simp: put_new_def put_sync_def register_name_def split: option.splits)
  from mutex_named_like_event[OF _ n _ c] ids c show ?thesis by (fastforce simp: dup_of_def)
qed

section \<open>What goes wrong\<close>

text \<open>The APCs of a thread are kept in a queue but delivered last in, first out.\<close>

lemma apcs_delivered_newest_first:
  assumes "pending_kernel_apcs ev f = Some [a, b]"
  shows "\<exists>s h ev'. handle_select k f (Some rq) buf ev = Some (HReply s [h, 1] b, None, ev') \<and>
    pending_kernel_apcs ev' f = Some [a]"
proof -
  obtain h ev1 where h: "alloc_apc_handle (client_pid (ev\<lparr>pending_kernel_apcs := (pending_kernel_apcs ev)(f \<mapsto> [a])\<rparr>) f)
      (ev\<lparr>pending_kernel_apcs := (pending_kernel_apcs ev)(f \<mapsto> [a])\<rparr>) = (h, ev1)" by fastforce
  then have "pending_kernel_apcs ev1 f = Some [a]"
    by (auto simp: alloc_apc_handle_def new_object_id_def set_handles_def Let_def split: option.splits prod.splits)
  then show ?thesis
    using assms h by (auto simp: handle_select_def take_apc_def deliver_apc_def Let_def update_client_def split: option.splits)
qed

text \<open>A wait that acquires an abandoned mutex (error 130, \<^verbatim>\<open>EOWNERDEAD\<close>) is reported as timed out.\<close>

lemma abandoned_mutex_reported_as_timeout:
  assumes "k all (map word_of_int fds) timeout owner alert = (- 1, index, 130)" and "fds \<noteq> []"
  shows "worker_finish (do_wait_inner k all fds timeout owner alert) False False w =
    (Some (w_wait_fd w, wake_up_reply (w_cookie w) STATUS_TIMEOUT), False)"
  using assms by (simp add: do_wait_inner_def worker_finish_def ETIMEDOUT_def ECANCELED_def)

text \<open>A sleep without end ends after a day.\<close>

lemma infinite_sleep_ends: "sleep_deadline k (compute_ntsync_timeout clock now i64_max) = k_instant k + DAY_NS"
  by (simp add: sleep_deadline_def compute_ntsync_timeout_def)
end
