(* ===== verification/Disconnect.thy ===== *)
theory Disconnect
  imports Completion
begin

text \<open>
  \<^verbatim>\<open>triskelion/event_loop/client.rs\<close>: what happens when a client disconnects, and, with the last thread
  of a process, when a process ends.  Where the code iterates over a hash table and the order
  shows, the order is an argument: \<open>d_objects\<close> lists the keys of the kernel objects, \<open>d_infos\<close> those of
  the process information handles and \<open>d_pipes\<close> the names of the pipes.  \<open>d_efd\<close> are the descriptors
  created for queues, by thread, and \<open>d_now\<close> is the clock in milliseconds.  Dropping the last reference
  to a kernel object closes it; such closes are not recorded.
\<close>

record disconnect_env =
  d_objects :: "(u32 \<times> u32) list"
  d_infos :: "u32 list"
  d_pipes :: "ustr list"
  d_efd :: "u32 \<Rightarrow> fd"
  d_now :: nat

section \<open>The thread\<close>

text \<open>The type code of mutexes among the kernel objects.\<close>

definition SYNC_MUTEX :: u32 where "SYNC_MUTEX = 3"

definition abandon_mutexes :: "(u32 \<times> u32) list \<Rightarrow> u32 \<Rightarrow> u32 \<Rightarrow> 'a el_objects_scheme \<Rightarrow> 'a el_objects_scheme" where
  "abandon_mutexes keys pid tid ev =
     sync (concat (map (\<lambda>k. case ntsync_objects ev k of
             Some (obj, ty) \<Rightarrow> if ty = SYNC_MUTEX then [KillMutex obj tid] else []
           | None \<Rightarrow> []) (filter (\<lambda>k. fst k = pid) keys))) ev"

definition forget_client :: "fd \<Rightarrow> 'a el_objects_scheme \<Rightarrow> 'a el_objects_scheme" where
  "forget_client f ev =
     ev\<lparr>client_alerts := (client_alerts ev)(f := None),
        client_worker_interrupts := (client_worker_interrupts ev)(f := None),
        client_apc_flags := (client_apc_flags ev)(f := None)\<rparr>"

text \<open>Dropping the record of the client closes its descriptors.\<close>

definition remove_client :: "fd \<Rightarrow> 'a authority_scheme \<Rightarrow> 'a authority_scheme" where
  "remove_client f ev =
     (case client_at ev f of
        None \<Rightarrow> ev
      | Some c \<Rightarrow> close_fds (client_drop c) (ev\<lparr>clients := filter (\<lambda>(g, _). g \<noteq> f) (clients ev)\<rparr>))"

definition forget_pipe_waiters :: "u32 \<Rightarrow> 'a el_waits_scheme \<Rightarrow> 'a el_waits_scheme" where
  "forget_pipe_waiters pid ev =
     ev\<lparr>pending_pipe_waiters := (\<lambda>n. case pending_pipe_waiters ev n of
          None \<Rightarrow> None
        | Some ws \<Rightarrow> let ws = filter (\<lambda>w. ppw_pid w \<noteq> pid) ws in if ws = [] then None else Some ws)\<rparr>"

text \<open>The thread leaves its process, and so do the threads that never connected.\<close>

definition leave_process :: "u32 \<Rightarrow> u32 \<Rightarrow> 'a el_objects_scheme \<Rightarrow> 'a el_objects_scheme" where
  "leave_process pid tid ev =
     (case processes (srv ev) pid of
        None \<Rightarrow> ev
      | Some p \<Rightarrow>
        let connected = map (\<lambda>(_, c). thread_id c) (filter (\<lambda>(_, c). process_id c = pid \<and> thread_id c \<noteq> 0) (clients ev));
            ts = filter (\<lambda>t. t \<in> set connected) (filter (\<lambda>t. t \<noteq> tid) (threads p))
        in ev\<lparr>srv := (srv ev)\<lparr>processes := (processes (srv ev))(pid \<mapsto> p\<lparr>threads := ts\<rparr>)\<rparr>\<rparr>)"

definition QS_SMRESULT :: u32 where "QS_SMRESULT = 0x8000"

fun wake_senders :: "(u32 \<Rightarrow> fd) \<Rightarrow> u32 list \<Rightarrow> 'a event_loop_scheme \<Rightarrow> 'a event_loop_scheme option" where
  "wake_senders efd [] ev = Some ev"
| "wake_senders efd (t # ts) ev = do {
     ev \<leftarrow> set_queue_bits_for_tid t QS_SMRESULT (efd t) ev;
     wake_senders efd ts ev }"

definition drain_receiver :: "(u32 \<Rightarrow> fd) \<Rightarrow> u32 \<Rightarrow> 'a event_loop_scheme \<Rightarrow> 'a event_loop_scheme option" where
  "drain_receiver efd tid ev =
     (let (ts, sm) = drain_all_for_receiver (sent_tracker ev) tid in wake_senders efd ts (ev\<lparr>sent_tracker := sm\<rparr>))"

definition forget_thread :: "u32 \<Rightarrow> 'a event_loop_scheme \<Rightarrow> 'a event_loop_scheme" where
  "forget_thread tid ev =
     ev\<lparr>caret_state := (caret_state ev)(tid := None), next_timer_ids := (next_timer_ids ev)(tid := None),
        thread_quit_state := (thread_quit_state ev)(tid := None)\<rparr>"

definition forget_requests :: "fd \<Rightarrow> 'a el_waits_scheme \<Rightarrow> 'a el_waits_scheme" where
  "forget_requests f ev =
     ev\<lparr>deferred_event_signals := (deferred_event_signals ev)(f := None), pending_wakes := (pending_wakes ev)(f := None),
        pending_kernel_apcs := (pending_kernel_apcs ev)(f := None),
        thread_completion_cache := (thread_completion_cache ev)(f := None),
        completion_waiters := (\<lambda>p. map_option (filter (\<lambda>w. cw_client_fd w \<noteq> f)) (completion_waiters ev p))\<rparr>"

definition signal_exits :: "(u32 \<times> u32 \<times> fd) list \<Rightarrow> 'a el_objects_scheme \<Rightarrow> 'a el_objects_scheme" where
  "signal_exits es ev = sync (map (\<lambda>(_, _, obj). SetEvent obj) es) ev"

definition signal_thread_exit :: "fd \<Rightarrow> 'a el_objects_scheme \<Rightarrow> 'a el_objects_scheme" where
  "signal_thread_exit f ev =
     (case thread_exit_events ev f of
        None \<Rightarrow> ev
      | Some es \<Rightarrow> signal_exits es (ev\<lparr>thread_exit_events := (thread_exit_events ev)(f := None)\<rparr>))"

section \<open>The process\<close>

definition other :: "u32 \<Rightarrow> (u32 \<times> 'k \<rightharpoonup> 'v) \<Rightarrow> (u32 \<times> 'k \<rightharpoonup> 'v)" where
  "other pid m = (\<lambda>k. if fst k = pid then None else m k)"

definition close_inflight :: "u32 \<Rightarrow> 'a authority_scheme \<Rightarrow> 'a authority_scheme" where
  "close_inflight pid ev =
     (case process_inflight_fds ev pid of
        None \<Rightarrow> ev
      | Some pool \<Rightarrow> close_fds (map (\<lambda>(_, _, d). d) pool)
                      (ev\<lparr>process_inflight_fds := (process_inflight_fds ev)(pid := None)\<rparr>))"

definition purge_objects :: "u32 \<Rightarrow> 'a el_objects_scheme \<Rightarrow> 'a el_objects_scheme" where
  "purge_objects pid ev =
     (let (fds, t) = purge_pid (side ev) pid in
      close_fds fds
        (ev\<lparr>ntsync_objects := other pid (ntsync_objects ev),
            ntsync_recyclable := {k \<in> ntsync_recyclable ev. fst k \<noteq> pid}, side := t\<rparr>))"

definition purge_waits :: "u32 \<Rightarrow> ustr list \<Rightarrow> 'a el_waits_scheme \<Rightarrow> 'a el_waits_scheme" where
  "purge_waits pid names ev =
     (let pipes = map (\<lambda>n. case named_pipes ev n of None \<Rightarrow> [] | Some is \<Rightarrow> is) names;
          fds = map ar_pipe_fd (filter (\<lambda>r. ar_pid r = pid) (pending_pipe_reads ev)) @
                map np_client_data_fd (filter (\<lambda>i. np_server_pid i = pid) (concat pipes))
      in close_fds fds
        (ev\<lparr>pending_reads := other pid (pending_reads ev),
            completed_ioctls := other pid (completed_ioctls ev),
            kernel_object_ptrs := filter (\<lambda>((p, _), _). p \<noteq> pid) (kernel_object_ptrs ev),
            nt_timers := filter (\<lambda>(p, _). p \<noteq> pid) (nt_timers ev),
            pending_pipe_reads := filter (\<lambda>r. ar_pid r \<noteq> pid) (pending_pipe_reads ev),
            completed_pipe_reads := filter (\<lambda>r. cr_pid r \<noteq> pid) (completed_pipe_reads ev),
            named_pipes := (\<lambda>n. case named_pipes ev n of
                None \<Rightarrow> None
              | Some is \<Rightarrow> let is = filter (\<lambda>i. np_server_pid i \<noteq> pid) is in if is = [] then None else Some is)\<rparr>))"

definition dead_tid :: "u32 \<Rightarrow> 'a el_objects_scheme \<Rightarrow> u32 \<Rightarrow> bool" where
  "dead_tid pid ev t = (case srv_threads (srv ev) t of None \<Rightarrow> False | Some th \<Rightarrow> thr_pid th = pid)"

definition dead_window :: "u32 \<Rightarrow> 'a event_loop_scheme \<Rightarrow> u32 \<Rightarrow> bool" where
  "dead_window pid ev h = (case window_states ev h of None \<Rightarrow> False | Some ws \<Rightarrow> dead_tid pid ev (ws_tid ws))"

text \<open>The windows of the threads of the process.  The timer tables are keyed by threads, the removal goes by
  window.\<close>

definition purge_windows :: "u32 \<Rightarrow> 'a event_loop_scheme \<Rightarrow> 'a event_loop_scheme" where
  "purge_windows pid ev =
     (let dead = dead_window pid ev in
      ev\<lparr>window_states := (\<lambda>h. if dead h then None else window_states ev h),
         window_properties := (\<lambda>k. if dead (fst k) then None else window_properties ev k),
         clipboard_listeners := {h \<in> clipboard_listeners ev. \<not> dead h},
         win_timers_pending := (\<lambda>h. if dead h then None else win_timers_pending ev h),
         win_timers_expired := (\<lambda>h. if dead h then None else win_timers_expired ev h)\<rparr>)"

text \<open>A process that ends before it was initialised signals the handles its parent waits on.\<close>

definition signal_early_death :: "u32 \<Rightarrow> u32 list \<Rightarrow> 'a el_objects_scheme \<Rightarrow> 'a el_objects_scheme" where
  "signal_early_death pid infos =
     fold (\<lambda>h ev. case process_info_handles (srv ev) h of
             Some v \<Rightarrow> if target_pid v = pid then signal (pih_parent_pid v, h) ev else ev
           | None \<Rightarrow> ev) infos"

definition signal_process_exit :: "u32 \<Rightarrow> 'a el_objects_scheme \<Rightarrow> 'a el_objects_scheme" where
  "signal_process_exit pid ev =
     (let ev = (case process_idle_events ev pid of
                  None \<Rightarrow> ev
                | Some obj \<Rightarrow> sync [SetEvent obj] (ev\<lparr>process_idle_events := (process_idle_events ev)(pid := None)\<rparr>))
      in case process_exit_events ev pid of
           None \<Rightarrow> ev
         | Some es \<Rightarrow> signal_exits es (ev\<lparr>process_exit_events := (process_exit_events ev)(pid := None)\<rparr>))"

subsection \<open>Jobs\<close>

definition JOB_OBJECT_MSG_EXIT_PROCESS :: u32 where "JOB_OBJECT_MSG_EXIT_PROCESS = 4"
definition JOB_OBJECT_MSG_ACTIVE_PROCESS_ZERO :: u32 where "JOB_OBJECT_MSG_ACTIVE_PROCESS_ZERO = 8"

definition job_remove_process :: "u32 \<Rightarrow> job \<Rightarrow> job" where
  "job_remove_process pid j =
     j\<lparr>job_processes := filter (\<lambda>p. p \<noteq> pid) (job_processes j),
       num_processes := if num_processes j = 0 then 0 else num_processes j - 1\<rparr>"

definition push_message :: "u32 \<Rightarrow> completion_msg \<Rightarrow> 'a el_waits_scheme \<Rightarrow> 'a el_waits_scheme" where
  "push_message port m ev =
     ev\<lparr>completion_queues := (completion_queues ev)(port \<mapsto>
          (case completion_queues ev port of None \<Rightarrow> [] | Some q \<Rightarrow> q) @ [m])\<rparr>"

text \<open>One popped waiter takes the first message, if there is one.\<close>

definition serve_waiter :: "u32 \<Rightarrow> completion_waiter \<Rightarrow> 'a el_waits_scheme \<Rightarrow> 'a el_waits_scheme" where
  "serve_waiter port w ev =
     (case completion_queues ev port of
        Some (m # ms) \<Rightarrow>
          signal (cw_pid w, cw_wait_handle w)
            (ev\<lparr>completion_queues := (completion_queues ev)(port \<mapsto> ms),
                thread_completion_cache := (thread_completion_cache ev)(cw_client_fd w \<mapsto> m)\<rparr>)
      | _ \<Rightarrow> ev)"

definition serve_waiters :: "u32 \<Rightarrow> 'a el_waits_scheme \<Rightarrow> 'a el_waits_scheme" where
  "serve_waiters port ev =
     (case completion_waiters ev port of
        None \<Rightarrow> ev
      | Some ws \<Rightarrow> fold (serve_waiter port) (rev ws) (ev\<lparr>completion_waiters := (completion_waiters ev)(port := None)\<rparr>))"

definition job_exit :: "u32 \<Rightarrow> 'a el_waits_scheme \<Rightarrow> 'a el_waits_scheme" where
  "job_exit pid ev =
     (case process_job ev pid of
        None \<Rightarrow> ev
      | Some oid \<Rightarrow>
        let ev = ev\<lparr>process_job := (process_job ev)(pid := None)\<rparr>;
            info = do { j \<leftarrow> jobs ev oid; port \<leftarrow> completion_port_handle j; Some (port, completion_key j) };
            ev = update_job oid (job_remove_process pid) ev
        in case info of
             None \<Rightarrow> ev
           | Some (port, key) \<Rightarrow>
             let ev = push_message port \<lparr>ckey = key, cvalue = ucast pid, information = 0,
                                         cstatus = JOB_OBJECT_MSG_EXIT_PROCESS\<rparr> ev;
                 ev = (case jobs ev oid of
                         Some j \<Rightarrow> if num_processes j = 0
                           then push_message port \<lparr>ckey = key, cvalue = 0, information = 0,
                                                   cstatus = JOB_OBJECT_MSG_ACTIVE_PROCESS_ZERO\<rparr> ev
                           else ev
                       | None \<Rightarrow> ev)
             in serve_waiters port ev)"

subsection \<open>The end of the process\<close>

text \<open>When no user process is left the system processes are told to stop and the server lingers for five
  seconds; saving the registry is I/O.\<close>

definition user_process_alive :: "'a event_loop_scheme \<Rightarrow> bool" where
  "user_process_alive ev \<longleftrightarrow> (\<exists>q p. processes (srv ev) q = Some p \<and> q \<notin> system_pids ev \<and> threads p \<noteq> [])"

definition check_last_user :: "nat \<Rightarrow> u32 \<Rightarrow> 'a event_loop_scheme \<Rightarrow> 'a event_loop_scheme" where
  "check_last_user now pid ev =
     (if pid \<in> system_pids ev \<or> user_process_alive ev then ev
      else
        let ev = (case shutdown_event ev of None \<Rightarrow> ev | Some obj \<Rightarrow> sync [SetEvent obj] ev)
        in ev\<lparr>linger_deadline := Some (now + 5000)\<rparr>)"

definition forget_process :: "u32 \<Rightarrow> u32 list \<Rightarrow> 'a event_loop_scheme \<Rightarrow> 'a event_loop_scheme" where
  "forget_process pid infos ev =
     (let s = srv ev;
          dead = (\<lambda>v. target_pid v = pid);
          fds = concat (map (\<lambda>h. case process_info_handles s h of
                  Some v \<Rightarrow> if dead v \<and> 0 \<le> ntsync_obj_fd v then [ntsync_obj_fd v] else []
                | None \<Rightarrow> []) infos)
      in close_fds fds
        (ev\<lparr>system_pids := system_pids ev - {pid},
            srv := s\<lparr>image_views := other pid (image_views s),
                     process_info_handles := (\<lambda>h. case process_info_handles s h of
                         None \<Rightarrow> None | Some v \<Rightarrow> if dead v then None else Some v),
                     srv_threads := (\<lambda>t. if dead_tid pid ev t then None else srv_threads s t),
                     processes := (processes s)(pid := None)\<rparr>\<rparr>))"

definition mark_exited :: "u32 \<Rightarrow> 'a el_objects_scheme \<Rightarrow> 'a el_objects_scheme" where
  "mark_exited pid ev =
     (case processes (srv ev) pid of
        None \<Rightarrow> ev
      | Some p \<Rightarrow> ev\<lparr>srv := (srv ev)\<lparr>processes := (processes (srv ev))(pid \<mapsto> p\<lparr>exit_code := 0, startup_done := True\<rparr>)\<rparr>\<rparr>)"

definition end_process :: "disconnect_env \<Rightarrow> u32 \<Rightarrow> fd \<Rightarrow> 'a event_loop_scheme \<Rightarrow> 'a event_loop_scheme" where
  "end_process e pid msg_fd ev =
     (let ev = ev\<lparr>msg_fd_map := (msg_fd_map ev)(msg_fd := None)\<rparr>;
          ev = close_inflight pid ev;
          ev = purge_objects pid ev;
          ev = ev\<lparr>process_winstations := (process_winstations ev)(pid := None)\<rparr>;
          ev = purge_waits pid (d_pipes e) ev;
          ev = purge_windows pid ev;
          ev = ev\<lparr>reg := remove_notifications_for_pid (reg ev) pid\<rparr>;
          did_init = (case processes (srv ev) pid of None \<Rightarrow> False | Some p \<Rightarrow> startup_done p);
          ev = mark_exited pid ev;
          ev = (if did_init then ev else signal_early_death pid (d_infos e) ev);
          ev = signal_process_exit pid ev;
          ev = job_exit pid ev;
          ev = check_last_user (d_now e) pid ev
      in forget_process pid (d_infos e) ev)"

section \<open>Disconnecting\<close>

definition end_thread :: "disconnect_env \<Rightarrow> fd \<Rightarrow> u32 \<Rightarrow> u32 \<Rightarrow> 'a event_loop_scheme \<Rightarrow> 'a event_loop_scheme option" where
  "end_thread e f pid tid ev =
     (let ev = forget_client f ev;
          ev = (if tid \<noteq> 0 then abandon_mutexes (d_objects e) pid tid ev else ev);
          ev = remove_client f ev;
          ev = (if tid \<noteq> 0 then ev\<lparr>shm := free_slot (shm ev) tid\<rparr> else ev);
          ev = (if pid \<noteq> 0 then forget_pipe_waiters pid ev else ev);
          ev = (if pid \<noteq> 0 \<and> tid \<noteq> 0 then leave_process pid tid ev else ev)
      in do {
        ev \<leftarrow> (if tid \<noteq> 0 then drain_receiver (d_efd e) tid ev else Some ev);
        let ev = (if tid \<noteq> 0 then forget_thread tid ev else ev);
        Some (signal_thread_exit f (forget_requests f ev)) })"

definition remaining_threads :: "u32 \<Rightarrow> 'a el_objects_scheme \<Rightarrow> nat" where
  "remaining_threads pid ev =
     (if pid = 0 then 0 else case processes (srv ev) pid of None \<Rightarrow> 0 | Some p \<Rightarrow> length (threads p))"

definition disconnect_client :: "disconnect_env \<Rightarrow> fd \<Rightarrow> 'a event_loop_scheme \<Rightarrow> 'a event_loop_scheme option" where
  "disconnect_client e f ev =
     (let (pid, tid, msg_fd) = (case client_at ev f of
            None \<Rightarrow> (0, 0, - 1) | Some c \<Rightarrow> (process_id c, thread_id c, c_msg_fd c))
      in do {
        ev \<leftarrow> end_thread e f pid tid ev;
        Some (if pid \<noteq> 0 \<and> tid \<noteq> 0 \<and> remaining_threads pid ev = 0 then end_process e pid msg_fd ev else ev) })"

end
