(* ===== verification/DisconnectProps.thy ===== *)
theory DisconnectProps
  imports Disconnect SyncProps
begin

text \<open>
  A process that ends is forgotten: no table of the server mentions it any more, and the tables of
  the other processes keep their entries.
\<close>

section \<open>What the steps leave alone\<close>

text \<open>The tables with entries of processes, apart from the three that the exit of a process changes.\<close>

definition tables where
  "tables ev = (clients ev, srv ev, reg ev, side ev, ntsync_objects ev, ntsync_recyclable ev, process_inflight_fds ev,
     process_winstations ev, pending_reads ev, completed_ioctls ev, kernel_object_ptrs ev, nt_timers ev, pending_pipe_reads ev,
     completed_pipe_reads ev, named_pipes ev, pending_pipe_waiters ev, system_pids ev, pending_waits ev, authority.closed ev)"

definition exits where
  "exits ev = (process_job ev, process_idle_events ev, process_exit_events ev)"

named_theorems tabs

lemma signal_tabs [tabs]: "tables (signal k ev) = tables ev" "exits (signal k ev) = exits ev"
  by (simp_all add: signal_def sync_def tables_def exits_def split: option.splits prod.splits)

lemma sync_tabs [tabs]: "tables (sync os ev) = tables ev" "exits (sync os ev) = exits ev"
  by (simp_all add: sync_def tables_def exits_def)

lemma early_death_tabs [tabs]:
  "tables (signal_early_death pid infos ev) = tables ev" "exits (signal_early_death pid infos ev) = exits ev"
proof -
  have "tables (signal_early_death pid infos ev) = tables ev \<and> exits (signal_early_death pid infos ev) = exits ev"
  proof (induction infos arbitrary: ev)
    case Nil
    show ?case by (simp add: signal_early_death_def)
  next
    case (Cons h infos)
    show ?case
      using Cons.IH[of "case process_info_handles (srv ev) h of
             Some v \<Rightarrow> if target_pid v = pid then signal (pih_parent_pid v, h) ev else ev | None \<Rightarrow> ev"]
      by (auto simp: signal_early_death_def tabs split: option.splits if_splits)
  qed
  then show "tables (signal_early_death pid infos ev) = tables ev" "exits (signal_early_death pid infos ev) = exits ev" by simp_all
qed

lemma process_exit_tabs [tabs]:
  "tables (signal_process_exit pid ev) = tables ev"
  "exits (signal_process_exit pid ev) =
     (process_job ev, (process_idle_events ev)(pid := None), (process_exit_events ev)(pid := None))"
  by (simp_all add: signal_process_exit_def signal_exits_def sync_def tables_def exits_def fun_upd_idem split: option.splits)

lemma last_user_tabs [tabs]:
  "tables (check_last_user now pid ev) = tables ev" "exits (check_last_user now pid ev) = exits ev"
  by (simp_all add: check_last_user_def sync_def tables_def exits_def Let_def split: option.splits)

lemma serve_waiter_tabs [tabs]:
  "tables (serve_waiter port w ev) = tables ev" "exits (serve_waiter port w ev) = exits ev"
  by (simp_all add: serve_waiter_def tabs split: option.splits list.splits) (simp_all add: tables_def exits_def)

lemma serve_fold_tabs [tabs]:
  "tables (fold (serve_waiter port) ws ev) = tables ev" "exits (fold (serve_waiter port) ws ev) = exits ev"
  by (induction ws arbitrary: ev) (simp_all add: tabs)

lemma serve_waiters_tabs [tabs]:
  "tables (serve_waiters port ev) = tables ev" "exits (serve_waiters port ev) = exits ev"
  by (simp_all add: serve_waiters_def tabs split: option.splits) (simp_all add: tables_def exits_def)

lemma push_message_tabs [tabs]:
  "tables (push_message port m ev) = tables ev" "exits (push_message port m ev) = exits ev"
  by (simp_all add: push_message_def tables_def exits_def)

lemma update_job_tabs [tabs]:
  "tables (update_job oid g ev) = tables ev" "exits (update_job oid g ev) = exits ev"
  by (simp_all add: update_job_def tables_def exits_def split: option.splits)

lemma job_exit_tabs [tabs]:
  "tables (job_exit pid ev) = tables ev"
  "exits (job_exit pid ev) = ((process_job ev)(pid := None), process_idle_events ev, process_exit_events ev)"
proof -
  let ?ev = "ev\<lparr>process_job := (process_job ev)(pid := None)\<rparr>"
  have t: "tables ?ev = tables ev" "exits ?ev = ((process_job ev)(pid := None), process_idle_events ev, process_exit_events ev)"
    by (simp_all add: tables_def exits_def)
  show "tables (job_exit pid ev) = tables ev"
    "exits (job_exit pid ev) = ((process_job ev)(pid := None), process_idle_events ev, process_exit_events ev)"
    using t by (simp_all add: job_exit_def tabs Let_def split: option.splits) (simp_all add: exits_def fun_upd_idem)
qed

section \<open>A process that ends\<close>

definition process_gone :: "u32 \<Rightarrow> 'a event_loop_scheme \<Rightarrow> bool" where
  "process_gone pid ev \<longleftrightarrow>
     processes (srv ev) pid = None \<and> (\<forall>t. \<not> dead_tid pid ev t) \<and> (\<forall>b. image_views (srv ev) (pid, b) = None) \<and>
     (\<forall>h v. process_info_handles (srv ev) h = Some v \<longrightarrow> target_pid v \<noteq> pid) \<and>
     (\<forall>h. ntsync_objects ev (pid, h) = None) \<and> (\<forall>h. (pid, h) \<notin> ntsync_recyclable ev) \<and> (\<forall>h. (pid, h) \<notin> side_keys (side ev)) \<and>
     (\<forall>a. pending_reads ev (pid, a) = None) \<and> (\<forall>a. completed_ioctls ev (pid, a) = None) \<and>
     (\<forall>((p, _), _)\<in>set (kernel_object_ptrs ev). p \<noteq> pid) \<and> (\<forall>(p, _)\<in>set (nt_timers ev). p \<noteq> pid) \<and>
     (\<forall>r\<in>set (pending_pipe_reads ev). ar_pid r \<noteq> pid) \<and> (\<forall>r\<in>set (completed_pipe_reads ev). cr_pid r \<noteq> pid) \<and>
     (\<forall>n is. named_pipes ev n = Some is \<longrightarrow> (\<forall>i\<in>set is. np_server_pid i \<noteq> pid)) \<and>
     (\<forall>n\<in>set (notify_list (reg ev)). n_pid n \<noteq> pid) \<and>
     process_inflight_fds ev pid = None \<and> process_winstations ev pid = None \<and> pid \<notin> system_pids ev \<and>
     process_job ev pid = None \<and> process_idle_events ev pid = None \<and> process_exit_events ev pid = None"

text \<open>The state after the tables were purged and before the exit is announced.\<close>

definition purged :: "disconnect_env \<Rightarrow> u32 \<Rightarrow> fd \<Rightarrow> 'a event_loop_scheme \<Rightarrow> 'a event_loop_scheme" where
  "purged e pid msg_fd ev =
     (let ev = close_inflight pid (ev\<lparr>msg_fd_map := (msg_fd_map ev)(msg_fd := None)\<rparr>);
          ev = purge_objects pid ev;
          ev = ev\<lparr>process_winstations := (process_winstations ev)(pid := None)\<rparr>;
          ev = purge_waits pid (d_pipes e) ev;
          ev = purge_windows pid ev
      in ev\<lparr>reg := remove_notifications_for_pid (reg ev) pid\<rparr>)"

definition announced :: "disconnect_env \<Rightarrow> u32 \<Rightarrow> 'a event_loop_scheme \<Rightarrow> 'a event_loop_scheme" where
  "announced e pid ev =
     (let did_init = (case processes (srv ev) pid of None \<Rightarrow> False | Some p \<Rightarrow> startup_done p);
          ev = mark_exited pid ev;
          ev = (if did_init then ev else signal_early_death pid (d_infos e) ev)
      in check_last_user (d_now e) pid (job_exit pid (signal_process_exit pid ev)))"

lemma end_process_steps: "end_process e pid m ev = forget_process pid (d_infos e) (announced e pid (purged e pid m ev))"
  by (simp only: end_process_def purged_def announced_def Let_def)

lemma announced_tabs:
  "tables (announced e pid ev) = tables (mark_exited pid ev)"
  "exits (announced e pid ev) =
     ((process_job ev)(pid := None), (process_idle_events ev)(pid := None), (process_exit_events ev)(pid := None))"
proof -
  define ev1 where "ev1 = (if (case processes (srv ev) pid of None \<Rightarrow> False | Some p \<Rightarrow> startup_done p)
    then mark_exited pid ev else signal_early_death pid (d_infos e) (mark_exited pid ev))"
  have e: "announced e pid ev = check_last_user (d_now e) pid (job_exit pid (signal_process_exit pid ev1))"
    by (simp only: announced_def Let_def ev1_def)
  have t1: "tables ev1 = tables (mark_exited pid ev)" "exits ev1 = exits (mark_exited pid ev)" by (simp_all add: ev1_def tabs)
  have "exits (mark_exited pid ev) = exits ev" by (simp add: mark_exited_def exits_def split: option.splits)
  with t1(2) have x: "exits ev1 = exits ev" by simp
  show "tables (announced e pid ev) = tables (mark_exited pid ev)" by (simp add: e tabs t1)
  have "process_job (signal_process_exit pid ev1) = process_job ev"
    "process_idle_events (signal_process_exit pid ev1) = (process_idle_events ev)(pid := None)"
    "process_exit_events (signal_process_exit pid ev1) = (process_exit_events ev)(pid := None)"
    using x process_exit_tabs(2)[of pid ev1] by (simp_all add: exits_def)
  then show "exits (announced e pid ev) =
     ((process_job ev)(pid := None), (process_idle_events ev)(pid := None), (process_exit_events ev)(pid := None))"
    by (simp add: e tabs)
qed

lemma close_inflight_tabs:
  "\<exists>cl. tables (close_inflight pid ev) =
    (clients ev, srv ev, reg ev, side ev, ntsync_objects ev, ntsync_recyclable ev,
      (process_inflight_fds ev)(pid := None), process_winstations ev, pending_reads ev, completed_ioctls ev,
      kernel_object_ptrs ev, nt_timers ev, pending_pipe_reads ev, completed_pipe_reads ev, named_pipes ev,
      pending_pipe_waiters ev, system_pids ev, pending_waits ev, cl) \<and>
   exits (close_inflight pid ev) = exits ev"
  by (auto simp: close_inflight_def close_fds_def tables_def exits_def fun_upd_idem split: option.splits)

lemma purge_objects_tabs:
  assumes "distinct (map fst (pipe_handles (side ev)))"
  shows "\<exists>cl t. side_keys t = {k \<in> side_keys (side ev). fst k \<noteq> pid} \<and> tables (purge_objects pid ev) =
    (clients ev, srv ev, reg ev, t, other pid (ntsync_objects ev), {k \<in> ntsync_recyclable ev. fst k \<noteq> pid},
      process_inflight_fds ev, process_winstations ev, pending_reads ev, completed_ioctls ev, kernel_object_ptrs ev,
      nt_timers ev, pending_pipe_reads ev, completed_pipe_reads ev, named_pipes ev, pending_pipe_waiters ev,
      system_pids ev, pending_waits ev, cl) \<and>
   exits (purge_objects pid ev) = exits ev"
proof -
  obtain fds t where t: "purge_pid (side ev) pid = (fds, t)" by fastforce
  have "side_keys t = {k \<in> side_keys (side ev). fst k \<noteq> pid}"
    using purge_removes_all_side_state[OF assms(1), of pid 0] t by simp
  with t show ?thesis by (auto simp: purge_objects_def close_fds_def tables_def exits_def)
qed

definition keep_pipes :: "u32 \<Rightarrow> (ustr \<rightharpoonup> named_pipe_info list) \<Rightarrow> (ustr \<rightharpoonup> named_pipe_info list)" where
  "keep_pipes pid m = (\<lambda>n. case m n of
      None \<Rightarrow> None
    | Some is \<Rightarrow> let is = filter (\<lambda>i. np_server_pid i \<noteq> pid) is in if is = [] then None else Some is)"

lemma purge_waits_tabs:
  "\<exists>cl. tables (purge_waits pid names ev) =
    (clients ev, srv ev, reg ev, side ev, ntsync_objects ev, ntsync_recyclable ev, process_inflight_fds ev,
      process_winstations ev, other pid (pending_reads ev), other pid (completed_ioctls ev),
      filter (\<lambda>((p, _), _). p \<noteq> pid) (kernel_object_ptrs ev),
      filter (\<lambda>(p, _). p \<noteq> pid) (nt_timers ev),
      filter (\<lambda>r. ar_pid r \<noteq> pid) (pending_pipe_reads ev),
      filter (\<lambda>r. cr_pid r \<noteq> pid) (completed_pipe_reads ev), keep_pipes pid (named_pipes ev),
      pending_pipe_waiters ev, system_pids ev, pending_waits ev, cl) \<and>
   exits (purge_waits pid names ev) = exits ev"
  by (auto simp: purge_waits_def close_fds_def tables_def exits_def keep_pipes_def Let_def)

lemma purge_windows_tabs: "tables (purge_windows pid ev) = tables ev" "exits (purge_windows pid ev) = exits ev"
  by (simp_all add: purge_windows_def tables_def exits_def Let_def)

lemma purged_tabs:
  assumes "distinct (map fst (pipe_handles (side ev)))"
  shows "\<exists>cl t r. side_keys t = {k \<in> side_keys (side ev). fst k \<noteq> pid} \<and>
    notify_list r = filter (\<lambda>n. n_pid n \<noteq> pid) (notify_list (reg ev)) \<and> tables (purged e pid m ev) =
    (clients ev, srv ev, r, t, other pid (ntsync_objects ev), {k \<in> ntsync_recyclable ev. fst k \<noteq> pid},
      (process_inflight_fds ev)(pid := None), (process_winstations ev)(pid := None), other pid (pending_reads ev),
      other pid (completed_ioctls ev), filter (\<lambda>((p, _), _). p \<noteq> pid) (kernel_object_ptrs ev),
      filter (\<lambda>(p, _). p \<noteq> pid) (nt_timers ev),
      filter (\<lambda>r. ar_pid r \<noteq> pid) (pending_pipe_reads ev),
      filter (\<lambda>r. cr_pid r \<noteq> pid) (completed_pipe_reads ev), keep_pipes pid (named_pipes ev),
      pending_pipe_waiters ev, system_pids ev, pending_waits ev, cl) \<and>
   exits (purged e pid m ev) = exits ev"
proof -
  define ev0 where "ev0 = ev\<lparr>msg_fd_map := (msg_fd_map ev)(m := None)\<rparr>"
  define ev1 where "ev1 = close_inflight pid ev0"
  define ev2 where "ev2 = purge_objects pid ev1"
  define ev3 where "ev3 = ev2\<lparr>process_winstations := (process_winstations ev2)(pid := None)\<rparr>"
  define ev4 where "ev4 = purge_waits pid (d_pipes e) ev3"
  define ev5 where "ev5 = purge_windows pid ev4"
  have p: "purged e pid m ev = ev5\<lparr>reg := remove_notifications_for_pid (reg ev5) pid\<rparr>"
    by (simp only: purged_def Let_def ev0_def ev1_def ev2_def ev3_def ev4_def ev5_def)
  have f0: "tables ev0 = tables ev" "exits ev0 = exits ev" by (simp_all add: ev0_def tables_def exits_def)
  note f0 = f0[unfolded tables_def exits_def prod.inject]
  obtain cl1 where t1: "tables ev1 =
    (clients ev, srv ev, reg ev, side ev, ntsync_objects ev, ntsync_recyclable ev,
      (process_inflight_fds ev)(pid := None), process_winstations ev, pending_reads ev, completed_ioctls ev,
      kernel_object_ptrs ev, nt_timers ev, pending_pipe_reads ev, completed_pipe_reads ev, named_pipes ev,
      pending_pipe_waiters ev, system_pids ev, pending_waits ev, cl1)"
    "exits ev1 = exits ev" using close_inflight_tabs[of pid ev0] f0 unfolding ev1_def by (auto simp: exits_def)
  note f1 = t1(1)[unfolded tables_def prod.inject]
  have d: "distinct (map fst (pipe_handles (side ev1)))" using assms f1 by simp
  obtain cl2 t where k: "side_keys t = {k \<in> side_keys (side ev). fst k \<noteq> pid}" and t2: "tables ev2 =
    (clients ev, srv ev, reg ev, t, other pid (ntsync_objects ev), {k \<in> ntsync_recyclable ev. fst k \<noteq> pid},
      (process_inflight_fds ev)(pid := None), process_winstations ev, pending_reads ev, completed_ioctls ev,
      kernel_object_ptrs ev, nt_timers ev, pending_pipe_reads ev, completed_pipe_reads ev, named_pipes ev,
      pending_pipe_waiters ev, system_pids ev, pending_waits ev, cl2)"
    "exits ev2 = exits ev" using purge_objects_tabs[OF d, of pid] f1 t1(2) unfolding ev2_def by auto
  note f2 = t2(1)[unfolded tables_def prod.inject]
  obtain cl4 where t4: "tables ev4 =
    (clients ev, srv ev, reg ev, t, other pid (ntsync_objects ev), {k \<in> ntsync_recyclable ev. fst k \<noteq> pid},
      (process_inflight_fds ev)(pid := None), (process_winstations ev)(pid := None), other pid (pending_reads ev),
      other pid (completed_ioctls ev), filter (\<lambda>((p, _), _). p \<noteq> pid) (kernel_object_ptrs ev),
      filter (\<lambda>(p, _). p \<noteq> pid) (nt_timers ev),
      filter (\<lambda>r. ar_pid r \<noteq> pid) (pending_pipe_reads ev),
      filter (\<lambda>r. cr_pid r \<noteq> pid) (completed_pipe_reads ev), keep_pipes pid (named_pipes ev),
      pending_pipe_waiters ev, system_pids ev, pending_waits ev, cl4)"
    "exits ev4 = exits ev" using purge_waits_tabs[of pid "d_pipes e" ev3] f2 t2(2) unfolding ev4_def by (auto simp: ev3_def exits_def)
  have t5: "tables ev5 = tables ev4" "exits ev5 = exits ev" using t4(2) by (simp_all add: ev5_def purge_windows_tabs)
  note f5 = t5(1)[unfolded t4(1), unfolded tables_def prod.inject]
  have r: "notify_list (reg (purged e pid m ev)) = filter (\<lambda>n. n_pid n \<noteq> pid) (notify_list (reg ev))"
    using f5 by (simp add: p remove_notifications_for_pid_def)
  show ?thesis
    by (rule exI[of _ cl4], rule exI[of _ t], rule exI[of _ "reg (purged e pid m ev)"])
      (use k r f5 t5(2) in \<open>simp add: p tables_def exits_def\<close>)
qed

section \<open>The thread that ends\<close>

definition proc_threads :: "'a el_objects_scheme \<Rightarrow> u32 \<rightharpoonup> u32 list" where
  "proc_threads ev = (\<lambda>q. map_option threads (processes (srv ev) q))"

text \<open>What a wake of another thread may change is its handle table and its queue handle.\<close>

definition outline where
  "outline ev = (map fst (clients ev), side ev, proc_threads ev, reg ev)"

lemma put_client_keys: "map_of cs f \<noteq> None \<Longrightarrow> map fst (put_client f c cs) = map fst cs"
  by (induction f c cs rule: put_client.induct) (auto split: if_splits)

lemma update_client_outline [tabs]: "outline (update_client f g ev) = outline ev"
  using put_client_keys[of "clients ev" f]
  by (auto simp: update_client_def outline_def proc_threads_def split: option.splits)

lemma alloc_waitable_outline: "alloc_waitable_handle f efd ev = (h, ev') \<Longrightarrow> outline ev' = outline ev"
  by (auto simp: alloc_waitable_handle_def new_object_id_def close_fds_def set_handles_def Let_def outline_def proc_threads_def alloc_object_id_def fun_eq_iff
      split: if_splits option.splits prod.splits)

lemma sync_outline [tabs]: "outline (sync os ev) = outline ev"
  by (simp add: sync_def outline_def proc_threads_def)

lemma signal_outline [tabs]: "outline (signal k ev) = outline ev"
  by (simp add: signal_def tabs split: option.splits prod.splits)

lemma set_queue_bits_outline: "set_queue_bits_for_tid t b efd ev = Some ev' \<Longrightarrow> outline ev' = outline ev"
proof -
  assume a: "set_queue_bits_for_tid t b efd ev = Some ev'"
  have s: "outline (ev\<lparr>sess := x\<rparr>) = outline ev" for x by (simp add: outline_def proc_threads_def)
  show ?thesis
    using a by (auto simp: set_queue_bits_for_tid_def tabs s Let_def dest: alloc_waitable_outline
        split: option.splits prod.splits if_splits bind_splits)
qed

lemma wake_senders_outline: "wake_senders efd ts ev = Some ev' \<Longrightarrow> outline ev' = outline ev"
  by (induction efd ts ev rule: wake_senders.induct) (auto dest: set_queue_bits_outline split: bind_splits)

lemma drain_receiver_outline: "drain_receiver efd t ev = Some ev' \<Longrightarrow> outline ev' = outline ev"
proof -
  have s: "outline (ev\<lparr>sent_tracker := x\<rparr>) = outline ev" for x by (simp add: outline_def proc_threads_def)
  assume "drain_receiver efd t ev = Some ev'"
  then show ?thesis by (auto simp: drain_receiver_def s dest!: wake_senders_outline split: prod.splits)
qed

lemma steps_outline [tabs]:
  "outline (forget_client f ev) = outline ev" "outline (abandon_mutexes ks p t ev) = outline ev"
  "outline (forget_pipe_waiters p ev) = outline ev" "outline (forget_requests f ev) = outline ev"
  "outline (signal_thread_exit f ev) = outline ev" "outline (ev\<lparr>shm := s\<rparr>) = outline ev"
  by (simp_all add: forget_client_def abandon_mutexes_def forget_pipe_waiters_def forget_requests_def
      signal_thread_exit_def signal_exits_def sync_def outline_def proc_threads_def split: option.splits)

lemma forget_thread_outline [tabs]: "outline (forget_thread t ev) = outline ev"
  by (simp add: forget_thread_def outline_def proc_threads_def)

lemma leave_process_outline:
  assumes "\<forall>(g, c)\<in>set (clients ev). process_id c \<noteq> pid"
  shows "outline (leave_process pid tid ev) =
    (map fst (clients ev), side ev, (\<lambda>q. if q = pid then map_option (\<lambda>_. []) (proc_threads ev q) else proc_threads ev q), reg ev)"
proof -
  have "filter (\<lambda>(_, c). process_id c = pid \<and> thread_id c \<noteq> 0) (clients ev) = []"
    using assms by (auto simp: filter_empty_conv)
  then show ?thesis by (auto simp: leave_process_def outline_def proc_threads_def fun_eq_iff split: option.splits)
qed

lemma end_thread_outline:
  assumes e: "end_thread e f pid tid ev = Some ev1" and "pid \<noteq> 0" "tid \<noteq> 0" and c: "client_at ev f = Some c"
    and only: "\<forall>(g, c)\<in>set (clients ev). process_id c = pid \<longrightarrow> g = f"
  shows "outline ev1 = (filter (\<lambda>g. g \<noteq> f) (map fst (clients ev)), side ev,
    (\<lambda>q. if q = pid then map_option (\<lambda>_. []) (proc_threads ev q) else proc_threads ev q), reg ev)"
proof -
  define a where "a = abandon_mutexes (d_objects e) pid tid (forget_client f ev)"
  define r where "r = remove_client f a"
  define w where "w = forget_pipe_waiters pid (r\<lparr>shm := free_slot (shm r) tid\<rparr>)"
  have a: "clients a = clients ev" "side a = side ev" "srv a = srv ev" "reg a = reg ev"
    by (simp_all add: a_def abandon_mutexes_def sync_def forget_client_def)
  have r: "clients r = filter (\<lambda>(g, _). g \<noteq> f) (clients ev)" "side r = side ev" "srv r = srv ev" "reg r = reg ev"
    using c by (simp_all add: r_def remove_client_def a close_fds_def)
  have w: "clients w = clients r" "side w = side r" "srv w = srv r" "reg w = reg r"
    by (simp_all add: w_def forget_pipe_waiters_def)
  have "\<forall>(g, c)\<in>set (clients w). process_id c \<noteq> pid" using only by (auto simp: w r)
  note l = leave_process_outline[OF this, of tid]
  obtain d where d: "drain_receiver (d_efd e) tid (leave_process pid tid w) = Some d"
    and ev1: "ev1 = signal_thread_exit f (forget_requests f (forget_thread tid d))"
    using e assms(2,3) by (auto simp: end_thread_def Let_def a_def r_def w_def split: bind_splits)
  have "outline ev1 = outline (leave_process pid tid w)" by (simp add: ev1 tabs drain_receiver_outline[OF d])
  moreover have "map fst (filter (\<lambda>(g, _). g \<noteq> f) (clients ev)) = filter (\<lambda>g. g \<noteq> f) (map fst (clients ev))"
    by (induction "clients ev" rule: rev_induct) (simp_all add: filter_map comp_def split_beta)
  moreover have pw: "proc_threads w = proc_threads ev" by (simp add: proc_threads_def w r)
  ultimately show ?thesis using l[unfolded pw] by (simp add: w r)
qed

section \<open>The state after the process\<close>

lemma mark_exited_tabs:
  "\<exists>s. tables (mark_exited pid ev) = tables (ev\<lparr>srv := s\<rparr>) \<and> proc_threads (ev\<lparr>srv := s\<rparr>) = proc_threads ev"
proof (cases "processes (srv ev) pid")
  case None
  then show ?thesis by (intro exI[of _ "srv ev"]) (simp add: mark_exited_def)
next
  case (Some p)
  then show ?thesis
    by (intro exI[of _ "(srv ev)\<lparr>processes := (processes (srv ev))(pid \<mapsto> p\<lparr>exit_code := 0, startup_done := True\<rparr>)\<rparr>"])
      (auto simp: mark_exited_def proc_threads_def)
qed

lemma forget_process_gone:
  fixes ev :: "'a event_loop_scheme"
  assumes "tables ev = tables p" "exits ev = exits p"
    and "\<forall>h. ntsync_objects p (pid, h) = None" "\<forall>h. (pid, h) \<notin> ntsync_recyclable p" "\<forall>h. (pid, h) \<notin> side_keys (side p)"
    "\<forall>a. pending_reads p (pid, a) = None" "\<forall>a. completed_ioctls p (pid, a) = None"
    "\<forall>((q, _), _)\<in>set (kernel_object_ptrs p). q \<noteq> pid" "\<forall>(q, _)\<in>set (nt_timers p). q \<noteq> pid"
    "\<forall>r\<in>set (pending_pipe_reads p). ar_pid r \<noteq> pid" "\<forall>r\<in>set (completed_pipe_reads p). cr_pid r \<noteq> pid"
    "\<forall>n is. named_pipes p n = Some is \<longrightarrow> (\<forall>i\<in>set is. np_server_pid i \<noteq> pid)"
    "\<forall>n\<in>set (notify_list (reg p)). n_pid n \<noteq> pid"
    "process_inflight_fds p pid = None" "process_winstations p pid = None"
    "process_job p pid = None" "process_idle_events p pid = None" "process_exit_events p pid = None"
  shows "process_gone pid (forget_process pid infos ev)"
proof -
  define q where "q = forget_process pid infos ev"
  note t = assms(1)[unfolded tables_def prod.inject] assms(2)[unfolded exits_def prod.inject]
  have f: "ntsync_objects q = ntsync_objects p" "ntsync_recyclable q = ntsync_recyclable p" "side q = side p"
    "pending_reads q = pending_reads p" "completed_ioctls q = completed_ioctls p" "kernel_object_ptrs q = kernel_object_ptrs p"
    "nt_timers q = nt_timers p" "pending_pipe_reads q = pending_pipe_reads p" "completed_pipe_reads q = completed_pipe_reads p"
    "named_pipes q = named_pipes p" "reg q = reg p" "process_inflight_fds q = process_inflight_fds p"
    "process_winstations q = process_winstations p" "process_job q = process_job p"
    "process_idle_events q = process_idle_events p" "process_exit_events q = process_exit_events p"
    using t by (simp_all add: q_def forget_process_def close_fds_def Let_def)
  have s: "processes (srv q) pid = None" "\<forall>t. \<not> dead_tid pid q t" "\<forall>b. image_views (srv q) (pid, b) = None"
    "\<forall>h v. process_info_handles (srv q) h = Some v \<longrightarrow> target_pid v \<noteq> pid" "pid \<notin> system_pids q"
    by (auto simp: q_def forget_process_def close_fds_def Let_def other_def dead_tid_def split: option.splits)
  show ?thesis unfolding q_def[symmetric] process_gone_def f by (intro conjI s assms(3-))
qed

lemma end_process_gone:
  assumes d: "distinct (map fst (pipe_handles (side ev)))"
  shows "process_gone pid (end_process e pid m ev)"
    and "clients (end_process e pid m ev) = clients ev"
    and "side_keys (side (end_process e pid m ev)) = {k \<in> side_keys (side ev). fst k \<noteq> pid}"
    and "q \<noteq> pid \<Longrightarrow> proc_threads (end_process e pid m ev) q = proc_threads ev q"
proof -
  define p where "p = purged e pid m ev"
  obtain cl t r where k: "side_keys t = {k \<in> side_keys (side ev). fst k \<noteq> pid}"
    and n: "notify_list r = filter (\<lambda>n. n_pid n \<noteq> pid) (notify_list (reg ev))"
    and P: "tables p = (clients ev, srv ev, r, t, other pid (ntsync_objects ev), {k \<in> ntsync_recyclable ev. fst k \<noteq> pid},
      (process_inflight_fds ev)(pid := None), (process_winstations ev)(pid := None), other pid (pending_reads ev),
      other pid (completed_ioctls ev), filter (\<lambda>((p, _), _). p \<noteq> pid) (kernel_object_ptrs ev),
      filter (\<lambda>(p, _). p \<noteq> pid) (nt_timers ev),
      filter (\<lambda>r. ar_pid r \<noteq> pid) (pending_pipe_reads ev),
      filter (\<lambda>r. cr_pid r \<noteq> pid) (completed_pipe_reads ev), keep_pipes pid (named_pipes ev),
      pending_pipe_waiters ev, system_pids ev, pending_waits ev, cl)"
    and x: "exits p = exits ev"
    using purged_tabs[OF d, of pid e m] unfolding p_def by blast
  note f = P[unfolded tables_def prod.inject]
  obtain s where s: "tables (mark_exited pid p) = tables (p\<lparr>srv := s\<rparr>)" "proc_threads (p\<lparr>srv := s\<rparr>) = proc_threads p"
    using mark_exited_tabs[of pid p] by blast
  define a where "a = announced e pid p"
  define b where "b = p\<lparr>srv := s, process_job := (process_job p)(pid := None),
    process_idle_events := (process_idle_events p)(pid := None), process_exit_events := (process_exit_events p)(pid := None)\<rparr>"
  have ab: "tables a = tables b" "exits a = exits b"
    unfolding a_def announced_tabs s b_def by (simp_all add: tables_def exits_def)
  have e: "end_process e pid m ev = forget_process pid (d_infos e) a" by (simp only: end_process_steps a_def p_def)
  show "process_gone pid (end_process e pid m ev)" unfolding e
    by (rule forget_process_gone[OF ab])
      (auto simp: b_def f other_def k n keep_pipes_def Let_def split: option.splits if_splits)
  note ab = ab(1)[unfolded tables_def prod.inject]
  have c: "clients (forget_process pid infos a) = clients a" "side (forget_process pid infos a) = side a" for infos
    by (simp_all add: forget_process_def close_fds_def Let_def)
  show "clients (end_process e pid m ev) = clients ev"
    "side_keys (side (end_process e pid m ev)) = {k \<in> side_keys (side ev). fst k \<noteq> pid}"
    unfolding e c using ab by (simp_all add: b_def f k)
  assume q: "q \<noteq> pid"
  have "proc_threads (forget_process pid infos a) q = proc_threads a q" for infos
    using q by (simp add: forget_process_def close_fds_def Let_def proc_threads_def)
  moreover have "proc_threads a = proc_threads (p\<lparr>srv := s\<rparr>)" using ab by (simp add: proc_threads_def b_def)
  moreover have "proc_threads p = proc_threads ev" using f by (simp add: proc_threads_def)
  ultimately show "proc_threads (end_process e pid m ev) q = proc_threads ev q" by (simp add: e s(2))
qed


definition quiet_exit :: disconnect_env where
  "quiet_exit = \<lparr>d_objects = [(32, 4)], d_infos = [], d_pipes = [], d_efd = (\<lambda>_. 60), d_now = 0\<rparr>"

end
