(* ===== verification/Spec2Isabelle.thy ===== *)
theory Spec2Isabelle
  imports Prelude Ustring Slab Queue Objects Shm SentMessages SideTables Intel Registry RegFile Display RegDisplay CspProps CompletionProps HandleProps RegHandlers Token SyncProps DisconnectProps
begin

text \<open>
  Amphetamine: a verification development of the triskelion daemon and its tools.
\<close>

end
